(* ===== verification/Delegation_Prelude.thy ===== *)
theory Delegation_Prelude
  imports Main "HOL-Library.Word"
begin

text \<open>
  Shared vocabulary of the development: the error values of the contract, the result
  type with its sequencing, the checked arithmetic of the managed big integers, the
  wrap-around of \<^verbatim>\<open>usize\<close> on the 32-bit target, and the theory of identifier queues
  (the lists of identifiers a chain of next/previous links stands for).
\<close>

named_theorems res_simps \<open>rewriting of results and of the checked arithmetic\<close>
named_theorems queue_simps \<open>successor, predecessor and ends of identifier queues\<close>

section \<open>Results\<close>

text \<open>
  A transaction that fails reverts: the only thing left of it is the error. \<open>ScPanic\<close> is
  \<^verbatim>\<open>sc_panic!\<close> and \<^verbatim>\<open>require!\<close> with their message, \<open>BigUintNegative\<close> and
  \<open>BigUintDivZero\<close> are the managed big integers' own traps, \<open>ArrayVecFull\<close> is the panic
  of \<^verbatim>\<open>ArrayVec::push\<close>, and \<open>OutOfGas\<close> is the end of a loop that would never stop.
\<close>

datatype sc_error =
    ScPanic string
  | BigUintNegative
  | BigUintDivZero
  | ArrayVecFull
  | OutOfGas

type_synonym 'a res = "sc_error + 'a"

type_synonym u8 = "8 word"
type_synonym u32 = "32 word"
type_synonym u64 = "64 word"

definition bind_res :: "'a res \<Rightarrow> ('a \<Rightarrow> 'b res) \<Rightarrow> 'b res" where
  "bind_res r f = (case r of Inl e \<Rightarrow> Inl e | Inr x \<Rightarrow> f x)"

definition require :: "bool \<Rightarrow> string \<Rightarrow> 'a res \<Rightarrow> 'a res" where
  "require b msg r = (if b then r else Inl (ScPanic msg))"

definition biguint_sub :: "nat \<Rightarrow> nat \<Rightarrow> nat res" where
  "biguint_sub a b = (if b \<le> a then Inr (a - b) else Inl BigUintNegative)"

definition biguint_div :: "nat \<Rightarrow> nat \<Rightarrow> nat res" where
  "biguint_div a b = (if b = 0 then Inl BigUintDivZero else Inr (a div b))"

text \<open>\<^verbatim>\<open>usize\<close> has 32 bits on the target, and its addition wraps.\<close>

definition usize_max :: nat where
  "usize_max = 2 ^ 32"

definition usize_add :: "nat \<Rightarrow> nat \<Rightarrow> nat" where
  "usize_add a b = (a + b) mod usize_max"

lemma bind_res_Inr [simp, res_simps]: "bind_res (Inr x) f = f x"
  by (simp add: bind_res_def)

lemma bind_res_Inl [simp, res_simps]: "bind_res (Inl e) f = Inl e"
  by (simp add: bind_res_def)

lemma bind_res_eq_Inr: "bind_res r f = Inr y \<longleftrightarrow> (\<exists>x. r = Inr x \<and> f x = Inr y)"
  by (cases r) auto

lemma bind_res_assoc [res_simps]: "bind_res (bind_res r f) g = bind_res r (\<lambda>x. bind_res (f x) g)"
  by (cases r) auto

text \<open>The continuation runs on the value of the first part only: recursion may rely on it.\<close>

lemma bind_res_cong [fundef_cong]:
  "r = r' \<Longrightarrow> (\<And>x. r' = Inr x \<Longrightarrow> f x = g x) \<Longrightarrow> bind_res r f = bind_res r' g"
  by (cases r') auto

lemma require_True [simp, res_simps]: "require True msg r = r"
  by (simp add: require_def)

lemma require_False [simp, res_simps]: "require False msg r = Inl (ScPanic msg)"
  by (simp add: require_def)

lemma require_eq_Inr: "require b msg r = Inr y \<longleftrightarrow> b \<and> r = Inr y"
  by (simp add: require_def)

lemma biguint_sub_le [simp, res_simps]: "b \<le> a \<Longrightarrow> biguint_sub a b = Inr (a - b)"
  by (simp add: biguint_sub_def)

lemma biguint_sub_eq_Inr: "biguint_sub a b = Inr c \<longleftrightarrow> b \<le> a \<and> c = a - b"
  by (auto simp: biguint_sub_def)

lemma biguint_div_pos [simp, res_simps]: "0 < b \<Longrightarrow> biguint_div a b = Inr (a div b)"
  by (simp add: biguint_div_def)

lemma biguint_div_eq_Inr: "biguint_div a b = Inr c \<longleftrightarrow> 0 < b \<and> c = a div b"
  by (auto simp: biguint_div_def)

lemma usize_add_small: "a + b < usize_max \<Longrightarrow> usize_add a b = a + b"
  by (simp add: usize_add_def)

lemma usize_add_bound: "usize_add a b < usize_max"
  by (simp add: usize_add_def usize_max_def)

lemmas res_elims = bind_res_eq_Inr require_eq_Inr biguint_sub_eq_Inr biguint_div_eq_Inr

section \<open>Identifier queues\<close>

text \<open>
  A doubly linked list in storage is a list of identifiers; 0 stands for \<open>no
  identifier\<close>. \<open>next_of xs i\<close> is what the next-link of \<open>i\<close> holds, \<open>prev_of xs i\<close> its
  previous-link, \<open>first_of\<close> and \<open>last_of\<close> the two ends.
\<close>

definition first_of :: "nat list \<Rightarrow> nat" where
  "first_of xs = (case xs of [] \<Rightarrow> 0 | x # _ \<Rightarrow> x)"

definition last_of :: "nat list \<Rightarrow> nat" where
  "last_of xs = first_of (rev xs)"

fun next_of :: "nat list \<Rightarrow> nat \<Rightarrow> nat" where
  "next_of [] i = 0"
| "next_of (x # xs) i = (if x = i then first_of xs else next_of xs i)"

definition prev_of :: "nat list \<Rightarrow> nat \<Rightarrow> nat" where
  "prev_of xs i = next_of (rev xs) i"

lemma first_of_simps [simp, queue_simps]:
  "first_of [] = 0" "first_of (x # xs) = x"
  by (simp_all add: first_of_def)

lemma last_of_simps [simp, queue_simps]:
  "last_of [] = 0" "last_of (xs @ [x]) = x"
  by (simp_all add: last_of_def)

lemma first_of_rev: "first_of (rev xs) = last_of xs"
  by (simp add: last_of_def)

lemma last_of_rev: "last_of (rev xs) = first_of xs"
  by (simp add: last_of_def)

lemma prev_of_rev: "prev_of (rev xs) i = next_of xs i"
  by (simp add: prev_of_def)

lemma last_of_nonempty: "xs \<noteq> [] \<Longrightarrow> last_of xs = last xs"
  by (cases xs rule: rev_cases) auto

lemma first_of_in: "xs \<noteq> [] \<Longrightarrow> first_of xs \<in> set xs"
  by (cases xs) auto

lemma last_of_in: "xs \<noteq> [] \<Longrightarrow> last_of xs \<in> set xs"
  by (simp add: last_of_nonempty)

lemma first_of_append: "first_of (xs @ ys) = (if xs = [] then first_of ys else first_of xs)"
  by (cases xs) auto

lemma last_of_append: "last_of (xs @ ys) = (if ys = [] then last_of xs else last_of ys)"
  by (auto simp: last_of_def first_of_append)

lemma last_of_Cons: "last_of (x # xs) = (if xs = [] then x else last_of xs)"
  using last_of_append [of "[x]" xs] by (simp add: last_of_def)

lemma first_of_eq_0: "0 \<notin> set xs \<Longrightarrow> first_of xs = 0 \<longleftrightarrow> xs = []"
  by (cases xs) auto

lemma last_of_eq_0: "0 \<notin> set xs \<Longrightarrow> last_of xs = 0 \<longleftrightarrow> xs = []"
  by (cases xs rule: rev_cases) auto

lemma next_of_notin: "i \<notin> set xs \<Longrightarrow> next_of xs i = 0"
  by (induction xs) auto

lemma prev_of_notin: "i \<notin> set xs \<Longrightarrow> prev_of xs i = 0"
  by (simp add: prev_of_def next_of_notin)

text \<open>The workhorse: links of a concatenation.\<close>

lemma next_of_append:
  assumes "distinct (xs @ ys)"
  shows "next_of (xs @ ys) i =
    (if i \<in> set xs then (if i = last_of xs then first_of ys else next_of xs i)
     else next_of ys i)"
  using assms
proof (induction xs)
  case Nil
  then show ?case by simp
next
  case (Cons x xs)
  then have IH: "next_of (xs @ ys) i =
    (if i \<in> set xs then (if i = last_of xs then first_of ys else next_of xs i)
     else next_of ys i)" and x: "x \<notin> set xs"
    by simp_all
  show ?case
    using x last_of_in [of xs] IH by (auto simp: first_of_append last_of_Cons)
qed

lemma prev_of_append:
  assumes "distinct (xs @ ys)"
  shows "prev_of (xs @ ys) i =
    (if i \<in> set ys then (if i = first_of ys then last_of xs else prev_of ys i)
     else prev_of xs i)"
proof -
  have "distinct (rev ys @ rev xs)"
    using assms by auto
  then show ?thesis
    by (simp add: prev_of_def next_of_append first_of_rev last_of_rev)
qed

lemma next_of_split:
  "distinct (xs @ i # ys) \<Longrightarrow> next_of (xs @ i # ys) i = first_of ys"
  by (simp add: next_of_append)

lemma prev_of_split:
  "distinct (xs @ i # ys) \<Longrightarrow> prev_of (xs @ i # ys) i = last_of xs"
  by (simp add: prev_of_append)

text \<open>Adding at the end.\<close>

lemma next_of_snoc:
  assumes "distinct (xs @ [x])" and "0 \<notin> set xs"
  shows "next_of (xs @ [x]) i = (if i \<noteq> 0 \<and> i = last_of xs then x else next_of xs i)"
proof (cases "xs = []")
  case False
  then show ?thesis
    using assms last_of_in [of xs] by (auto simp: next_of_append next_of_notin)
qed auto

lemma prev_of_snoc:
  "distinct (xs @ [x]) \<Longrightarrow> prev_of (xs @ [x]) i = (if i = x then last_of xs else prev_of xs i)"
  by (auto simp: prev_of_def first_of_rev)

text \<open>Removing one identifier: its neighbours are joined, nothing else changes.\<close>

definition drop_id :: "nat \<Rightarrow> nat list \<Rightarrow> nat list" where
  "drop_id i xs = filter (\<lambda>j. j \<noteq> i) xs"

lemma drop_id_notin: "i \<notin> set xs \<Longrightarrow> drop_id i xs = xs"
  unfolding drop_id_def by (rule filter_True) auto

lemma drop_id_append: "drop_id i (xs @ ys) = drop_id i xs @ drop_id i ys"
  by (simp add: drop_id_def)

lemma drop_id_Cons: "drop_id i (x # xs) = (if x = i then drop_id i xs else x # drop_id i xs)"
  by (simp add: drop_id_def)

lemma drop_id_split: "distinct (xs @ i # ys) \<Longrightarrow> drop_id i (xs @ i # ys) = xs @ ys"
  by (simp add: drop_id_append drop_id_notin drop_id_Cons)

lemma rev_drop_id: "rev (drop_id i xs) = drop_id i (rev xs)"
  by (simp add: drop_id_def rev_filter)

lemma next_of_drop:
  assumes d: "distinct xs" and z: "0 \<notin> set xs" and i: "i \<in> set xs" and ji: "j \<noteq> i"
  shows "next_of (drop_id i xs) j =
    (if j \<noteq> 0 \<and> j = prev_of xs i then next_of xs i else next_of xs j)"
proof -
  from i obtain as bs where xs: "xs = as @ i # bs"
    by (auto dest: split_list)
  have n: "next_of xs i = first_of bs" and p: "prev_of xs i = last_of as"
    using d unfolding xs by (simp_all add: next_of_split prev_of_split)
  have dr: "drop_id i xs = as @ bs"
    using d unfolding xs by (rule drop_id_split)
  have dd: "distinct (as @ bs)"
    using d xs by auto
  have l: "as \<noteq> [] \<Longrightarrow> last_of as \<in> set as"
    by (rule last_of_in)
  show ?thesis
    unfolding n p dr using d z ji dd l
    by (cases "as = []") (auto simp: xs next_of_append next_of_notin)
qed

lemma prev_of_drop:
  assumes "distinct xs" and "0 \<notin> set xs" and "i \<in> set xs" and "j \<noteq> i"
  shows "prev_of (drop_id i xs) j =
    (if j \<noteq> 0 \<and> j = next_of xs i then prev_of xs i else prev_of xs j)"
  using next_of_drop [of "rev xs" i j] assms
  by (simp add: prev_of_def rev_drop_id)

lemma first_of_drop:
  assumes d: "distinct xs" and z: "0 \<notin> set xs" and i: "i \<in> set xs"
  shows "first_of (drop_id i xs) = (if prev_of xs i = 0 then next_of xs i else first_of xs)"
proof -
  from i obtain as bs where xs: "xs = as @ i # bs"
    by (auto dest: split_list)
  have "last_of as = 0 \<longleftrightarrow> as = []"
    using z by (intro last_of_eq_0) (auto simp: xs)
  moreover have "next_of xs i = first_of bs" "prev_of xs i = last_of as"
    using d unfolding xs by (simp_all add: next_of_split prev_of_split)
  moreover have "drop_id i xs = as @ bs"
    using d unfolding xs by (rule drop_id_split)
  ultimately show ?thesis
    by (simp add: xs first_of_append)
qed

lemma last_of_drop:
  assumes "distinct xs" and "0 \<notin> set xs" and "i \<in> set xs"
  shows "last_of (drop_id i xs) = (if next_of xs i = 0 then prev_of xs i else last_of xs)"
  using first_of_drop [of "rev xs" i] assms
  by (simp add: last_of_def rev_drop_id prev_of_def)

lemma next_of_in:
  "next_of xs i \<noteq> 0 \<Longrightarrow> next_of xs i \<in> set xs"
  by (induction xs) (auto simp: first_of_def split: if_splits list.splits)

lemma prev_of_in:
  "prev_of xs i \<noteq> 0 \<Longrightarrow> prev_of xs i \<in> set xs"
  using next_of_in [of "rev xs" i] by (simp add: prev_of_def)

lemma next_of_neq:
  assumes "distinct xs" and "0 \<notin> set xs" and "i \<in> set xs"
  shows "next_of xs i \<noteq> i"
proof -
  from assms(3) obtain as bs where xs: "xs = as @ i # bs"
    by (auto dest: split_list)
  have "next_of xs i = first_of bs"
    using assms(1) unfolding xs by (rule next_of_split)
  then show ?thesis
    using assms by (cases bs) (auto simp: xs)
qed

lemma prev_of_neq:
  assumes "distinct xs" and "0 \<notin> set xs" and "i \<in> set xs"
  shows "prev_of xs i \<noteq> i"
  using next_of_neq [of "rev xs" i] assms by (simp add: prev_of_def)

lemmas queue_drop = next_of_drop prev_of_drop first_of_drop last_of_drop
lemmas queue_ends = first_of_in last_of_in next_of_in prev_of_in

end
