(* ===== verification/Fund_Types.thy ===== *)
theory Fund_Types
  imports Delegation_Prelude
begin

text \<open>
  The data of the fund storage (\<^verbatim>\<open>user-fund-storage/src/types\<close>): fund descriptions and
  their types, the fund item with its four links, the head of a fund list, and the vector
  of affected user ids with its sort-and-deduplicate step.
\<close>

section \<open>Fund types and descriptions\<close>

text \<open>
  The constructors of \<^verbatim>\<open>FundType\<close> keep their names; those of \<^verbatim>\<open>FundDescription\<close>, which
  are spelt the same in the source, carry the prefix \<open>Fd\<close>. \<open>created\<close> is a block nonce.
\<close>

datatype fund_type =
    WithdrawOnly
  | Waiting
  | PendingAct
  | ActiveFailed
  | Active
  | UnStaked
  | DeferredPayment

datatype fund_description =
    FdWithdrawOnly
  | FdWaiting u64
  | FdPendingAct
  | FdActiveFailed
  | FdActive
  | FdUnStaked u64
  | FdDeferredPayment u64

definition ALL_TYPES :: "fund_type list" where
  "ALL_TYPES = [WithdrawOnly, Waiting, Active, UnStaked, DeferredPayment]"

definition allow_coalesce :: "fund_type \<Rightarrow> bool" where
  "allow_coalesce t = (case t of WithdrawOnly \<Rightarrow> True | DeferredPayment \<Rightarrow> True | _ \<Rightarrow> False)"

definition is_stake :: "fund_type \<Rightarrow> bool" where
  "is_stake t = (case t of Waiting \<Rightarrow> True | Active \<Rightarrow> True | UnStaked \<Rightarrow> True | _ \<Rightarrow> False)"

definition funds_in_contract :: "fund_type \<Rightarrow> bool" where
  "funds_in_contract t =
     (case t of WithdrawOnly \<Rightarrow> True | Waiting \<Rightarrow> True | DeferredPayment \<Rightarrow> True | _ \<Rightarrow> False)"

fun fund_type_of :: "fund_description \<Rightarrow> fund_type" where
  "fund_type_of FdWithdrawOnly = WithdrawOnly"
| "fund_type_of (FdWaiting created) = Waiting"
| "fund_type_of FdPendingAct = PendingAct"
| "fund_type_of FdActiveFailed = ActiveFailed"
| "fund_type_of FdActive = Active"
| "fund_type_of (FdUnStaked created) = UnStaked"
| "fund_type_of (FdDeferredPayment created) = DeferredPayment"

section \<open>Fund items and list heads\<close>

record fund_item =
  fund_desc :: fund_description
  user_id :: nat
  balance :: nat
  type_list_next :: nat
  type_list_prev :: nat
  user_list_next :: nat
  user_list_prev :: nat

text \<open>
  A value that \<open>is_default\<close> is stored as the empty value, and the empty value is read
  back as the default; the description and the user of such an item are lost.
\<close>

definition fund_item_is_default :: "fund_item \<Rightarrow> bool" where
  "fund_item_is_default it \<longleftrightarrow>
     balance it = 0 \<and> type_list_next it = 0 \<and> type_list_prev it = 0 \<and>
     user_list_next it = 0 \<and> user_list_prev it = 0"

definition fund_item_default :: fund_item where
  "fund_item_default = \<lparr>fund_desc = FdWithdrawOnly, user_id = 0, balance = 0,
     type_list_next = 0, type_list_prev = 0, user_list_next = 0, user_list_prev = 0\<rparr>"

record funds_list_info =
  total_balance :: nat
  list_first :: nat
  list_last :: nat

definition funds_list_is_default :: "funds_list_info \<Rightarrow> bool" where
  "funds_list_is_default l \<longleftrightarrow> total_balance l = 0 \<and> list_first l = 0 \<and> list_last l = 0"

definition funds_list_default :: funds_list_info where
  "funds_list_default = \<lparr>total_balance = 0, list_first = 0, list_last = 0\<rparr>"

datatype swap_direction = Forwards | Backwards

section \<open>Affected users\<close>

definition MAX_AFFECTED_USERS :: nat where
  "MAX_AFFECTED_USERS = 10000"

text \<open>\<^verbatim>\<open>sort_unstable\<close>, then \<^verbatim>\<open>partition_dedup\<close> with the vector cut to its first part.\<close>

definition affected_users_sort_dedup :: "nat list \<Rightarrow> nat list" where
  "affected_users_sort_dedup affected_users = remdups_adj (sort affected_users)"

definition affected_users_push :: "nat list \<Rightarrow> nat \<Rightarrow> nat list res" where
  "affected_users_push affected_users u =
     (if length affected_users < MAX_AFFECTED_USERS then Inr (affected_users @ [u])
      else Inl (ScPanic ''affected user capacity exceeded''))"

section \<open>Library instances and facts\<close>

text \<open>The fund types are a finite, enumerable type: sums over all of them make sense.\<close>

instantiation fund_type :: enum
begin

definition enum_fund_type_def:
  "enum_class.enum =
     [WithdrawOnly, Waiting, PendingAct, ActiveFailed, Active, UnStaked, DeferredPayment]"

definition enum_all_fund_type_def:
  "enum_class.enum_all P \<longleftrightarrow> (\<forall>t \<in> set (enum_class.enum :: fund_type list). P t)"

definition enum_ex_fund_type_def:
  "enum_class.enum_ex P \<longleftrightarrow> (\<exists>t \<in> set (enum_class.enum :: fund_type list). P t)"

instance
proof
  have UNIV_eq: "(UNIV :: fund_type set) = set enum_class.enum"
  proof (rule UNIV_eq_I)
    fix t :: fund_type
    show "t \<in> set enum_class.enum"
      by (cases t) (simp_all add: enum_fund_type_def)
  qed
  show "(UNIV :: fund_type set) = set enum_class.enum"
    by (rule UNIV_eq)
  show "distinct (enum_class.enum :: fund_type list)"
    by (simp add: enum_fund_type_def)
  show "enum_class.enum_all P \<longleftrightarrow> Ball UNIV P" for P :: "fund_type \<Rightarrow> bool"
    by (simp add: UNIV_eq enum_all_fund_type_def)
  show "enum_class.enum_ex P \<longleftrightarrow> Bex UNIV P" for P :: "fund_type \<Rightarrow> bool"
    by (simp add: UNIV_eq enum_ex_fund_type_def)
qed

end

lemma UNIV_fund_type:
  "(UNIV :: fund_type set) =
     {WithdrawOnly, Waiting, PendingAct, ActiveFailed, Active, UnStaked, DeferredPayment}"
  by (simp add: UNIV_enum enum_fund_type_def)

lemma fund_item_default_simps [simp]:
  "fund_desc fund_item_default = FdWithdrawOnly" "user_id fund_item_default = 0"
  "balance fund_item_default = 0"
  "type_list_next fund_item_default = 0" "type_list_prev fund_item_default = 0"
  "user_list_next fund_item_default = 0" "user_list_prev fund_item_default = 0"
  by (simp_all add: fund_item_default_def)

lemma funds_list_default_simps [simp]:
  "total_balance funds_list_default = 0" "list_first funds_list_default = 0"
  "list_last funds_list_default = 0"
  by (simp_all add: funds_list_default_def)

lemma fund_item_is_default_default [simp]: "fund_item_is_default fund_item_default"
  by (simp add: fund_item_is_default_def)

lemma funds_list_is_default_default [simp]: "funds_list_is_default funds_list_default"
  by (simp add: funds_list_is_default_def)

lemma fund_item_not_default: "0 < balance it \<Longrightarrow> \<not> fund_item_is_default it"
  by (simp add: fund_item_is_default_def)

lemma set_affected_users_sort_dedup [simp]:
  "set (affected_users_sort_dedup us) = set us"
  by (simp add: affected_users_sort_dedup_def)

lemma affected_users_push_ok:
  "length us < MAX_AFFECTED_USERS \<Longrightarrow> affected_users_push us u = Inr (us @ [u])"
  by (simp add: affected_users_push_def)

end
