(* ===== verification/Fund_Module.thy ===== *)
theory Fund_Module
  imports Fund_Types
begin

text \<open>
  The fund storage itself (\<^verbatim>\<open>user-fund-storage/src/fund_module.rs\<close>): fund items under their
  ids, a doubly linked list of all items of a type, a doubly linked list of the items of a
  user and type, and the running totals in the list heads. This theory holds the
  operations, translated one by one; what they compute is proved in the theories
  \<open>Fund_Refinement\<close>, \<open>Fund_Loops\<close> and after.
\<close>

section \<open>Storage\<close>

text \<open>
  The four storage mappers. An absent key is \<open>None\<close>; \<^verbatim>\<open>get\<close> reads it as the default and
  \<^verbatim>\<open>set\<close> of a default value clears the key.
\<close>

record fund_storage =
  fs_by_id :: "nat \<Rightarrow> fund_item option"
  fs_max_id :: nat
  fs_by_type :: "fund_type \<Rightarrow> funds_list_info option"
  fs_by_user :: "nat \<Rightarrow> fund_type \<Rightarrow> funds_list_info option"

definition fund_storage_empty :: fund_storage where
  "fund_storage_empty = \<lparr>fs_by_id = (\<lambda>_. None), fs_max_id = 0,
     fs_by_type = (\<lambda>_. None), fs_by_user = (\<lambda>_ _. None)\<rparr>"

definition fund_by_id :: "fund_storage \<Rightarrow> nat \<Rightarrow> fund_item" where
  "fund_by_id s i = (case fs_by_id s i of None \<Rightarrow> fund_item_default | Some it \<Rightarrow> it)"

definition set_fund_by_id :: "nat \<Rightarrow> fund_item \<Rightarrow> fund_storage \<Rightarrow> fund_storage" where
  "set_fund_by_id i it s =
     s\<lparr>fs_by_id := (fs_by_id s)(i := (if fund_item_is_default it then None else Some it))\<rparr>"

definition update_fund_by_id ::
  "nat \<Rightarrow> (fund_item \<Rightarrow> fund_item) \<Rightarrow> fund_storage \<Rightarrow> fund_storage" where
  "update_fund_by_id i f s = set_fund_by_id i (f (fund_by_id s i)) s"

definition fund_list_by_type :: "fund_storage \<Rightarrow> fund_type \<Rightarrow> funds_list_info" where
  "fund_list_by_type s t =
     (case fs_by_type s t of None \<Rightarrow> funds_list_default | Some l \<Rightarrow> l)"

definition set_fund_list_by_type ::
  "fund_type \<Rightarrow> funds_list_info \<Rightarrow> fund_storage \<Rightarrow> fund_storage" where
  "set_fund_list_by_type t l s =
     s\<lparr>fs_by_type := (fs_by_type s)(t := (if funds_list_is_default l then None else Some l))\<rparr>"

definition fund_list_by_user :: "fund_storage \<Rightarrow> nat \<Rightarrow> fund_type \<Rightarrow> funds_list_info" where
  "fund_list_by_user s u t =
     (case fs_by_user s u t of None \<Rightarrow> funds_list_default | Some l \<Rightarrow> l)"

definition set_fund_list_by_user ::
  "nat \<Rightarrow> fund_type \<Rightarrow> funds_list_info \<Rightarrow> fund_storage \<Rightarrow> fund_storage" where
  "set_fund_list_by_user u t l s =
     s\<lparr>fs_by_user := (fs_by_user s)
         (u := (fs_by_user s u)(t := (if funds_list_is_default l then None else Some l)))\<rparr>"

section \<open>Queries\<close>

text \<open>
  The brute-force sum runs over all ids ever given out. All other queries follow links from
  one end of a list: \<open>traverse\<close> is their common loop \<^verbatim>\<open>while id > 0 { item = get(id); body;
  id = next(item) }\<close>. The loop has no bound of its own in the source; the model stops it
  with \<open>OutOfGas\<close> after \<open>loop_fuel\<close> items. No id above the largest one was ever given out
  and a chain that ends visits an id once, so that is enough (\<open>traverse_entries\<close> in the
  theory \<open>Fund_Loops\<close>).
\<close>

definition loop_fuel :: "fund_storage \<Rightarrow> nat" where
  "loop_fuel s = Suc (fs_max_id s)"

definition query_sum_all_funds_brute_force ::
  "fund_storage \<Rightarrow> (nat \<Rightarrow> fund_description \<Rightarrow> bool) \<Rightarrow> nat" where
  "query_sum_all_funds_brute_force s flt =
     fold (\<lambda>i sum. let it = fund_by_id s i in
             if flt (user_id it) (fund_desc it) then sum + balance it else sum)
       [1..<Suc (fs_max_id s)] 0"

fun traverse ::
  "nat \<Rightarrow> fund_storage \<Rightarrow> (fund_item \<Rightarrow> nat) \<Rightarrow> (fund_item \<Rightarrow> 'a \<Rightarrow> 'a) \<Rightarrow> nat \<Rightarrow> 'a \<Rightarrow> 'a res"
where
  "traverse 0 s next_id body i acc = (if i = 0 then Inr acc else Inl OutOfGas)"
| "traverse (Suc n) s next_id body i acc =
     (if i = 0 then Inr acc
      else let it = fund_by_id s i in traverse n s next_id body (next_id it) (body it acc))"

definition query_sum_funds_by_type ::
  "fund_storage \<Rightarrow> fund_type \<Rightarrow> (nat \<Rightarrow> fund_description \<Rightarrow> bool) \<Rightarrow> nat res" where
  "query_sum_funds_by_type s t flt =
     traverse (loop_fuel s) s type_list_next
       (\<lambda>it sum. if flt (user_id it) (fund_desc it) then sum + balance it else sum)
       (list_first (fund_list_by_type s t)) 0"

definition query_sum_funds_by_user_type ::
  "fund_storage \<Rightarrow> nat \<Rightarrow> fund_type \<Rightarrow> (fund_description \<Rightarrow> bool) \<Rightarrow> nat res" where
  "query_sum_funds_by_user_type s u t flt =
     traverse (loop_fuel s) s user_list_next
       (\<lambda>it sum. if flt (fund_desc it) then sum + balance it else sum)
       (list_first (fund_list_by_user s u t)) 0"

definition foreach_fund_by_user_type ::
  "fund_storage \<Rightarrow> nat \<Rightarrow> fund_type \<Rightarrow> swap_direction \<Rightarrow> (fund_item \<Rightarrow> 'a \<Rightarrow> 'a) \<Rightarrow> 'a \<Rightarrow> 'a res"
where
  "foreach_fund_by_user_type s u t dir closure acc =
     traverse (loop_fuel s) s
       (case dir of Forwards \<Rightarrow> user_list_next | Backwards \<Rightarrow> user_list_prev)
       closure
       (case dir of Forwards \<Rightarrow> list_first (fund_list_by_user s u t)
                  | Backwards \<Rightarrow> list_last (fund_list_by_user s u t)) acc"

definition foreach_fund_by_type ::
  "fund_storage \<Rightarrow> fund_type \<Rightarrow> swap_direction \<Rightarrow> (fund_item \<Rightarrow> 'a \<Rightarrow> 'a) \<Rightarrow> 'a \<Rightarrow> 'a res"
where
  "foreach_fund_by_type s t dir closure acc =
     traverse (loop_fuel s) s
       (case dir of Forwards \<Rightarrow> type_list_next | Backwards \<Rightarrow> type_list_prev)
       closure
       (case dir of Forwards \<Rightarrow> list_first (fund_list_by_type s t)
                  | Backwards \<Rightarrow> list_last (fund_list_by_type s t)) acc"

definition count_fund_items_by_type ::
  "fund_storage \<Rightarrow> fund_type \<Rightarrow> (fund_item \<Rightarrow> bool) \<Rightarrow> nat res" where
  "count_fund_items_by_type s t flt =
     traverse (loop_fuel s) s type_list_next
       (\<lambda>it count. if flt it then usize_add count 1 else count)
       (list_first (fund_list_by_type s t)) 0"

definition count_fund_items_by_user_type ::
  "fund_storage \<Rightarrow> nat \<Rightarrow> fund_type \<Rightarrow> (fund_description \<Rightarrow> bool) \<Rightarrow> nat res" where
  "count_fund_items_by_user_type s u t flt =
     traverse (loop_fuel s) s user_list_next
       (\<lambda>it count. if flt (fund_desc it) then usize_add count 1 else count)
       (list_first (fund_list_by_user s u t)) 0"

section \<open>Creating and increasing funds\<close>

definition add_fund_to_type_list ::
  "nat \<Rightarrow> fund_item \<Rightarrow> fund_storage \<Rightarrow> fund_item \<times> fund_storage" where
  "add_fund_to_type_list i item s =
     (let t = fund_type_of (fund_desc item);
          type_list = fund_list_by_type s t;
          (item', type_list', s') =
            (if funds_list_is_default type_list
             then (item, type_list\<lparr>list_first := i\<rparr>, s)
             else (item\<lparr>type_list_prev := list_last type_list\<rparr>, type_list,
                   update_fund_by_id (list_last type_list)
                     (\<lambda>prev_fund. prev_fund\<lparr>type_list_next := i\<rparr>) s))
      in (item', set_fund_list_by_type t
            (type_list'\<lparr>list_last := i,
                total_balance := total_balance type_list' + balance item'\<rparr>) s'))"

definition add_fund_to_user_list ::
  "nat \<Rightarrow> fund_item \<Rightarrow> fund_storage \<Rightarrow> fund_item \<times> fund_storage" where
  "add_fund_to_user_list i item s =
     (let u = user_id item; t = fund_type_of (fund_desc item);
          user_list = fund_list_by_user s u t;
          (item', user_list', s') =
            (if funds_list_is_default user_list
             then (item, user_list\<lparr>list_first := i\<rparr>, s)
             else (item\<lparr>user_list_prev := list_last user_list\<rparr>, user_list,
                   update_fund_by_id (list_last user_list)
                     (\<lambda>prev_fund. prev_fund\<lparr>user_list_next := i\<rparr>) s))
      in (item', set_fund_list_by_user u t
            (user_list'\<lparr>list_last := i,
                total_balance := total_balance user_list' + balance item'\<rparr>) s'))"

definition create_fund ::
  "nat \<Rightarrow> fund_description \<Rightarrow> nat \<Rightarrow> fund_storage \<Rightarrow> fund_storage" where
  "create_fund u d b s =
     (if b = 0 then s
      else
        let fund_max_id = usize_add (fs_max_id s) 1;
            s1 = s\<lparr>fs_max_id := fund_max_id\<rparr>;
            item = \<lparr>fund_desc = d, user_id = u, balance = b, type_list_next = 0,
                     type_list_prev = 0, user_list_next = 0, user_list_prev = 0\<rparr>;
            (item1, s2) = add_fund_to_type_list fund_max_id item s1;
            (item2, s3) = add_fund_to_user_list fund_max_id item1 s2
        in set_fund_by_id fund_max_id item2 s3)"

text \<open>
  The nested \<^verbatim>\<open>update\<close> closures of the source read the user list, then the last item, then
  the type list, and write them back from the inside out.
\<close>

definition increase_fund_balance ::
  "nat \<Rightarrow> fund_description \<Rightarrow> nat \<Rightarrow> fund_storage \<Rightarrow> fund_storage" where
  "increase_fund_balance u d amount s =
     (if amount = 0 then s
      else
        let t = fund_type_of d;
            (coalesced, s') =
              (if allow_coalesce t then
                 let user_list = fund_list_by_user s u t in
                 if funds_list_is_default user_list
                 then (False, set_fund_list_by_user u t user_list s)
                 else
                   let last_item = fund_by_id s (list_last user_list) in
                   if fund_desc last_item = d then
                     let last_item' = last_item\<lparr>balance := balance last_item + amount\<rparr>;
                         user_list' = user_list\<lparr>total_balance := total_balance user_list + amount\<rparr>;
                         lt = fund_type_of (fund_desc last_item');
                         type_list = fund_list_by_type s lt;
                         s1 = set_fund_list_by_type lt
                                (type_list\<lparr>total_balance := total_balance type_list + amount\<rparr>) s;
                         s2 = set_fund_by_id (list_last user_list) last_item' s1
                     in (True, set_fund_list_by_user u t user_list' s2)
                   else (False, set_fund_list_by_user u t user_list
                                  (set_fund_by_id (list_last user_list) last_item s))
               else (False, s))
        in if coalesced then s' else create_fund u d amount s')"

section \<open>Deleting and decreasing funds\<close>

definition delete_fund_from_type_list ::
  "fund_item \<Rightarrow> funds_list_info \<Rightarrow> fund_storage \<Rightarrow> fund_item \<times> funds_list_info \<times> fund_storage"
where
  "delete_fund_from_type_list item type_list s =
     (let (type_list1, s1) =
            (if type_list_prev item = 0
             then (type_list\<lparr>list_first := type_list_next item\<rparr>, s)
             else (type_list, update_fund_by_id (type_list_prev item)
                     (\<lambda>prev. prev\<lparr>type_list_next := type_list_next item\<rparr>) s));
          (type_list2, s2) =
            (if type_list_next item = 0
             then (type_list1\<lparr>list_last := type_list_prev item\<rparr>, s1)
             else (type_list1, update_fund_by_id (type_list_next item)
                     (\<lambda>next. next\<lparr>type_list_prev := type_list_prev item\<rparr>) s1))
      in (item\<lparr>type_list_prev := 0, type_list_next := 0\<rparr>, type_list2, s2))"

definition delete_fund_from_user_list ::
  "fund_item \<Rightarrow> funds_list_info \<Rightarrow> fund_storage \<Rightarrow> fund_item \<times> funds_list_info \<times> fund_storage"
where
  "delete_fund_from_user_list item user_list s =
     (let (user_list1, s1) =
            (if user_list_prev item = 0
             then (user_list\<lparr>list_first := user_list_next item\<rparr>, s)
             else (user_list, update_fund_by_id (user_list_prev item)
                     (\<lambda>prev. prev\<lparr>user_list_next := user_list_next item\<rparr>) s));
          (user_list2, s2) =
            (if user_list_next item = 0
             then (user_list1\<lparr>list_last := user_list_prev item\<rparr>, s1)
             else (user_list1, update_fund_by_id (user_list_next item)
                     (\<lambda>next. next\<lparr>user_list_prev := user_list_prev item\<rparr>) s1))
      in (item\<lparr>user_list_prev := 0, user_list_next := 0\<rparr>, user_list2, s2))"

text \<open>
  The item is the caller's copy: the operations return it changed, next to the storage,
  and the caller writes it back.
\<close>

definition delete_fund ::
  "fund_item \<Rightarrow> fund_storage \<Rightarrow> (nat \<times> fund_item \<times> fund_storage) res" where
  "delete_fund item s =
     (let t = fund_type_of (fund_desc item); type_list = fund_list_by_type s t in
      bind_res (biguint_sub (total_balance type_list) (balance item)) (\<lambda>type_total.
        let (item1, type_list1, s1) =
              delete_fund_from_type_list item (type_list\<lparr>total_balance := type_total\<rparr>) s;
            s2 = set_fund_list_by_type t type_list1 s1;
            user_list = fund_list_by_user s2 (user_id item1) t in
        bind_res (biguint_sub (total_balance user_list) (balance item1)) (\<lambda>user_total.
          let (item2, user_list1, s3) =
                delete_fund_from_user_list item1 (user_list\<lparr>total_balance := user_total\<rparr>) s2;
              s4 = set_fund_list_by_user (user_id item1) t user_list1 s3
          in Inr (balance item2, item2\<lparr>balance := 0\<rparr>, s4))))"

definition decrease_fund_balance ::
  "nat \<Rightarrow> fund_item \<Rightarrow> fund_storage \<Rightarrow> (nat \<times> nat \<times> fund_item \<times> fund_storage) res" where
  "decrease_fund_balance amount item s =
     (if balance item \<le> amount then
        bind_res (biguint_sub amount (balance item)) (\<lambda>amount'.
        bind_res (delete_fund item s) (\<lambda>(old_balance, item', s').
          Inr (old_balance, amount', item', s')))
      else
        bind_res (biguint_sub (balance item) amount) (\<lambda>bal'.
        let item' = item\<lparr>balance := bal'\<rparr>; t = fund_type_of (fund_desc item');
            type_list = fund_list_by_type s t in
        bind_res (biguint_sub (total_balance type_list) amount) (\<lambda>type_total.
        let s1 = set_fund_list_by_type t (type_list\<lparr>total_balance := type_total\<rparr>) s;
            user_list = fund_list_by_user s1 (user_id item') t in
        bind_res (biguint_sub (total_balance user_list) amount) (\<lambda>user_total.
          Inr (amount, 0, item',
               set_fund_list_by_user (user_id item') t
                 (user_list\<lparr>total_balance := user_total\<rparr>) s1)))))"

definition decrease_max_amount :: "nat option \<Rightarrow> fund_item \<Rightarrow> nat option res" where
  "decrease_max_amount opt_max_amount item =
     (case opt_max_amount of
        None \<Rightarrow> Inr None
      | Some max_amount \<Rightarrow>
          if max_amount \<le> balance item then Inr (Some 0)
          else bind_res (biguint_sub max_amount (balance item)) (\<lambda>m. Inr (Some m)))"

section \<open>Converting funds\<close>

definition split_convert_individual_fund ::
  "nat option \<Rightarrow> fund_description \<Rightarrow> fund_item \<Rightarrow> fund_storage
     \<Rightarrow> (nat option \<times> fund_item \<times> fund_storage) res" where
  "split_convert_individual_fund opt_max_amount transformed item s =
     bind_res
       (case opt_max_amount of
          Some max_amount \<Rightarrow>
            bind_res (decrease_fund_balance max_amount item s) (\<lambda>(extracted, m, item', s').
              Inr (extracted, Some m, item', s'))
        | None \<Rightarrow>
            bind_res (delete_fund item s) (\<lambda>(extracted, item', s').
              Inr (extracted, None, item', s')))
       (\<lambda>(extracted_balance, opt_max', item', s').
          Inr (opt_max', item',
               increase_fund_balance (user_id item') transformed extracted_balance s'))"

definition first_id_of_type :: "fund_storage \<Rightarrow> fund_type \<Rightarrow> swap_direction \<Rightarrow> nat" where
  "first_id_of_type s t dir =
     (case dir of Forwards \<Rightarrow> list_first (fund_list_by_type s t)
                | Backwards \<Rightarrow> list_last (fund_list_by_type s t))"

definition next_in_type_list :: "swap_direction \<Rightarrow> fund_item \<Rightarrow> nat" where
  "next_in_type_list dir item =
     (case dir of Forwards \<Rightarrow> type_list_next item | Backwards \<Rightarrow> type_list_prev item)"

text \<open>
  The closures: \<open>interrupt k\<close> is the answer of the k-th call of the source's \<^verbatim>\<open>interrupt()\<close>
  in this loop (it compares the gas left at that moment with a limit), so any course of the
  gas counter is covered. The transformation of \<open>split_convert_max_by_type\<close> is a pure
  function of the item at every call site. The one of the checkpointed loop may have
  effects on state outside the fund storage (rewards): it gets the storage, threads a state
  of its own and may fail.
\<close>

fun split_convert_max_by_type_loop ::
  "nat \<Rightarrow> swap_direction \<Rightarrow> (fund_item \<Rightarrow> fund_description option) \<Rightarrow> (nat \<Rightarrow> bool) \<Rightarrow> bool
     \<Rightarrow> nat \<Rightarrow> nat \<Rightarrow> nat option \<Rightarrow> nat list \<Rightarrow> fund_storage
     \<Rightarrow> (nat list \<times> nat option \<times> fund_storage) res"
where
  "split_convert_max_by_type_loop 0 dir filter_transform interrupt dry_run k i opt_max aff s =
     (if i = 0 \<or> interrupt k \<or> opt_max = Some 0 then Inr (aff, opt_max, s) else Inl OutOfGas)"
| "split_convert_max_by_type_loop (Suc n) dir filter_transform interrupt dry_run k i opt_max aff s =
     (if i = 0 \<or> interrupt k \<or> opt_max = Some 0 then Inr (aff, opt_max, s)
      else
        let item = fund_by_id s i in
        bind_res (affected_users_push aff (user_id item)) (\<lambda>aff'.
        let next_id = next_in_type_list dir item in
        bind_res
          (case filter_transform item of
             None \<Rightarrow> Inr (opt_max, item, s)
           | Some transformed \<Rightarrow>
               if dry_run then
                 bind_res (decrease_max_amount opt_max item) (\<lambda>m. Inr (m, item, s))
               else split_convert_individual_fund opt_max transformed item s)
          (\<lambda>(opt_max', item', s').
             split_convert_max_by_type_loop n dir filter_transform interrupt dry_run
               (Suc k) next_id opt_max' aff' (set_fund_by_id i item' s'))))"

definition split_convert_max_by_type ::
  "nat option \<Rightarrow> fund_type \<Rightarrow> swap_direction \<Rightarrow> (fund_item \<Rightarrow> fund_description option)
     \<Rightarrow> (nat \<Rightarrow> bool) \<Rightarrow> bool \<Rightarrow> fund_storage \<Rightarrow> (nat list \<times> nat option \<times> fund_storage) res"
where
  "split_convert_max_by_type opt_max_amount source_type dir filter_transform interrupt dry_run s =
     bind_res
       (split_convert_max_by_type_loop (loop_fuel s) dir filter_transform interrupt dry_run 0
          (first_id_of_type s source_type dir) opt_max_amount [] s)
       (\<lambda>(affected_users, opt_max', s').
          Inr (affected_users_sort_dedup affected_users, opt_max', s'))"

fun split_convert_checkpoint_loop ::
  "nat \<Rightarrow> swap_direction
     \<Rightarrow> (fund_storage \<Rightarrow> 'x \<Rightarrow> fund_item \<Rightarrow> (fund_description option \<times> 'x) res) \<Rightarrow> (nat \<Rightarrow> bool)
     \<Rightarrow> nat \<Rightarrow> nat \<Rightarrow> 'x \<Rightarrow> fund_storage \<Rightarrow> (nat \<times> 'x \<times> fund_storage) res"
where
  "split_convert_checkpoint_loop 0 dir filter_transform interrupt k i x s =
     (if i = 0 \<or> interrupt k then Inr (i, x, s) else Inl OutOfGas)"
| "split_convert_checkpoint_loop (Suc n) dir filter_transform interrupt k i x s =
     (if i = 0 \<or> interrupt k then Inr (i, x, s)
      else
        let item = fund_by_id s i; next_id = next_in_type_list dir item in
        bind_res (filter_transform s x item) (\<lambda>(tr, x').
        bind_res
          (case tr of
             None \<Rightarrow> Inr (item, s)
           | Some transformed \<Rightarrow>
               bind_res (split_convert_individual_fund None transformed item s)
                 (\<lambda>(_, item', s'). Inr (item', s')))
          (\<lambda>(item', s').
             split_convert_checkpoint_loop n dir filter_transform interrupt (Suc k) next_id x'
               (set_fund_by_id i item' s'))))"

definition split_convert_max_by_type_with_checkpoint ::
  "nat \<Rightarrow> fund_type \<Rightarrow> swap_direction
     \<Rightarrow> (fund_storage \<Rightarrow> 'x \<Rightarrow> fund_item \<Rightarrow> (fund_description option \<times> 'x) res) \<Rightarrow> (nat \<Rightarrow> bool)
     \<Rightarrow> 'x \<Rightarrow> fund_storage \<Rightarrow> (nat \<times> 'x \<times> fund_storage) res"
where
  "split_convert_max_by_type_with_checkpoint current_id source_type dir filter_transform
      interrupt x s =
     split_convert_checkpoint_loop (loop_fuel s) dir filter_transform interrupt 0
       (if current_id = 0 then first_id_of_type s source_type dir else current_id) x s"

definition first_id_of_user_type ::
  "fund_storage \<Rightarrow> nat \<Rightarrow> fund_type \<Rightarrow> swap_direction \<Rightarrow> nat" where
  "first_id_of_user_type s u t dir =
     (case dir of Forwards \<Rightarrow> list_first (fund_list_by_user s u t)
                | Backwards \<Rightarrow> list_last (fund_list_by_user s u t))"

definition next_in_user_list :: "swap_direction \<Rightarrow> fund_item \<Rightarrow> nat" where
  "next_in_user_list dir item =
     (case dir of Forwards \<Rightarrow> user_list_next item | Backwards \<Rightarrow> user_list_prev item)"

fun split_convert_max_by_user_loop ::
  "nat \<Rightarrow> swap_direction \<Rightarrow> (fund_description \<Rightarrow> fund_description option) \<Rightarrow> (nat \<Rightarrow> bool)
     \<Rightarrow> nat \<Rightarrow> nat \<Rightarrow> nat option \<Rightarrow> nat \<Rightarrow> fund_storage \<Rightarrow> (nat \<times> nat option \<times> fund_storage) res"
where
  "split_convert_max_by_user_loop 0 dir filter_transform interrupt k i opt_max total_transformed s =
     (if i = 0 \<or> interrupt k \<or> opt_max = Some 0 then Inr (total_transformed, opt_max, s) else Inl OutOfGas)"
| "split_convert_max_by_user_loop (Suc n) dir filter_transform interrupt k i opt_max total_transformed s =
     (if i = 0 \<or> interrupt k \<or> opt_max = Some 0 then Inr (total_transformed, opt_max, s)
      else
        let item = fund_by_id s i; next_id = next_in_user_list dir item in
        bind_res
          (case filter_transform (fund_desc item) of
             None \<Rightarrow> Inr (total_transformed, opt_max, item, s)
           | Some transformed \<Rightarrow>
               bind_res
                 (case opt_max of
                    Some max_amount \<Rightarrow>
                      bind_res (decrease_fund_balance max_amount item s)
                        (\<lambda>(extracted, m, item', s'). Inr (extracted, Some m, item', s'))
                  | None \<Rightarrow>
                      bind_res (delete_fund item s)
                        (\<lambda>(extracted, item', s'). Inr (extracted, None, item', s')))
                 (\<lambda>(extracted_balance, opt_max', item', s').
                    Inr (total_transformed + extracted_balance, opt_max', item',
                         increase_fund_balance (user_id item') transformed extracted_balance s')))
          (\<lambda>(total_transformed', opt_max', item', s').
             split_convert_max_by_user_loop n dir filter_transform interrupt (Suc k) next_id
               opt_max' total_transformed' (set_fund_by_id i item' s')))"

definition split_convert_max_by_user ::
  "nat option \<Rightarrow> nat \<Rightarrow> fund_type \<Rightarrow> swap_direction
     \<Rightarrow> (fund_description \<Rightarrow> fund_description option) \<Rightarrow> (nat \<Rightarrow> bool) \<Rightarrow> fund_storage
     \<Rightarrow> (nat \<times> nat option \<times> fund_storage) res"
where
  "split_convert_max_by_user opt_max_amount u source_type dir filter_transform interrupt s =
     split_convert_max_by_user_loop (loop_fuel s) dir filter_transform interrupt 0
       (first_id_of_user_type s u source_type dir) opt_max_amount 0 s"

fun destroy_all_for_user_loop ::
  "nat \<Rightarrow> (nat \<Rightarrow> bool) \<Rightarrow> nat \<Rightarrow> nat \<Rightarrow> nat \<Rightarrow> fund_storage \<Rightarrow> (nat \<times> fund_storage) res"
where
  "destroy_all_for_user_loop 0 interrupt k i total_destroyed s =
     (if i = 0 \<or> interrupt k then Inr (total_destroyed, s) else Inl OutOfGas)"
| "destroy_all_for_user_loop (Suc n) interrupt k i total_destroyed s =
     (if i = 0 \<or> interrupt k then Inr (total_destroyed, s)
      else
        let item = fund_by_id s i; next_id = user_list_next item in
        bind_res (delete_fund item s) (\<lambda>(fund_balance, item', s').
          destroy_all_for_user_loop n interrupt (Suc k) next_id (total_destroyed + fund_balance)
            (set_fund_by_id i item' s')))"

definition destroy_all_for_user ::
  "nat \<Rightarrow> fund_type \<Rightarrow> (nat \<Rightarrow> bool) \<Rightarrow> fund_storage \<Rightarrow> (nat \<times> fund_storage) res" where
  "destroy_all_for_user u source_type interrupt s =
     destroy_all_for_user_loop (loop_fuel s) interrupt 0
       (list_first (fund_list_by_user s u source_type)) 0 s"

end
