(* ===== verification/Fund_Refinement.thy ===== *)
theory Fund_Refinement
  imports Fund_Module
begin

text \<open>
  The abstract fund storage and the refinement of single operations. Abstractly the funds
  are one list of entries in the order of their ids; the lists by type and by user are
  filters of it and the totals are sums. \<open>concrete\<close> lays an abstract storage out as items,
  links and list heads, and every operation of the fund module on a laid-out storage is the
  layout of the abstract operation. \<open>fund_inv\<close>, the invariant of the contract's fund
  storage, says that the storage is such a layout.
\<close>

named_theorems view_simps \<open>ids and sums of a filtered entry list\<close>

section \<open>Entries\<close>

record fund_entry =
  eid :: nat
  edesc :: fund_description
  euser :: nat
  ebal :: nat

record abs_funds =
  a_max :: nat
  a_entries :: "fund_entry list"

definition etype :: "fund_entry \<Rightarrow> fund_type" where
  "etype e = fund_type_of (edesc e)"

definition of_type :: "fund_type \<Rightarrow> fund_entry \<Rightarrow> bool" where
  "of_type t e \<longleftrightarrow> etype e = t"

definition of_user :: "nat \<Rightarrow> fund_type \<Rightarrow> fund_entry \<Rightarrow> bool" where
  "of_user u t e \<longleftrightarrow> euser e = u \<and> etype e = t"

definition ids_where :: "(fund_entry \<Rightarrow> bool) \<Rightarrow> fund_entry list \<Rightarrow> nat list" where
  "ids_where P es = map eid (filter P es)"

definition sum_where :: "(fund_entry \<Rightarrow> bool) \<Rightarrow> fund_entry list \<Rightarrow> nat" where
  "sum_where P es = sum_list (map ebal (filter P es))"

definition entry_at :: "fund_entry list \<Rightarrow> nat \<Rightarrow> fund_entry option" where
  "entry_at es i = find (\<lambda>e. eid e = i) es"

definition remove_entry :: "nat \<Rightarrow> fund_entry list \<Rightarrow> fund_entry list" where
  "remove_entry i es = filter (\<lambda>e. eid e \<noteq> i) es"

definition set_entry_balance :: "nat \<Rightarrow> nat \<Rightarrow> fund_entry list \<Rightarrow> fund_entry list" where
  "set_entry_balance i b es = map (\<lambda>e. if eid e = i then e\<lparr>ebal := b\<rparr> else e) es"

definition wf_entries :: "nat \<Rightarrow> fund_entry list \<Rightarrow> bool" where
  "wf_entries m es \<longleftrightarrow> sorted_wrt (<) (map eid es) \<and>
     (\<forall>e \<in> set es. 0 < eid e \<and> eid e \<le> m \<and> 0 < ebal e)"

abbreviation wf_funds :: "abs_funds \<Rightarrow> bool" where
  "wf_funds a \<equiv> wf_entries (a_max a) (a_entries a)"

section \<open>Layout\<close>

definition conc_item :: "fund_entry list \<Rightarrow> fund_entry \<Rightarrow> fund_item" where
  "conc_item es e =
     (let T = ids_where (of_type (etype e)) es; U = ids_where (of_user (euser e) (etype e)) es in
      \<lparr>fund_desc = edesc e, user_id = euser e, balance = ebal e,
       type_list_next = next_of T (eid e), type_list_prev = prev_of T (eid e),
       user_list_next = next_of U (eid e), user_list_prev = prev_of U (eid e)\<rparr>)"

definition list_head :: "(fund_entry \<Rightarrow> bool) \<Rightarrow> fund_entry list \<Rightarrow> funds_list_info option" where
  "list_head P es =
     (if filter P es = [] then None
      else Some \<lparr>total_balance = sum_where P es, list_first = first_of (ids_where P es),
                 list_last = last_of (ids_where P es)\<rparr>)"

definition concrete :: "abs_funds \<Rightarrow> fund_storage" where
  "concrete a = (let es = a_entries a in
     \<lparr>fs_by_id = (\<lambda>i. map_option (conc_item es) (entry_at es i)),
      fs_max_id = a_max a,
      fs_by_type = (\<lambda>t. list_head (of_type t) es),
      fs_by_user = (\<lambda>u t. list_head (of_user u t) es)\<rparr>)"

definition fund_inv :: "fund_storage \<Rightarrow> bool" where
  "fund_inv s \<longleftrightarrow> (\<exists>a. wf_funds a \<and> s = concrete a)"

section \<open>Abstract operations\<close>

definition a_append :: "nat \<Rightarrow> fund_description \<Rightarrow> nat \<Rightarrow> abs_funds \<Rightarrow> abs_funds" where
  "a_append u d b a =
     \<lparr>a_max = Suc (a_max a),
      a_entries = a_entries a @ [\<lparr>eid = Suc (a_max a), edesc = d, euser = u, ebal = b\<rparr>]\<rparr>"

definition a_remove :: "nat \<Rightarrow> abs_funds \<Rightarrow> abs_funds" where
  "a_remove i a = a\<lparr>a_entries := remove_entry i (a_entries a)\<rparr>"

definition a_set_balance :: "nat \<Rightarrow> nat \<Rightarrow> abs_funds \<Rightarrow> abs_funds" where
  "a_set_balance i b a = a\<lparr>a_entries := set_entry_balance i b (a_entries a)\<rparr>"

definition coalesces :: "nat \<Rightarrow> fund_description \<Rightarrow> fund_entry list \<Rightarrow> bool" where
  "coalesces u d es \<longleftrightarrow> allow_coalesce (fund_type_of d) \<and>
     (let us = filter (of_user u (fund_type_of d)) es in us \<noteq> [] \<and> edesc (last us) = d)"

definition a_increase :: "nat \<Rightarrow> fund_description \<Rightarrow> nat \<Rightarrow> abs_funds \<Rightarrow> abs_funds" where
  "a_increase u d x a =
     (if x = 0 then a
      else if coalesces u d (a_entries a) then
        let e = last (filter (of_user u (fund_type_of d)) (a_entries a))
        in a_set_balance (eid e) (ebal e + x) a
      else a_append u d x a)"

text \<open>Taking \<open>x\<close> out of an entry: it disappears when nothing is left.\<close>

definition a_take :: "fund_entry \<Rightarrow> nat \<Rightarrow> abs_funds \<Rightarrow> abs_funds" where
  "a_take e x a =
     (if ebal e \<le> x then a_remove (eid e) a else a_set_balance (eid e) (ebal e - x) a)"

section \<open>Well-formed entry lists\<close>

lemma wf_distinct: "wf_entries m es \<Longrightarrow> distinct (map eid es)"
  unfolding wf_entries_def using strict_sorted_iff by blast

lemma wf_pos: "wf_entries m es \<Longrightarrow> e \<in> set es \<Longrightarrow> 0 < eid e \<and> 0 < ebal e \<and> eid e \<le> m"
  by (auto simp: wf_entries_def)

lemma ids_where_distinct: "wf_entries m es \<Longrightarrow> distinct (ids_where P es)"
  unfolding ids_where_def by (metis distinct_map_filter wf_distinct)

lemma ids_where_nz: "wf_entries m es \<Longrightarrow> 0 \<notin> set (ids_where P es)"
  by (auto simp: ids_where_def dest: wf_pos)

lemma ids_where_le: "wf_entries m es \<Longrightarrow> i \<in> set (ids_where P es) \<Longrightarrow> i \<le> m"
  by (auto simp: ids_where_def dest: wf_pos)

lemmas ids_where_wf = ids_where_distinct ids_where_nz

lemma ids_where_mem:
  assumes "wf_entries m es" and "e \<in> set es"
  shows "eid e \<in> set (ids_where P es) \<longleftrightarrow> P e"
proof -
  have "inj_on eid (set es)"
    using wf_distinct [OF assms(1)] by (simp add: distinct_map)
  then show ?thesis
    using assms(2) by (auto simp: ids_where_def inj_on_def)
qed

lemma ids_where_Nil [view_simps]: "ids_where P es = [] \<longleftrightarrow> filter P es = []"
  by (simp add: ids_where_def)

lemma entry_at_mem:
  assumes "wf_entries m es" and "e \<in> set es"
  shows "entry_at es (eid e) = Some e"
  using wf_distinct [OF assms(1)] assms(2)
  unfolding entry_at_def by (induction es) auto

lemma entry_at_Some: "entry_at es i = Some e \<Longrightarrow> e \<in> set es \<and> eid e = i"
  by (auto simp: entry_at_def find_Some_iff)

lemma entry_at_None: "entry_at es i = None \<longleftrightarrow> i \<notin> eid ` set es"
  by (auto simp: entry_at_def find_None_iff)

lemma wf_remove: "wf_entries m es \<Longrightarrow> wf_entries m (remove_entry i es)"
  unfolding wf_entries_def remove_entry_def sorted_wrt_map
  by (auto simp: sorted_wrt_filter)

lemma map_eid_set_entry_balance: "map eid (set_entry_balance i b es) = map eid es"
  by (simp add: set_entry_balance_def)

lemma wf_set_balance: "wf_entries m es \<Longrightarrow> 0 < b \<Longrightarrow> wf_entries m (set_entry_balance i b es)"
  unfolding wf_entries_def map_eid_set_entry_balance
  by (auto simp: set_entry_balance_def)

lemma wf_append:
  "wf_entries m es \<Longrightarrow> eid e = Suc m \<Longrightarrow> 0 < ebal e \<Longrightarrow> wf_entries (Suc m) (es @ [e])"
  by (auto simp: wf_entries_def sorted_wrt_append)

section \<open>Views under the three changes\<close>

lemma ids_where_remove [view_simps]:
  "ids_where P (remove_entry i es) = drop_id i (ids_where P es)"
  by (induction es) (auto simp: ids_where_def remove_entry_def drop_id_def)

lemma ids_where_append [view_simps]:
  "ids_where P (es @ [e]) = (if P e then ids_where P es @ [eid e] else ids_where P es)"
  by (simp add: ids_where_def)

lemma ids_where_set_balance:
  assumes "\<And>e b. P (e\<lparr>ebal := b\<rparr>) = P e"
  shows "ids_where P (set_entry_balance i b es) = ids_where P es"
  by (induction es) (auto simp: ids_where_def set_entry_balance_def assms)

lemma of_type_ebal [simp]: "of_type t (e\<lparr>ebal := b\<rparr>) = of_type t e"
  by (simp add: of_type_def etype_def)

lemma of_user_ebal [simp]: "of_user u t (e\<lparr>ebal := b\<rparr>) = of_user u t e"
  by (simp add: of_user_def etype_def)

lemma etype_ebal [simp]: "etype (e\<lparr>ebal := b\<rparr>) = etype e"
  by (simp add: etype_def)

lemma of_type_self [simp]: "of_type (etype e) e"
  by (simp add: of_type_def)

lemma of_user_self [simp]: "of_user (euser e) (etype e) e"
  by (simp add: of_user_def)

lemma ids_set_balance [view_simps]:
  "ids_where (of_type t) (set_entry_balance i b es) = ids_where (of_type t) es"
  "ids_where (of_user u t) (set_entry_balance i b es) = ids_where (of_user u t) es"
  by (simp_all add: ids_where_set_balance)

lemma sum_where_append [view_simps]:
  "sum_where P (es @ [e]) = sum_where P es + (if P e then ebal e else 0)"
  by (simp add: sum_where_def)

lemma remove_entry_notin: "i \<notin> eid ` set es \<Longrightarrow> remove_entry i es = es"
  unfolding remove_entry_def by (rule filter_True) auto

lemma set_entry_balance_notin: "i \<notin> eid ` set es \<Longrightarrow> set_entry_balance i b es = es"
  unfolding set_entry_balance_def by (rule map_idI) auto

lemma remove_entry_split:
  "distinct (map eid (as @ e # bs)) \<Longrightarrow> remove_entry (eid e) (as @ e # bs) = as @ bs"
  using remove_entry_notin [of "eid e" as] remove_entry_notin [of "eid e" bs]
  by (simp add: remove_entry_def)

lemma set_entry_balance_split:
  "distinct (map eid (as @ e # bs)) \<Longrightarrow>
     set_entry_balance (eid e) b (as @ e # bs) = as @ e\<lparr>ebal := b\<rparr> # bs"
  using set_entry_balance_notin [of "eid e" as b] set_entry_balance_notin [of "eid e" bs b]
  by (simp add: set_entry_balance_def)

lemma sum_where_remove:
  assumes "wf_entries m es" and "e \<in> set es"
  shows "sum_where P es = sum_where P (remove_entry (eid e) es) + (if P e then ebal e else 0)"
proof -
  from assms(2) obtain as bs where es: "es = as @ e # bs"
    by (auto dest: split_list)
  then have "remove_entry (eid e) es = as @ bs"
    using remove_entry_split wf_distinct [OF assms(1)] by blast
  then show ?thesis
    by (simp add: es sum_where_def)
qed

lemma sum_where_set_balance:
  assumes wf: "wf_entries m es" and e: "e \<in> set es"
    and P: "\<And>e b. P (e\<lparr>ebal := b\<rparr>) = P e"
  shows "sum_where P (set_entry_balance (eid e) b es) + (if P e then ebal e else 0) =
    sum_where P es + (if P e then b else 0)"
proof -
  from e obtain as bs where es: "es = as @ e # bs"
    by (auto dest: split_list)
  then have "set_entry_balance (eid e) b es = as @ e\<lparr>ebal := b\<rparr> # bs"
    using set_entry_balance_split wf_distinct [OF wf] by blast
  then show ?thesis
    by (simp add: es sum_where_def P)
qed

lemma sum_where_ge: "e \<in> set es \<Longrightarrow> P e \<Longrightarrow> ebal e \<le> sum_where P es"
  unfolding sum_where_def by (rule member_le_sum_list) auto

lemma sum_where_Nil: "filter P es = [] \<Longrightarrow> sum_where P es = 0"
  by (simp add: sum_where_def)

lemma entry_at_remove [view_simps]:
  "entry_at (remove_entry i es) j = (if j = i then None else entry_at es j)"
  by (induction es) (auto simp: entry_at_def remove_entry_def)

lemma entry_at_set_balance [view_simps]:
  "entry_at (set_entry_balance i b es) j =
     map_option (\<lambda>e. if eid e = i then e\<lparr>ebal := b\<rparr> else e) (entry_at es j)"
  by (induction es) (auto simp: entry_at_def set_entry_balance_def)

lemma entry_at_append [view_simps]:
  "entry_at (es @ [e]) j =
     (case entry_at es j of None \<Rightarrow> (if eid e = j then Some e else None) | Some f \<Rightarrow> Some f)"
  by (induction es) (auto simp: entry_at_def)

section \<open>Reading a layout\<close>

lemma conc_item_simps [simp]:
  "fund_desc (conc_item es e) = edesc e" "user_id (conc_item es e) = euser e"
  "balance (conc_item es e) = ebal e"
  "type_list_next (conc_item es e) = next_of (ids_where (of_type (etype e)) es) (eid e)"
  "type_list_prev (conc_item es e) = prev_of (ids_where (of_type (etype e)) es) (eid e)"
  "user_list_next (conc_item es e) = next_of (ids_where (of_user (euser e) (etype e)) es) (eid e)"
  "user_list_prev (conc_item es e) = prev_of (ids_where (of_user (euser e) (etype e)) es) (eid e)"
  by (simp_all add: conc_item_def Let_def)

lemma concrete_simps [simp]:
  "fs_by_id (concrete a) = (\<lambda>i. map_option (conc_item (a_entries a)) (entry_at (a_entries a) i))"
  "fs_max_id (concrete a) = a_max a"
  "fs_by_type (concrete a) = (\<lambda>t. list_head (of_type t) (a_entries a))"
  "fs_by_user (concrete a) = (\<lambda>u t. list_head (of_user u t) (a_entries a))"
  by (simp_all add: concrete_def Let_def)

lemma fund_by_id_concrete:
  "wf_funds a \<Longrightarrow> e \<in> set (a_entries a) \<Longrightarrow>
     fund_by_id (concrete a) (eid e) = conc_item (a_entries a) e"
  by (simp add: fund_by_id_def entry_at_mem)

lemma total_by_type_concrete [simp]:
  "total_balance (fund_list_by_type (concrete a) t) = sum_where (of_type t) (a_entries a)"
  by (simp add: fund_list_by_type_def list_head_def sum_where_Nil)

lemma total_by_user_concrete [simp]:
  "total_balance (fund_list_by_user (concrete a) u t) = sum_where (of_user u t) (a_entries a)"
  by (simp add: fund_list_by_user_def list_head_def sum_where_Nil)

lemma ends_by_type_concrete [simp]:
  "list_first (fund_list_by_type (concrete a) t) = first_of (ids_where (of_type t) (a_entries a))"
  "list_last (fund_list_by_type (concrete a) t) = last_of (ids_where (of_type t) (a_entries a))"
  by (simp_all add: fund_list_by_type_def list_head_def ids_where_def)

lemma ends_by_user_concrete [simp]:
  "list_first (fund_list_by_user (concrete a) u t) = first_of (ids_where (of_user u t) (a_entries a))"
  "list_last (fund_list_by_user (concrete a) u t) = last_of (ids_where (of_user u t) (a_entries a))"
  by (simp_all add: fund_list_by_user_def list_head_def ids_where_def)

lemma fund_inv_empty: "fund_inv fund_storage_empty"
proof -
  have "fund_storage_empty = concrete \<lparr>a_max = 0, a_entries = []\<rparr>"
    by (simp add: fund_storage_empty_def concrete_def list_head_def entry_at_def)
  moreover have "wf_funds \<lparr>a_max = 0, a_entries = []\<rparr>"
    by (simp add: wf_entries_def)
  ultimately show ?thesis
    unfolding fund_inv_def by blast
qed

end
