(* ===== verification/Fund_Operations.thy ===== *)
theory Fund_Operations
  imports Fund_Refinement
begin

text \<open>
  Refinement of the single operations on a laid-out storage: creating, coalescing, deleting
  and decreasing funds compute the layout of the corresponding abstract operation, and none
  of their checked subtractions fails. Where an operation works on the caller's copy of an
  item, the copy still in storage is out of date until it is written back; \<open>with_item\<close>
  names such a storage.
\<close>

section \<open>Storages with one item out of date\<close>

definition with_item :: "nat \<Rightarrow> fund_item option \<Rightarrow> fund_storage \<Rightarrow> fund_storage" where
  "with_item i v s = s\<lparr>fs_by_id := (fs_by_id s)(i := v)\<rparr>"

lemma with_item_simps [simp]:
  "fs_by_id (with_item i v s) = (fs_by_id s)(i := v)"
  "fs_max_id (with_item i v s) = fs_max_id s"
  "fs_by_type (with_item i v s) = fs_by_type s"
  "fs_by_user (with_item i v s) = fs_by_user s"
  "fund_list_by_type (with_item i v s) = fund_list_by_type s"
  "fund_list_by_user (with_item i v s) = fund_list_by_user s"
  by (simp_all add: with_item_def fund_list_by_type_def [abs_def] fund_list_by_user_def [abs_def])

lemma with_item_same: "fs_by_id s i = v \<Longrightarrow> with_item i v s = s"
  unfolding with_item_def by (metis fun_upd_triv fund_storage.surjective fund_storage.update_convs(1))

lemma with_item_twice [simp]: "with_item i v (with_item i w s) = with_item i v s"
  by (simp add: with_item_def)

lemma with_item_commute: "i \<noteq> j \<Longrightarrow> with_item i v (with_item j w s) = with_item j w (with_item i v s)"
  by (simp add: with_item_def fun_upd_twist)

lemma set_fund_by_id_with_item:
  "set_fund_by_id i it s = with_item i (if fund_item_is_default it then None else Some it) s"
  by (simp add: set_fund_by_id_def with_item_def)

lemma update_fund_by_id_present:
  "fs_by_id s p = Some x \<Longrightarrow> 0 < balance (f x) \<Longrightarrow>
     update_fund_by_id p f s = with_item p (Some (f x)) s"
  by (simp add: update_fund_by_id_def set_fund_by_id_with_item fund_by_id_def fund_item_not_default)

lemma update_fund_by_id_with_item:
  "p \<noteq> i \<Longrightarrow> update_fund_by_id p f (with_item i v s) = with_item i v (update_fund_by_id p f s)"
  by (simp add: update_fund_by_id_def set_fund_by_id_with_item fund_by_id_def with_item_commute)

text \<open>Increasing a fund commutes with an out-of-date item it does not touch.\<close>

lemma set_list_with_item [simp]:
  "set_fund_list_by_type t l (with_item i v s) = with_item i v (set_fund_list_by_type t l s)"
  "set_fund_list_by_user u t l (with_item i v s) = with_item i v (set_fund_list_by_user u t l s)"
  by (simp_all add: set_fund_list_by_type_def set_fund_list_by_user_def with_item_def)

lemma set_max_with_item [simp]:
  "(with_item i v s)\<lparr>fs_max_id := m\<rparr> = with_item i v (s\<lparr>fs_max_id := m\<rparr>)"
  by (simp add: with_item_def)

lemma set_list_unfold [simp]:
  "fs_by_id (set_fund_list_by_type t l s) = fs_by_id s"
  "fs_by_id (set_fund_list_by_user u t l s) = fs_by_id s"
  "fs_max_id (set_fund_list_by_type t l s) = fs_max_id s"
  "fs_max_id (set_fund_list_by_user u t l s) = fs_max_id s"
  "fs_by_user (set_fund_list_by_type t l s) = fs_by_user s"
  "fs_by_type (set_fund_list_by_user u t l s) = fs_by_type s"
  "fund_list_by_user (set_fund_list_by_type t l s) = fund_list_by_user s"
  "fund_list_by_type (set_fund_list_by_user u t l s) = fund_list_by_type s"
  by (simp_all add: set_fund_list_by_type_def set_fund_list_by_user_def
      fund_list_by_user_def [abs_def] fund_list_by_type_def [abs_def])

lemma set_list_field:
  "fs_by_type (set_fund_list_by_type t l s) =
     (fs_by_type s)(t := (if funds_list_is_default l then None else Some l))"
  "fs_by_user (set_fund_list_by_user u t l s) =
     (fs_by_user s)(u := (fs_by_user s u)(t := (if funds_list_is_default l then None else Some l)))"
  by (simp_all add: set_fund_list_by_type_def set_fund_list_by_user_def)

lemma update_lists [simp]:
  "fund_list_by_user (update_fund_by_id p f s) = fund_list_by_user s"
  "fund_list_by_type (update_fund_by_id p f s) = fund_list_by_type s"
  "fs_max_id (update_fund_by_id p f s) = fs_max_id s"
  by (simp_all add: update_fund_by_id_def set_fund_by_id_with_item)

lemma fund_list_max [simp]:
  "fund_list_by_user (s\<lparr>fs_max_id := m\<rparr>) = fund_list_by_user s"
  "fund_list_by_type (s\<lparr>fs_max_id := m\<rparr>) = fund_list_by_type s"
  by (simp_all add: fund_list_by_user_def [abs_def] fund_list_by_type_def [abs_def])

lemma create_fund_with_item:
  assumes "i \<noteq> usize_add (fs_max_id s) 1"
    and "i \<noteq> list_last (fund_list_by_type s (fund_type_of d))"
    and "i \<noteq> list_last (fund_list_by_user s u (fund_type_of d))"
  shows "create_fund u d b (with_item i v s) = with_item i v (create_fund u d b s)"
  using assms
  by (auto simp: create_fund_def Let_def add_fund_to_type_list_def add_fund_to_user_list_def
      update_fund_by_id_with_item set_fund_by_id_with_item with_item_commute)

lemma increase_fund_balance_with_item:
  assumes "i \<noteq> usize_add (fs_max_id s) 1"
    and "i \<noteq> list_last (fund_list_by_type s (fund_type_of d))"
    and "i \<noteq> list_last (fund_list_by_user s u (fund_type_of d))"
  shows "increase_fund_balance u d x (with_item i v s) =
    with_item i v (increase_fund_balance u d x s)"
proof -
  have g: "fund_by_id (with_item i v s) (list_last (fund_list_by_user s u (fund_type_of d))) =
    fund_by_id s (list_last (fund_list_by_user s u (fund_type_of d)))"
    using assms(3) by (simp add: fund_by_id_def)
  have c: "create_fund u d x (with_item i v s') = with_item i v (create_fund u d x s')"
    if "fs_max_id s' = fs_max_id s" "fund_list_by_type s' = fund_list_by_type s"
      "list_last (fund_list_by_user s' u (fund_type_of d)) =
       list_last (fund_list_by_user s u (fund_type_of d))" for s'
    using assms that by (intro create_fund_with_item) auto
  have l: "list_last (fund_list_by_user (set_fund_list_by_user u t
      (fund_list_by_user s u t) s'') u t) = list_last (fund_list_by_user s u t)" for t s''
    by (simp add: set_fund_list_by_user_def fund_list_by_user_def funds_list_is_default_def)
  show ?thesis
    using assms
    by (cases "allow_coalesce (fund_type_of d)";
        cases "funds_list_is_default (fund_list_by_user s u (fund_type_of d))";
        cases "fund_desc (fund_by_id s (list_last (fund_list_by_user s u (fund_type_of d)))) = d")
      (simp_all add: increase_fund_balance_def Let_def g c l set_fund_by_id_with_item
        with_item_commute [of _ i])
qed

section \<open>Touching an item that may be absent\<close>

text \<open>
  In a \<open>live\<close> storage every stored item has a balance and id 0 is unused. There the
  guarded updates of neighbours (\<^verbatim>\<open>if prev == 0 { .. } else { update(prev) }\<close>) are
  \<open>touch\<close>: change the item if it is there.
\<close>

definition live :: "fund_storage \<Rightarrow> bool" where
  "live s \<longleftrightarrow> fs_by_id s 0 = None \<and> (\<forall>i it. fs_by_id s i = Some it \<longrightarrow> 0 < balance it)"

definition touch :: "nat \<Rightarrow> (fund_item \<Rightarrow> fund_item) \<Rightarrow> fund_storage \<Rightarrow> fund_storage" where
  "touch p f s = s\<lparr>fs_by_id := (\<lambda>i. if i = p then map_option f (fs_by_id s i) else fs_by_id s i)\<rparr>"

lemma touch_simps [simp]:
  "fs_by_id (touch p f s) = (\<lambda>i. if i = p then map_option f (fs_by_id s i) else fs_by_id s i)"
  "fs_max_id (touch p f s) = fs_max_id s"
  "fs_by_type (touch p f s) = fs_by_type s"
  "fs_by_user (touch p f s) = fs_by_user s"
  "fund_list_by_type (touch p f s) = fund_list_by_type s"
  "fund_list_by_user (touch p f s) = fund_list_by_user s"
  by (simp_all add: touch_def fund_list_by_type_def [abs_def] fund_list_by_user_def [abs_def])

lemma touch_absent: "fs_by_id s p = None \<Longrightarrow> touch p f s = s"
  by (auto simp: fun_eq_iff intro!: fund_storage.equality)

lemma live_touch: "live s \<Longrightarrow> (\<And>it. balance (f it) = balance it) \<Longrightarrow> live (touch p f s)"
  by (auto simp: live_def)

lemma live_set_list [simp]:
  "live (set_fund_list_by_type t l s) = live s"
  "live (set_fund_list_by_user u t l s) = live s"
  "live (s\<lparr>fs_max_id := m\<rparr>) = live s"
  by (simp_all add: live_def)

definition present :: "fund_storage \<Rightarrow> nat \<Rightarrow> bool" where
  "present s i \<longleftrightarrow> i = 0 \<or> fs_by_id s i \<noteq> None"

lemma present_simps [simp]:
  "present (touch p f s) i = present s i"
  "present (set_fund_list_by_type t l s) i = present s i"
  "present (set_fund_list_by_user u t l s) i = present s i"
  "present (s\<lparr>fs_max_id := m\<rparr>) i = present s i"
  "present s 0"
  by (simp_all add: present_def)

lemma update_is_touch:
  assumes "live s" and "\<And>it. balance (f it) = balance it" and "present s p"
  shows "(if p = 0 then s else update_fund_by_id p f s) = touch p f s"
proof (cases "p = 0")
  case True
  then show ?thesis
    using assms(1) by (simp add: touch_absent live_def)
next
  case False
  with assms(3) obtain it where it: "fs_by_id s p = Some it"
    by (auto simp: present_def)
  with assms(1,2) have "update_fund_by_id p f s = with_item p (Some (f it)) s"
    by (auto simp: live_def intro: update_fund_by_id_present)
  then show ?thesis
    using False it by (auto simp: with_item_def touch_def fun_eq_iff intro!: fund_storage.equality)
qed

lemma live_concrete: "wf_funds a \<Longrightarrow> live (concrete a)"
  unfolding live_def by (auto simp: entry_at_None dest!: entry_at_Some dest: wf_pos)

lemma present_concrete:
  "i = 0 \<or> i \<in> set (ids_where P (a_entries a)) \<Longrightarrow> present (concrete a) i"
  by (auto simp: entry_at_None ids_where_def present_def)

lemma present_links [simp]:
  "present (concrete a) (next_of (ids_where P (a_entries a)) i)"
  "present (concrete a) (prev_of (ids_where P (a_entries a)) i)"
  "present (concrete a) (last_of (ids_where P (a_entries a)))"
  using next_of_in prev_of_in last_of_in [of "ids_where P (a_entries a)"]
  by (auto intro!: present_concrete [of _ P] simp: last_of_def first_of_def split: list.splits)

section \<open>Creating a fund\<close>

lemma list_head_default:
  "wf_entries m es \<Longrightarrow>
     funds_list_is_default (case list_head P es of None \<Rightarrow> funds_list_default | Some l \<Rightarrow> l)
       \<longleftrightarrow> ids_where P es = []"
  using first_of_eq_0 [OF ids_where_nz [of m es P]]
  by (simp add: list_head_def funds_list_is_default_def ids_where_Nil)

lemma list_default_concrete:
  assumes "wf_funds a"
  shows "funds_list_is_default (fund_list_by_type (concrete a) t) \<longleftrightarrow>
      ids_where (of_type t) (a_entries a) = []"
    and "funds_list_is_default (fund_list_by_user (concrete a) u t) \<longleftrightarrow>
      ids_where (of_user u t) (a_entries a) = []"
  using list_head_default [OF assms]
  by (simp_all add: fund_list_by_type_def fund_list_by_user_def)

lemma same_view:
  assumes "wf_entries m es" and "f \<in> set es" and "eid f \<in> set (ids_where P es)"
  shows "P f"
  using ids_where_mem [OF assms(1,2)] assms(3) by blast

text \<open>
  Both kinds of lists are views: an entry is in the view of another when they have the same
  type, or the same user and type. The links of an entry in its own view change with the
  entry list as follows, for any view.
\<close>

locale entry_view =
  fixes view :: "fund_entry \<Rightarrow> fund_entry \<Rightarrow> bool"
  assumes view_refl: "view e e"
    and view_eq: "view e f \<Longrightarrow> view f = view e"
    and view_ebal: "view e (f\<lparr>ebal := b\<rparr>) = view e f"
begin

lemma link_in_view:
  assumes "wf_entries m es" and "f \<in> set es" and "eid f \<in> set (ids_where (view e) es)"
  shows "view f = view e"
  using same_view [OF assms] by (rule view_eq)

lemma not_in_view: "\<not> view f e \<Longrightarrow> \<not> view e f"
  using view_eq view_refl by metis

lemma next_append:
  assumes wf: "wf_entries m es" and e: "eid e = Suc m" and f: "f \<in> set es"
  shows "next_of (ids_where (view f) (es @ [e])) (eid f) =
    (if eid f = last_of (ids_where (view e) es) then eid e
     else next_of (ids_where (view f) es) (eid f))"
proof (cases "view f e")
  case True
  have "distinct (ids_where (view e) es @ [eid e])"
    using ids_where_distinct [OF wf] ids_where_le [OF wf, of "eid e"] e by auto
  moreover have "eid f \<noteq> 0"
    using wf_pos [OF wf f] by simp
  ultimately show ?thesis
    using True view_eq [OF True] ids_where_nz [OF wf] by (simp add: ids_where_append next_of_snoc)
next
  case False
  have "eid f \<noteq> last_of (ids_where (view e) es)"
  proof
    assume l: "eid f = last_of (ids_where (view e) es)"
    then have "ids_where (view e) es \<noteq> []"
      using wf_pos [OF wf f] by auto
    then have "view e f"
      using l last_of_in [of "ids_where (view e) es"] same_view [OF wf f, of "view e"] by simp
    with False not_in_view show False by blast
  qed
  with False show ?thesis
    by (simp add: ids_where_append)
qed

lemma prev_append:
  assumes wf: "wf_entries m es" and e: "eid e = Suc m" and f: "f \<in> set es"
  shows "prev_of (ids_where (view f) (es @ [e])) (eid f) = prev_of (ids_where (view f) es) (eid f)"
proof -
  have "distinct (ids_where (view f) es @ [eid e])"
    using ids_where_distinct [OF wf] ids_where_le [OF wf, of "eid e"] e by auto
  moreover have "eid f \<noteq> eid e"
    using wf_pos [OF wf f] e by simp
  ultimately show ?thesis
    by (simp add: ids_where_append prev_of_snoc)
qed

lemma links_new:
  assumes wf: "wf_entries m es" and e: "eid e = Suc m"
  shows "next_of (ids_where (view e) (es @ [e])) (eid e) = 0"
    and "prev_of (ids_where (view e) (es @ [e])) (eid e) = last_of (ids_where (view e) es)"
proof -
  have "distinct (ids_where (view e) es @ [eid e])"
    using ids_where_distinct [OF wf] ids_where_le [OF wf, of "eid e"] e by auto
  then show "next_of (ids_where (view e) (es @ [e])) (eid e) = 0"
    and "prev_of (ids_where (view e) (es @ [e])) (eid e) = last_of (ids_where (view e) es)"
    by (simp_all add: ids_where_append view_refl next_of_append prev_of_snoc)
qed

lemma own_id:
  "wf_entries m es \<Longrightarrow> e \<in> set es \<Longrightarrow> eid e \<in> set (ids_where (view e) es)"
  by (simp add: ids_where_mem view_refl)

lemma next_remove:
  assumes wf: "wf_entries m es" and e: "e \<in> set es" and f: "f \<in> set es" "eid f \<noteq> eid e"
  shows "next_of (ids_where (view f) (remove_entry (eid e) es)) (eid f) =
    (if eid f = prev_of (ids_where (view e) es) (eid e) then next_of (ids_where (view e) es) (eid e)
     else next_of (ids_where (view f) es) (eid f))"
proof (cases "view f e")
  case True
  then show ?thesis
    using view_eq [OF True] wf_pos [OF wf f(1)] ids_where_wf [OF wf] own_id [OF wf e] f(2)
    by (simp add: ids_where_remove next_of_drop)
next
  case False
  then have "eid e \<notin> set (ids_where (view f) es)"
    using same_view [OF wf e] by blast
  moreover have "eid f \<noteq> prev_of (ids_where (view e) es) (eid e)"
    using False not_in_view wf_pos [OF wf f(1)] prev_of_in [of "ids_where (view e) es" "eid e"]
      same_view [OF wf f(1), of "view e"] by auto
  ultimately show ?thesis
    by (simp add: ids_where_remove drop_id_notin)
qed

lemma prev_remove:
  assumes wf: "wf_entries m es" and e: "e \<in> set es" and f: "f \<in> set es" "eid f \<noteq> eid e"
  shows "prev_of (ids_where (view f) (remove_entry (eid e) es)) (eid f) =
    (if eid f = next_of (ids_where (view e) es) (eid e) then prev_of (ids_where (view e) es) (eid e)
     else prev_of (ids_where (view f) es) (eid f))"
proof (cases "view f e")
  case True
  then show ?thesis
    using view_eq [OF True] wf_pos [OF wf f(1)] ids_where_wf [OF wf] own_id [OF wf e] f(2)
    by (simp add: ids_where_remove prev_of_drop)
next
  case False
  then have "eid e \<notin> set (ids_where (view f) es)"
    using same_view [OF wf e] by blast
  moreover have "eid f \<noteq> next_of (ids_where (view e) es) (eid e)"
    using False not_in_view wf_pos [OF wf f(1)] next_of_in [of "ids_where (view e) es" "eid e"]
      same_view [OF wf f(1), of "view e"] by auto
  ultimately show ?thesis
    by (simp add: ids_where_remove drop_id_notin)
qed

end

interpretation type_view: entry_view "\<lambda>e. of_type (etype e)"
  by unfold_locales (auto simp: of_type_def)

interpretation user_view: entry_view "\<lambda>e. of_user (euser e) (etype e)"
  by unfold_locales (auto simp: of_user_def)

lemma conc_item_append:
  assumes "wf_entries m es" and "eid e = Suc m" and "f \<in> set es"
  shows "conc_item (es @ [e]) f = (conc_item es f)
    \<lparr>type_list_next := (if eid f = last_of (ids_where (of_type (etype e)) es)
                         then eid e else type_list_next (conc_item es f)),
     user_list_next := (if eid f = last_of (ids_where (of_user (euser e) (etype e)) es)
                         then eid e else user_list_next (conc_item es f))\<rparr>"
  using type_view.next_append [OF assms] type_view.prev_append [OF assms]
    user_view.next_append [OF assms] user_view.prev_append [OF assms]
  by (simp add: conc_item_def Let_def)

lemma list_head_append:
  "list_head P (es @ [e]) =
    (if P e then
       Some \<lparr>total_balance = sum_where P es + ebal e,
             list_first = (if ids_where P es = [] then eid e else first_of (ids_where P es)),
             list_last = eid e\<rparr>
     else list_head P es)"
  by (simp add: list_head_def sum_where_append ids_where_append first_of_append ids_where_Nil)

text \<open>The two insertions, on a live storage that holds the last item of the list.\<close>

lemma add_fund_to_type_list_touch:
  assumes "live s" and "type_list_prev item = 0"
    and "l = fund_list_by_type s (fund_type_of (fund_desc item))"
    and "funds_list_is_default l \<longleftrightarrow> list_last l = 0"
    and "present s (list_last l)"
  shows "add_fund_to_type_list i item s =
    (item\<lparr>type_list_prev := list_last l\<rparr>,
     set_fund_list_by_type (fund_type_of (fund_desc item))
       \<lparr>total_balance = total_balance l + balance item,
        list_first = (if list_last l = 0 then i else list_first l), list_last = i\<rparr>
       (touch (list_last l) (\<lambda>p. p\<lparr>type_list_next := i\<rparr>) s))"
proof -
  have t: "(if list_last l = 0 then s else update_fund_by_id (list_last l) (\<lambda>p. p\<lparr>type_list_next := i\<rparr>) s) =
    touch (list_last l) (\<lambda>p. p\<lparr>type_list_next := i\<rparr>) s"
    using assms(1,5) by (intro update_is_touch) auto
  show ?thesis
    using assms(2,4) unfolding t [symmetric]
    by (cases l) (simp add: add_fund_to_type_list_def Let_def assms(3) [symmetric])
qed

lemma add_fund_to_user_list_touch:
  assumes "live s" and "user_list_prev item = 0"
    and "l = fund_list_by_user s (user_id item) (fund_type_of (fund_desc item))"
    and "funds_list_is_default l \<longleftrightarrow> list_last l = 0"
    and "present s (list_last l)"
  shows "add_fund_to_user_list i item s =
    (item\<lparr>user_list_prev := list_last l\<rparr>,
     set_fund_list_by_user (user_id item) (fund_type_of (fund_desc item))
       \<lparr>total_balance = total_balance l + balance item,
        list_first = (if list_last l = 0 then i else list_first l), list_last = i\<rparr>
       (touch (list_last l) (\<lambda>p. p\<lparr>user_list_next := i\<rparr>) s))"
proof -
  have t: "(if list_last l = 0 then s else update_fund_by_id (list_last l) (\<lambda>p. p\<lparr>user_list_next := i\<rparr>) s) =
    touch (list_last l) (\<lambda>p. p\<lparr>user_list_next := i\<rparr>) s"
    using assms(1,5) by (intro update_is_touch) auto
  show ?thesis
    using assms(2,4) unfolding t [symmetric]
    by (cases l) (simp add: add_fund_to_user_list_def Let_def assms(3) [symmetric])
qed

lemma conc_item_new:
  assumes "wf_entries m es" and "eid e = Suc m"
  shows "conc_item (es @ [e]) e = \<lparr>fund_desc = edesc e, user_id = euser e, balance = ebal e,
    type_list_next = 0, type_list_prev = last_of (ids_where (of_type (etype e)) es),
    user_list_next = 0, user_list_prev = last_of (ids_where (of_user (euser e) (etype e)) es)\<rparr>"
  using type_view.links_new [OF assms] user_view.links_new [OF assms]
  by (simp add: conc_item_def Let_def)

text \<open>The layout of one more entry, as item and head updates of the old layout.\<close>

lemma concrete_append:
  assumes wf: "wf_funds a" and e: "eid e = Suc (a_max a)" and b: "0 < ebal e"
  shows "concrete \<lparr>a_max = Suc (a_max a), a_entries = a_entries a @ [e]\<rparr> =
    with_item (eid e) (Some (conc_item (a_entries a @ [e]) e))
      (set_fund_list_by_user (euser e) (etype e)
        \<lparr>total_balance = sum_where (of_user (euser e) (etype e)) (a_entries a) + ebal e,
         list_first = (if ids_where (of_user (euser e) (etype e)) (a_entries a) = [] then eid e
                       else first_of (ids_where (of_user (euser e) (etype e)) (a_entries a))),
         list_last = eid e\<rparr>
        (touch (last_of (ids_where (of_user (euser e) (etype e)) (a_entries a)))
           (\<lambda>p. p\<lparr>user_list_next := eid e\<rparr>)
          (set_fund_list_by_type (etype e)
            \<lparr>total_balance = sum_where (of_type (etype e)) (a_entries a) + ebal e,
             list_first = (if ids_where (of_type (etype e)) (a_entries a) = [] then eid e
                           else first_of (ids_where (of_type (etype e)) (a_entries a))),
             list_last = eid e\<rparr>
            (touch (last_of (ids_where (of_type (etype e)) (a_entries a)))
               (\<lambda>p. p\<lparr>type_list_next := eid e\<rparr>)
              ((concrete a)\<lparr>fs_max_id := Suc (a_max a)\<rparr>)))))"
    (is "?l = ?r")
proof (rule fund_storage.equality)
  show "fs_max_id ?l = fs_max_id ?r" "fund_storage.more ?l = fund_storage.more ?r"
    by simp_all
  show "fs_by_type ?l = fs_by_type ?r"
    using b by (auto simp: fun_eq_iff list_head_append of_type_def set_fund_list_by_type_def
        funds_list_is_default_def)
  show "fs_by_user ?l = fs_by_user ?r"
    using b by (auto simp: fun_eq_iff list_head_append of_user_def set_fund_list_by_user_def
        funds_list_is_default_def)
  show "fs_by_id ?l = fs_by_id ?r"
  proof
    fix j
    show "fs_by_id ?l j = fs_by_id ?r j"
    proof (cases "entry_at (a_entries a) j")
      case None
      then show ?thesis by (auto simp: entry_at_append)
    next
      case (Some f)
      then have f: "f \<in> set (a_entries a)" "eid f = j"
        using entry_at_Some by blast+
      then have "j \<noteq> eid e"
        using wf_pos [OF wf f(1)] e by simp
      then show ?thesis
        using Some f conc_item_append [OF wf e f(1)]
        by (auto simp: entry_at_append conc_item_def Let_def)
    qed
  qed
qed

lemma create_fund_concrete:
  assumes wf: "wf_funds a" and b: "0 < b" and room: "Suc (a_max a) < usize_max"
  shows "create_fund u d b (concrete a) = concrete (a_append u d b a)"
proof -
  define e where "e = \<lparr>eid = Suc (a_max a), edesc = d, euser = u, ebal = b\<rparr>"
  have e: "eid e = Suc (a_max a)" "etype e = fund_type_of d" "euser e = u" "ebal e = b" "edesc e = d"
    by (simp_all add: e_def etype_def)
  have add1: "usize_add (a_max a) (Suc 0) = Suc (a_max a)"
    using room by (simp add: usize_add_small)
  have live: "live ((concrete a)\<lparr>fs_max_id := Suc (a_max a)\<rparr>)"
    using live_concrete [OF wf] by simp
  have z: "last_of (ids_where P (a_entries a)) = 0 \<longleftrightarrow> ids_where P (a_entries a) = []" for P
    using ids_where_nz [OF wf] by (rule last_of_eq_0)
  let ?T = "ids_where (of_type (fund_type_of d)) (a_entries a)"
  let ?s1 = "(concrete a)\<lparr>fs_max_id := Suc (a_max a)\<rparr>"
  let ?item = "\<lparr>fund_desc = d, user_id = u, balance = b, type_list_next = 0, type_list_prev = 0,
    user_list_next = 0, user_list_prev = 0\<rparr>"
  define s2 where "s2 = set_fund_list_by_type (fund_type_of d)
    \<lparr>total_balance = sum_where (of_type (fund_type_of d)) (a_entries a) + b,
     list_first = (if ?T = [] then Suc (a_max a) else first_of ?T), list_last = Suc (a_max a)\<rparr>
    (touch (last_of ?T) (\<lambda>p. p\<lparr>type_list_next := Suc (a_max a)\<rparr>) ?s1)"
  have A: "add_fund_to_type_list (Suc (a_max a)) ?item ?s1 = (?item\<lparr>type_list_prev := last_of ?T\<rparr>, s2)"
    unfolding s2_def
    by (subst add_fund_to_type_list_touch [OF live _ refl])
      (simp_all add: list_default_concrete [OF wf] z)
  have l2: "live s2" "fund_list_by_user s2 = fund_list_by_user (concrete a)"
    "present s2 = present (concrete a)"
    using live_touch [OF live] by (simp_all add: s2_def fun_eq_iff)
  let ?U = "ids_where (of_user u (fund_type_of d)) (a_entries a)"
  define s3 where "s3 = set_fund_list_by_user u (fund_type_of d)
    \<lparr>total_balance = sum_where (of_user u (fund_type_of d)) (a_entries a) + b,
     list_first = (if ?U = [] then Suc (a_max a) else first_of ?U), list_last = Suc (a_max a)\<rparr>
    (touch (last_of ?U) (\<lambda>p. p\<lparr>user_list_next := Suc (a_max a)\<rparr>) s2)"
  have B: "add_fund_to_user_list (Suc (a_max a)) (?item\<lparr>type_list_prev := last_of ?T\<rparr>) s2 =
    (?item\<lparr>type_list_prev := last_of ?T, user_list_prev := last_of ?U\<rparr>, s3)"
    unfolding s3_def
    by (subst add_fund_to_user_list_touch [OF l2(1) _ refl])
      (simp_all add: list_default_concrete [OF wf] z l2)
  have C: "concrete \<lparr>a_max = Suc (a_max a), a_entries = a_entries a @ [e]\<rparr> =
    with_item (Suc (a_max a))
      (Some (?item\<lparr>type_list_prev := last_of ?T, user_list_prev := last_of ?U\<rparr>)) s3"
    unfolding concrete_append [OF wf e(1), unfolded e(4), OF b] s3_def s2_def
    by (simp only: e conc_item_new [OF wf e(1)] fund_item.simps)
  have "create_fund u d b (concrete a) =
    concrete \<lparr>a_max = Suc (a_max a), a_entries = a_entries a @ [e]\<rparr>"
    unfolding C create_fund_def using b A B
    by (simp add: Let_def add1 set_fund_by_id_with_item fund_item_is_default_def)
  then show ?thesis
    by (simp add: a_append_def e_def)
qed

section \<open>Deleting a fund\<close>

definition emptied :: "fund_item \<Rightarrow> fund_item" where
  "emptied item = item\<lparr>balance := 0, type_list_next := 0, type_list_prev := 0,
     user_list_next := 0, user_list_prev := 0\<rparr>"

lemma emptied_default [simp]: "fund_item_is_default (emptied item)"
  by (simp add: emptied_def fund_item_is_default_def)

lemma emptied_simps [simp]:
  "user_id (emptied item) = user_id item" "fund_desc (emptied item) = fund_desc item"
  by (simp_all add: emptied_def)

lemma delete_fund_from_type_list_touch:
  assumes "live s" and "present s (type_list_prev item)" and "present s (type_list_next item)"
  shows "delete_fund_from_type_list item (l\<lparr>total_balance := x\<rparr>) s =
    (item\<lparr>type_list_prev := 0, type_list_next := 0\<rparr>,
     \<lparr>total_balance = x,
      list_first = (if type_list_prev item = 0 then type_list_next item else list_first l),
      list_last = (if type_list_next item = 0 then type_list_prev item else list_last l)\<rparr>,
     touch (type_list_next item) (\<lambda>x. x\<lparr>type_list_prev := type_list_prev item\<rparr>)
       (touch (type_list_prev item) (\<lambda>x. x\<lparr>type_list_next := type_list_next item\<rparr>) s))"
proof -
  let ?f = "\<lambda>x. x\<lparr>type_list_next := type_list_next item\<rparr>"
  let ?g = "\<lambda>x. x\<lparr>type_list_prev := type_list_prev item\<rparr>"
  let ?s = "touch (type_list_prev item) ?f s"
  have "(if type_list_prev item = 0 then s else update_fund_by_id (type_list_prev item) ?f s) = ?s"
    using assms by (intro update_is_touch) auto
  moreover have "(if type_list_next item = 0 then ?s else update_fund_by_id (type_list_next item) ?g ?s) =
    touch (type_list_next item) ?g ?s"
    using assms by (intro update_is_touch live_touch) auto
  ultimately show ?thesis
    by (cases l) (auto simp: delete_fund_from_type_list_def Let_def split: if_splits)
qed

lemma delete_fund_from_user_list_touch:
  assumes "live s" and "present s (user_list_prev item)" and "present s (user_list_next item)"
  shows "delete_fund_from_user_list item (l\<lparr>total_balance := x\<rparr>) s =
    (item\<lparr>user_list_prev := 0, user_list_next := 0\<rparr>,
     \<lparr>total_balance = x,
      list_first = (if user_list_prev item = 0 then user_list_next item else list_first l),
      list_last = (if user_list_next item = 0 then user_list_prev item else list_last l)\<rparr>,
     touch (user_list_next item) (\<lambda>x. x\<lparr>user_list_prev := user_list_prev item\<rparr>)
       (touch (user_list_prev item) (\<lambda>x. x\<lparr>user_list_next := user_list_next item\<rparr>) s))"
proof -
  let ?f = "\<lambda>x. x\<lparr>user_list_next := user_list_next item\<rparr>"
  let ?g = "\<lambda>x. x\<lparr>user_list_prev := user_list_prev item\<rparr>"
  let ?s = "touch (user_list_prev item) ?f s"
  have "(if user_list_prev item = 0 then s else update_fund_by_id (user_list_prev item) ?f s) = ?s"
    using assms by (intro update_is_touch) auto
  moreover have "(if user_list_next item = 0 then ?s else update_fund_by_id (user_list_next item) ?g ?s) =
    touch (user_list_next item) ?g ?s"
    using assms by (intro update_is_touch live_touch) auto
  ultimately show ?thesis
    by (cases l) (auto simp: delete_fund_from_user_list_def Let_def split: if_splits)
qed

lemma delete_fund_touch:
  assumes live: "live s"
    and present: "present s (type_list_prev it)" "present s (type_list_next it)"
      "present s (user_list_prev it)" "present s (user_list_next it)"
    and t: "t = fund_type_of (fund_desc it)" and u: "u = user_id it"
    and le: "balance it \<le> total_balance (fund_list_by_type s t)"
      "balance it \<le> total_balance (fund_list_by_user s u t)"
  shows "delete_fund it s = Inr (balance it, emptied it,
    set_fund_list_by_user u t
      \<lparr>total_balance = total_balance (fund_list_by_user s u t) - balance it,
       list_first = (if user_list_prev it = 0 then user_list_next it
                     else list_first (fund_list_by_user s u t)),
       list_last = (if user_list_next it = 0 then user_list_prev it
                    else list_last (fund_list_by_user s u t))\<rparr>
      (touch (user_list_next it) (\<lambda>x. x\<lparr>user_list_prev := user_list_prev it\<rparr>)
        (touch (user_list_prev it) (\<lambda>x. x\<lparr>user_list_next := user_list_next it\<rparr>)
          (set_fund_list_by_type t
            \<lparr>total_balance = total_balance (fund_list_by_type s t) - balance it,
             list_first = (if type_list_prev it = 0 then type_list_next it
                           else list_first (fund_list_by_type s t)),
             list_last = (if type_list_next it = 0 then type_list_prev it
                          else list_last (fund_list_by_type s t))\<rparr>
            (touch (type_list_next it) (\<lambda>x. x\<lparr>type_list_prev := type_list_prev it\<rparr>)
              (touch (type_list_prev it) (\<lambda>x. x\<lparr>type_list_next := type_list_next it\<rparr>) s))))))"
  using le
  by (simp add: delete_fund_def Let_def t [symmetric] u [symmetric] live present live_touch
      delete_fund_from_type_list_touch delete_fund_from_user_list_touch emptied_def
      split del: if_split cong: if_cong)

lemma conc_item_remove:
  assumes "wf_entries m es" and "e \<in> set es" and "f \<in> set es" and "eid f \<noteq> eid e"
  shows "conc_item (remove_entry (eid e) es) f = (conc_item es f)
    \<lparr>type_list_next := (if eid f = type_list_prev (conc_item es e)
                         then type_list_next (conc_item es e) else type_list_next (conc_item es f)),
     type_list_prev := (if eid f = type_list_next (conc_item es e)
                         then type_list_prev (conc_item es e) else type_list_prev (conc_item es f)),
     user_list_next := (if eid f = user_list_prev (conc_item es e)
                         then user_list_next (conc_item es e) else user_list_next (conc_item es f)),
     user_list_prev := (if eid f = user_list_next (conc_item es e)
                         then user_list_prev (conc_item es e) else user_list_prev (conc_item es f))\<rparr>"
  using type_view.next_remove [OF assms] type_view.prev_remove [OF assms]
    user_view.next_remove [OF assms] user_view.prev_remove [OF assms]
  by (simp add: conc_item_def Let_def)

lemma list_head_remove:
  assumes wf: "wf_entries m es" and e: "e \<in> set es" "P e"
    and l: "l = \<lparr>total_balance = sum_where P es - ebal e,
       list_first = (if prev_of (ids_where P es) (eid e) = 0 then next_of (ids_where P es) (eid e)
                     else first_of (ids_where P es)),
       list_last = (if next_of (ids_where P es) (eid e) = 0 then prev_of (ids_where P es) (eid e)
                    else last_of (ids_where P es))\<rparr>"
  shows "(if funds_list_is_default l then None else Some l) = list_head P (remove_entry (eid e) es)"
proof -
  have mem: "eid e \<in> set (ids_where P es)"
    using ids_where_mem [OF wf e(1)] e(2) by blast
  have l': "l = \<lparr>total_balance = sum_where P (remove_entry (eid e) es),
      list_first = first_of (ids_where P (remove_entry (eid e) es)),
      list_last = last_of (ids_where P (remove_entry (eid e) es))\<rparr>"
    using sum_where_remove [OF wf e(1), of P] e(2)
    by (simp add: l ids_where_remove first_of_drop last_of_drop ids_where_wf [OF wf] mem)
  have "funds_list_is_default l \<longleftrightarrow> filter P (remove_entry (eid e) es) = []"
    using list_head_default [OF wf_remove [OF wf], of P "eid e"]
    by (auto simp: l' list_head_def ids_where_Nil split: if_splits)
      (simp add: funds_list_is_default_def sum_where_Nil ids_where_def)
  then show ?thesis
    by (simp add: list_head_def l')
qed

lemma list_head_other: "wf_entries m es \<Longrightarrow> e \<in> set es \<Longrightarrow> \<not> P e \<Longrightarrow>
    list_head P (remove_entry (eid e) es) = list_head P es"
  using sum_where_remove [of m es e P] ids_where_mem [of m es e P]
  by (simp add: list_head_def ids_where_Nil [symmetric] ids_where_remove drop_id_notin)

text \<open>The layout without an entry, as item and head updates of the old layout.\<close>

lemma concrete_remove:
  assumes wf: "wf_funds a" and e: "e \<in> set (a_entries a)" and it: "it = conc_item (a_entries a) e"
  defines "i \<equiv> eid e"
  shows "with_item i (Some it) (concrete (a_remove i a)) =
    set_fund_list_by_user (euser e) (etype e)
      \<lparr>total_balance = sum_where (of_user (euser e) (etype e)) (a_entries a) - ebal e,
       list_first = (if user_list_prev it = 0 then user_list_next it
                     else list_first (fund_list_by_user (concrete a) (euser e) (etype e))),
       list_last = (if user_list_next it = 0 then user_list_prev it
                     else list_last (fund_list_by_user (concrete a) (euser e) (etype e)))\<rparr>
      (touch (user_list_next it) (\<lambda>x. x\<lparr>user_list_prev := user_list_prev it\<rparr>)
        (touch (user_list_prev it) (\<lambda>x. x\<lparr>user_list_next := user_list_next it\<rparr>)
          (set_fund_list_by_type (etype e)
            \<lparr>total_balance = sum_where (of_type (etype e)) (a_entries a) - ebal e,
             list_first = (if type_list_prev it = 0 then type_list_next it
                           else list_first (fund_list_by_type (concrete a) (etype e))),
             list_last = (if type_list_next it = 0 then type_list_prev it
                           else list_last (fund_list_by_type (concrete a) (etype e)))\<rparr>
            (touch (type_list_next it) (\<lambda>x. x\<lparr>type_list_prev := type_list_prev it\<rparr>)
              (touch (type_list_prev it) (\<lambda>x. x\<lparr>type_list_next := type_list_next it\<rparr>)
                (concrete a))))))"
    (is "?l = set_fund_list_by_user _ _ ?hu
      (touch _ _ (touch _ _ (set_fund_list_by_type _ ?ht (touch _ _ (touch _ _ _)))))"
     is "_ = ?r")
proof (rule fund_storage.equality)
  show "fs_max_id ?l = fs_max_id ?r" "fund_storage.more ?l = fund_storage.more ?r"
    by (simp_all add: a_remove_def)
  show "fs_by_type ?l = fs_by_type ?r"
  proof -
    have "(if funds_list_is_default ?ht then None else Some ?ht) =
      list_head (of_type (etype e)) (remove_entry (eid e) (a_entries a))"
      by (rule list_head_remove [OF wf e]) (simp_all add: it)
    then have "fs_by_type ?r = (fs_by_type (concrete a))
        (etype e := list_head (of_type (etype e)) (remove_entry (eid e) (a_entries a)))"
      by (simp only: set_list_unfold touch_simps set_list_field)
    then show ?thesis
      using list_head_other [OF wf e] by (simp add: fun_eq_iff a_remove_def i_def of_type_def)
  qed
  show "fs_by_user ?l = fs_by_user ?r"
  proof -
    have "(if funds_list_is_default ?hu then None else Some ?hu) =
      list_head (of_user (euser e) (etype e)) (remove_entry (eid e) (a_entries a))"
      by (rule list_head_remove [OF wf e]) (simp_all add: it)
    then have "fs_by_user ?r = (fs_by_user (concrete a))
        (euser e := (fs_by_user (concrete a) (euser e))
          (etype e := list_head (of_user (euser e) (etype e)) (remove_entry (eid e) (a_entries a))))"
      by (simp only: set_list_unfold touch_simps set_list_field)
    then show ?thesis
      using list_head_other [OF wf e] by (simp add: fun_eq_iff a_remove_def i_def of_user_def)
  qed
  show "fs_by_id ?l = fs_by_id ?r"
  proof
    fix j
    have ne: "eid e \<noteq> type_list_next it" "eid e \<noteq> type_list_prev it"
      "eid e \<noteq> user_list_next it" "eid e \<noteq> user_list_prev it"
      using next_of_neq prev_of_neq ids_where_wf [OF wf] type_view.own_id [OF wf e]
        user_view.own_id [OF wf e] by (metis it conc_item_simps(4-7))+
    show "fs_by_id ?l j = fs_by_id ?r j"
    proof (cases "entry_at (a_entries a) j")
      case None
      then show ?thesis
        using entry_at_mem [OF wf e] by (auto simp: a_remove_def i_def entry_at_remove)
    next
      case (Some f)
      then have f: "f \<in> set (a_entries a)" "eid f = j"
        using entry_at_Some by blast+
      show ?thesis
      proof (cases "j = i")
        case True
        then show ?thesis
          using ne entry_at_mem [OF wf e] by (simp add: i_def it)
      next
        case False
        then show ?thesis
          using Some f conc_item_remove [OF wf e f(1)] unfolding it [symmetric]
          by (auto simp: a_remove_def i_def entry_at_remove)
      qed
    qed
  qed
qed

lemma delete_fund_concrete:
  assumes wf: "wf_funds a" and e: "e \<in> set (a_entries a)"
  shows "delete_fund (conc_item (a_entries a) e) (concrete a) =
    Inr (ebal e, emptied (conc_item (a_entries a) e),
         with_item (eid e) (Some (conc_item (a_entries a) e)) (concrete (a_remove (eid e) a)))"
  unfolding concrete_remove [OF wf e refl]
  by (subst delete_fund_touch [OF live_concrete [OF wf] _ _ _ _ refl refl])
    (simp_all add: etype_def [symmetric] sum_where_ge [OF e])

section \<open>Changing a balance\<close>

lemma conc_item_set_balance:
  "conc_item (set_entry_balance i b es) (e\<lparr>ebal := b'\<rparr>) = (conc_item es e)\<lparr>balance := b'\<rparr>"
  "conc_item (set_entry_balance i b es) e = conc_item es e"
  by (simp_all add: conc_item_def Let_def ids_set_balance)

lemma list_head_set_balance:
  assumes wf: "wf_entries m es" and e: "e \<in> set es" and P: "\<And>f b. P (f\<lparr>ebal := b\<rparr>) = P f"
  shows "P e \<Longrightarrow> tot + ebal e = sum_where P es + b \<Longrightarrow>
      list_head P (set_entry_balance (eid e) b es) =
      Some \<lparr>total_balance = tot, list_first = first_of (ids_where P es),
            list_last = last_of (ids_where P es)\<rparr>"
    and "\<not> P e \<Longrightarrow> list_head P (set_entry_balance (eid e) b es) = list_head P es"
proof -
  have "filter P es \<noteq> []" if "P e"
    using e that by (auto simp: filter_empty_conv)
  then show "P e \<Longrightarrow> tot + ebal e = sum_where P es + b \<Longrightarrow>
      list_head P (set_entry_balance (eid e) b es) =
      Some \<lparr>total_balance = tot, list_first = first_of (ids_where P es),
            list_last = last_of (ids_where P es)\<rparr>"
    and "\<not> P e \<Longrightarrow> list_head P (set_entry_balance (eid e) b es) = list_head P es"
    using sum_where_set_balance [OF wf e, of P b] P
    by (auto simp: list_head_def ids_where_Nil [symmetric] ids_where_set_balance)
qed

lemma concrete_set_balance:
  assumes wf: "wf_funds a" and e: "e \<in> set (a_entries a)" and b: "0 < b"
    and tt: "tt + ebal e = sum_where (of_type (etype e)) (a_entries a) + b"
    and tu: "tu + ebal e = sum_where (of_user (euser e) (etype e)) (a_entries a) + b"
  shows "concrete (a_set_balance (eid e) b a) =
    with_item (eid e) (Some ((conc_item (a_entries a) e)\<lparr>balance := b\<rparr>))
      (set_fund_list_by_user (euser e) (etype e)
        ((fund_list_by_user (concrete a) (euser e) (etype e))\<lparr>total_balance := tu\<rparr>)
        (set_fund_list_by_type (etype e)
          ((fund_list_by_type (concrete a) (etype e))\<lparr>total_balance := tt\<rparr>) (concrete a)))"
    (is "?l = ?r")
proof (rule fund_storage.equality)
  have head: "list_head P (a_entries a) = Some \<lparr>total_balance = sum_where P (a_entries a),
      list_first = first_of (ids_where P (a_entries a)), list_last = last_of (ids_where P (a_entries a))\<rparr>"
    "first_of (ids_where P (a_entries a)) \<noteq> 0" if "P e" for P
    using first_of_eq_0 [OF ids_where_nz [OF wf], of P] ids_where_mem [OF wf e, of P] that e
    by (auto simp: list_head_def filter_empty_conv)
  note heads = list_head_set_balance [OF wf e]
  show "fs_max_id ?l = fs_max_id ?r" "fund_storage.more ?l = fund_storage.more ?r"
    by (simp_all add: a_set_balance_def)
  show "fs_by_type ?l = fs_by_type ?r"
    using heads(1) [OF _ _ tt] heads(2) [of "of_type t" for t] head [of "of_type (etype e)"]
    by (simp add: fun_eq_iff a_set_balance_def set_list_field fund_list_by_type_def
        funds_list_is_default_def) (simp add: of_type_def)
  show "fs_by_user ?l = fs_by_user ?r"
    using heads(1) [OF _ _ tu] heads(2) [of "of_user u t" for u t] head [of "of_user (euser e) (etype e)"]
    by (simp add: fun_eq_iff a_set_balance_def set_list_field fund_list_by_user_def
        funds_list_is_default_def) (simp add: of_user_def)
  show "fs_by_id ?l = fs_by_id ?r"
    using entry_at_mem [OF wf e]
    by (auto simp: fun_eq_iff a_set_balance_def entry_at_set_balance conc_item_set_balance
        option.map_comp o_def split: option.splits dest!: entry_at_Some intro!: map_option_cong)
qed

section \<open>Increasing and decreasing funds\<close>

text \<open>Writing back what was read changes nothing.\<close>

lemma set_list_same:
  assumes "wf_funds a"
  shows "set_fund_list_by_user u t (fund_list_by_user (concrete a) u t) (concrete a) = concrete a"
  using list_default_concrete(2) [OF assms, of u t]
  by (auto intro!: fund_storage.equality simp: set_list_field fun_eq_iff list_head_def ids_where_Nil
      fund_list_by_user_def split: if_splits)

lemma set_item_same:
  assumes "wf_funds a" and "e \<in> set (a_entries a)"
  shows "set_fund_by_id (eid e) (conc_item (a_entries a) e) (concrete a) = concrete a"
  using wf_pos [OF assms] entry_at_mem [OF assms]
  by (simp add: set_fund_by_id_with_item fund_item_is_default_def with_item_same)

lemma last_of_view:
  assumes "filter P es \<noteq> []"
  obtains f where "f \<in> set es" "P f" "f = last (filter P es)" "eid f = last_of (ids_where P es)"
proof
  show "last (filter P es) \<in> set es" "P (last (filter P es))"
    using last_in_set [OF assms] by auto
  show "eid (last (filter P es)) = last_of (ids_where P es)"
    using assms by (simp add: ids_where_def last_of_nonempty last_map)
qed auto

lemma a_increase_zero [simp]: "a_increase u d 0 a = a"
  by (simp add: a_increase_def)

lemma increase_fund_balance_concrete:
  assumes wf: "wf_funds a" and room: "Suc (a_max a) < usize_max"
  shows "increase_fund_balance u d x (concrete a) = concrete (a_increase u d x a)"
proof (cases "x = 0")
  case True
  then show ?thesis by (simp add: increase_fund_balance_def a_increase_def)
next
  case False
  let ?t = "fund_type_of d"
  let ?U = "filter (of_user u ?t) (a_entries a)"
  have create: "create_fund u d x (concrete a) = concrete (a_append u d x a)"
    using False create_fund_concrete [OF wf _ room] by simp
  show ?thesis
  proof (cases "allow_coalesce ?t \<and> ?U \<noteq> []")
    case False
    then have "\<not> coalesces u d (a_entries a)"
      by (auto simp: coalesces_def Let_def)
    then show ?thesis
      using False \<open>x \<noteq> 0\<close> create set_list_same [OF wf]
      by (auto simp: increase_fund_balance_def a_increase_def Let_def list_default_concrete [OF wf]
          ids_where_Nil)
  next
    case True
    then obtain f where f: "f \<in> set (a_entries a)" "of_user u ?t f" "f = last ?U"
      and id: "eid f = last_of (ids_where (of_user u ?t) (a_entries a))"
      using last_of_view [of "of_user u ?t" "a_entries a"] by metis
    have ft: "etype f = ?t" "euser f = u"
      using f(2) by (simp_all add: of_user_def)
    have get: "fund_by_id (concrete a) (eid f) = conc_item (a_entries a) f"
      by (rule fund_by_id_concrete [OF wf f(1)])
    have co: "coalesces u d (a_entries a) \<longleftrightarrow> edesc f = d"
      using True f(3) by (simp add: coalesces_def Let_def)
    have sb: "concrete (a_set_balance (eid f) (ebal f + x) a) =
      with_item (eid f) (Some ((conc_item (a_entries a) f)\<lparr>balance := ebal f + x\<rparr>))
      (set_fund_list_by_user (euser f) (etype f)
        ((fund_list_by_user (concrete a) (euser f) (etype f))
          \<lparr>total_balance := sum_where (of_user (euser f) (etype f)) (a_entries a) + x\<rparr>)
        (set_fund_list_by_type (etype f)
          ((fund_list_by_type (concrete a) (etype f))
            \<lparr>total_balance := sum_where (of_type (etype f)) (a_entries a) + x\<rparr>) (concrete a)))"
      using wf_pos [OF wf f(1)] by (intro concrete_set_balance [OF wf f(1)]) auto
    show ?thesis
      using True \<open>x \<noteq> 0\<close> create set_list_same [OF wf] set_item_same [OF wf f(1)] sb
      by (simp add: increase_fund_balance_def a_increase_def Let_def list_default_concrete [OF wf]
          ids_where_Nil id [symmetric] get co f(3) [symmetric] ft set_fund_by_id_with_item
          fund_item_is_default_def etype_def [symmetric])
  qed
qed

text \<open>
  How much a conversion takes from an entry, what is left of the limit, and the storage
  after it. The item returned to the caller is the one the new layout has.
\<close>

definition taken :: "nat option \<Rightarrow> fund_entry \<Rightarrow> nat" where
  "taken mx e = (case mx of None \<Rightarrow> ebal e | Some m \<Rightarrow> min m (ebal e))"

definition left_over :: "nat option \<Rightarrow> fund_entry \<Rightarrow> nat option" where
  "left_over mx e = map_option (\<lambda>m. m - taken mx e) mx"

definition a_convert :: "fund_description \<Rightarrow> nat \<Rightarrow> fund_entry \<Rightarrow> abs_funds \<Rightarrow> abs_funds" where
  "a_convert d x e a = a_increase (euser e) d x (a_take e x a)"

lemma wf_a_take:
  assumes "wf_funds a" and "0 < x"
  shows "wf_funds (a_take e x a)"
  using assms by (auto simp: a_take_def a_remove_def a_set_balance_def intro: wf_remove wf_set_balance)

lemma a_max_take [simp]: "a_max (a_take e x a) = a_max a"
  by (simp add: a_take_def a_remove_def a_set_balance_def)

lemma delete_fund_take:
  assumes wf: "wf_funds a" and e: "e \<in> set (a_entries a)"
  shows "\<exists>it'. delete_fund (conc_item (a_entries a) e) (concrete a) =
      Inr (ebal e, it', with_item (eid e) (Some (conc_item (a_entries a) e))
        (concrete (a_take e (ebal e) a))) \<and>
    set_fund_by_id (eid e) it' (concrete (a_take e (ebal e) a)) = concrete (a_take e (ebal e) a) \<and>
    user_id it' = euser e"
  using delete_fund_concrete [OF assms]
  by (simp add: a_take_def set_fund_by_id_with_item with_item_same a_remove_def entry_at_remove)

lemma decrease_fund_balance_take:
  assumes wf: "wf_funds a" and e: "e \<in> set (a_entries a)" and x: "0 < x"
  shows "\<exists>it'. decrease_fund_balance x (conc_item (a_entries a) e) (concrete a) =
      Inr (min x (ebal e), x - min x (ebal e), it',
         with_item (eid e) (Some (conc_item (a_entries a) e)) (concrete (a_take e (min x (ebal e)) a))) \<and>
    set_fund_by_id (eid e) it' (concrete (a_take e (min x (ebal e)) a)) =
      concrete (a_take e (min x (ebal e)) a) \<and>
    user_id it' = euser e"
proof (cases "ebal e \<le> x")
  case True
  then show ?thesis
    using delete_fund_take [OF wf e] by (auto simp: decrease_fund_balance_def min_def)
next
  case False
  let ?it = "(conc_item (a_entries a) e)\<lparr>balance := ebal e - x\<rparr>"
  have le: "x \<le> sum_where (of_type (etype e)) (a_entries a)"
    "x \<le> sum_where (of_user (euser e) (etype e)) (a_entries a)"
    using False sum_where_ge [OF e, of "of_type (etype e)"]
      sum_where_ge [OF e, of "of_user (euser e) (etype e)"] by simp_all
  define s1 where "s1 = set_fund_list_by_user (euser e) (etype e)
    ((fund_list_by_user (concrete a) (euser e) (etype e))
      \<lparr>total_balance := sum_where (of_user (euser e) (etype e)) (a_entries a) - x\<rparr>)
    (set_fund_list_by_type (etype e)
      ((fund_list_by_type (concrete a) (etype e))
        \<lparr>total_balance := sum_where (of_type (etype e)) (a_entries a) - x\<rparr>) (concrete a))"
  have c: "concrete (a_set_balance (eid e) (ebal e - x) a) = with_item (eid e) (Some ?it) s1"
    unfolding s1_def using False le by (intro concrete_set_balance [OF wf e]) auto
  have m: "min x (ebal e) = x" "a_take e x a = a_set_balance (eid e) (ebal e - x) a"
    using False by (auto simp: a_take_def)
  have stale: "with_item (eid e) (Some (conc_item (a_entries a) e)) s1 = s1"
    using entry_at_mem [OF wf e] by (intro with_item_same) (simp add: s1_def)
  have wb: "set_fund_by_id (eid e) ?it (with_item (eid e) (Some ?it) s1) =
    with_item (eid e) (Some ?it) s1"
    using False by (simp add: set_fund_by_id_with_item fund_item_is_default_def)
  have "decrease_fund_balance x (conc_item (a_entries a) e) (concrete a) = Inr (x, 0, ?it, s1)"
    using False le by (simp add: decrease_fund_balance_def Let_def etype_def [symmetric] s1_def)
  then show ?thesis
    unfolding m c using wb stale by simp
qed

end
