(* ===== verification/Fund_Loops.thy ===== *)
theory Fund_Loops
  imports Fund_Operations
begin

text \<open>
  The loops of the fund module. A loop follows next- or previous-links while it deletes,
  splits and appends items; on a laid-out storage it is a recursion over the list of
  entries it finds at its start, it always stops within its fuel, and no checked
  subtraction in it fails. The theory ends with the effect of the loops on the totals.
\<close>

section \<open>Chains\<close>

definition chain_of :: "swap_direction \<Rightarrow> (fund_entry \<Rightarrow> bool) \<Rightarrow> fund_entry list \<Rightarrow> fund_entry list" where
  "chain_of dir P es = (case dir of Forwards \<Rightarrow> filter P es | Backwards \<Rightarrow> rev (filter P es))"

lemma set_chain_of [simp]: "set (chain_of dir P es) = {e \<in> set es. P e}"
  by (auto simp: chain_of_def split: swap_direction.splits)

lemma length_wf_entries:
  assumes "wf_entries m es"
  shows "length es \<le> m"
proof -
  have "set (map eid es) \<subseteq> {1..m}"
    using wf_pos [OF assms] by fastforce
  then have "card (set (map eid es)) \<le> m"
    using card_mono [of "{1..m}"] by simp
  then show ?thesis
    using distinct_card [OF wf_distinct [OF assms]] by simp
qed

lemma length_chain_of:
  assumes "wf_entries m es"
  shows "length (chain_of dir P es) \<le> m"
proof -
  have "length (chain_of dir P es) \<le> length es"
    by (cases dir) (auto simp: chain_of_def)
  then show ?thesis
    using length_wf_entries [OF assms] by simp
qed

lemma distinct_chain_of: "wf_entries m es \<Longrightarrow> distinct (map eid (chain_of dir P es))"
  using ids_where_distinct [of m es P]
  by (cases dir) (auto simp: chain_of_def ids_where_def rev_map [symmetric])

text \<open>
  The chain a loop follows: the entries that satisfy \<open>P\<close>, all of one type, in the order of
  a direction, with the link the loop reads.
\<close>

locale fund_chain =
  fixes P :: "fund_entry \<Rightarrow> bool" and t :: fund_type and dir :: swap_direction
    and link :: "fund_item \<Rightarrow> nat"
  assumes chain_type: "P e \<Longrightarrow> etype e = t"
    and chain_ebal: "P (e\<lparr>ebal := b\<rparr>) = P e"
    and chain_link: "P e \<Longrightarrow> link (conc_item es e) =
      (case dir of Forwards \<Rightarrow> next_of (ids_where P es) (eid e)
                 | Backwards \<Rightarrow> prev_of (ids_where P es) (eid e))"
begin

lemma chain_next:
  assumes wf: "wf_entries m es" and c: "chain_of dir P es = pre @ e # rem"
  shows "link (conc_item es e) = first_of (map eid rem)"
proof -
  have "e \<in> set (chain_of dir P es)"
    by (simp add: c)
  then have e: "P e"
    by simp
  have d: "distinct (map eid pre @ eid e # map eid rem)"
    using distinct_chain_of [OF wf, of dir P] by (simp add: c)
  show ?thesis
  proof (cases dir)
    case Forwards
    then have "ids_where P es = map eid pre @ eid e # map eid rem"
      using c by (simp add: chain_of_def ids_where_def)
    then show ?thesis
      using Forwards next_of_split [OF d] by (simp add: chain_link [OF e])
  next
    case Backwards
    then have "rev (ids_where P es) = map eid pre @ eid e # map eid rem"
      using c by (simp add: chain_of_def ids_where_def rev_map)
    then show ?thesis
      using Backwards next_of_split [OF d] by (simp add: chain_link [OF e] prev_of_def)
  qed
qed

lemma traverse_chain:
  assumes wf: "wf_funds a" and c: "chain_of dir P (a_entries a) = pre @ rem" and n: "length rem \<le> n"
  shows "traverse n (concrete a) link body (first_of (map eid rem)) acc =
    Inr (fold (\<lambda>e. body (conc_item (a_entries a) e)) rem acc)"
  using c n
proof (induction rem arbitrary: n pre acc)
  case Nil
  then show ?case by (cases n) auto
next
  case (Cons e rem)
  then obtain n' where n': "n = Suc n'" "length rem \<le> n'"
    by (cases n) auto
  have "e \<in> set (chain_of dir P (a_entries a))"
    by (simp add: Cons.prems)
  then have e: "e \<in> set (a_entries a)"
    by simp
  have nz: "eid e \<noteq> 0"
    using wf_pos [OF wf e] by simp
  show ?case
    using Cons.IH [of "pre @ [e]" n'] Cons.prems(1) n' nz
    by (simp add: fund_by_id_concrete [OF wf e] chain_next [OF wf Cons.prems(1)] Let_def)
qed

lemma filter_remove_entry: "chain_of dir P (remove_entry i es) = remove_entry i (chain_of dir P es)"
  by (cases dir) (auto simp: chain_of_def remove_entry_def rev_filter conj_commute)

lemma filter_set_entry_balance:
  "chain_of dir P (set_entry_balance i b es) = set_entry_balance i b (chain_of dir P es)"
proof -
  have "filter P (set_entry_balance i b es) = set_entry_balance i b (filter P es)"
    by (induction es) (auto simp: set_entry_balance_def chain_ebal)
  then show ?thesis
    by (cases dir) (auto simp: chain_of_def set_entry_balance_def rev_map)
qed

lemma chain_take:
  assumes wf: "wf_funds a" and c: "chain_of dir P (a_entries a) = pre @ e # rem"
  shows "\<exists>pre'. chain_of dir P (a_entries (a_take e x a)) = pre' @ rem"
proof -
  have d: "distinct (map eid (pre @ e # rem))"
    using distinct_chain_of [OF wf, of dir P] by (simp only: c)
  have b: "set_entry_balance (eid e) b (pre @ e # rem) = (pre @ [e\<lparr>ebal := b\<rparr>]) @ rem" for b
    using set_entry_balance_split [OF d] by simp
  show ?thesis
    unfolding a_take_def a_remove_def a_set_balance_def
    using remove_entry_split [OF d] b by (auto simp: filter_remove_entry filter_set_entry_balance c)
qed

lemma chain_increase:
  assumes wf: "wf_funds a" and d: "fund_type_of d \<noteq> t"
  shows "chain_of dir P (a_entries (a_increase u d x a)) = chain_of dir P (a_entries a)"
proof -
  let ?us = "filter (of_user u (fund_type_of d)) (a_entries a)"
  have "eid (last ?us) \<notin> eid ` set (chain_of dir P (a_entries a))" if us: "?us \<noteq> []"
  proof
    assume "eid (last ?us) \<in> eid ` set (chain_of dir P (a_entries a))"
    then obtain f where f: "f \<in> set (a_entries a)" "P f" "eid f = eid (last ?us)"
      by auto
    moreover have "last ?us \<in> set (a_entries a)" "etype (last ?us) = fund_type_of d"
      using last_in_set [OF us] by (auto simp: of_user_def)
    ultimately have "f = last ?us"
      using entry_at_mem [OF wf] by (metis option.inject)
    then show False
      using chain_type [OF f(2)] d \<open>etype (last ?us) = fund_type_of d\<close> by simp
  qed
  moreover have "chain_of dir P (es @ [e]) = chain_of dir P es" if "\<not> P e" for es e
    using that by (cases dir) (simp_all add: chain_of_def)
  moreover have "\<not> P \<lparr>eid = i, edesc = d, euser = u, ebal = b\<rparr>" for i b
    using chain_type d by (force simp: etype_def)
  ultimately show ?thesis
    by (auto simp: a_increase_def Let_def a_append_def a_set_balance_def coalesces_def
        filter_set_entry_balance set_entry_balance_notin)
qed

lemma chain_convert:
  assumes wf: "wf_funds a" and c: "chain_of dir P (a_entries a) = pre @ e # rem"
    and d: "fund_type_of d \<noteq> t" and x: "0 < x"
  shows "\<exists>pre'. chain_of dir P (a_entries (a_convert d x e a)) = pre' @ rem"
  using chain_take [OF wf c, of x] chain_increase [OF wf_a_take [OF wf x] d]
  by (simp add: a_convert_def)

end

interpretation type_chain: fund_chain "of_type t" t dir "next_in_type_list dir" for t dir
  by unfold_locales (auto simp: of_type_def etype_def next_in_type_list_def split: swap_direction.splits)

interpretation user_chain: fund_chain "of_user u t" t dir "next_in_user_list dir" for u t dir
  by unfold_locales (auto simp: of_user_def etype_def next_in_user_list_def split: swap_direction.splits)

section \<open>One conversion\<close>

lemma wf_increase:
  assumes "wf_funds a"
  shows "wf_funds (a_increase u d x a)"
  using assms
  by (auto simp: a_increase_def Let_def a_append_def a_set_balance_def
      intro: wf_set_balance wf_append)

lemma a_max_increase: "a_max (a_increase u d x a) \<le> Suc (a_max a)" "a_max a \<le> a_max (a_increase u d x a)"
  by (auto simp: a_increase_def Let_def a_append_def a_set_balance_def)

lemma a_max_convert: "a_max (a_convert d x e a) \<le> Suc (a_max a)"
  unfolding a_convert_def using a_max_increase(1) [of "euser e" d x "a_take e x a"] by simp

lemma wf_convert: "wf_funds a \<Longrightarrow> 0 < x \<Longrightarrow> wf_funds (a_convert d x e a)"
  unfolding a_convert_def by (intro wf_increase wf_a_take)

lemma taken_pos: "0 < ebal e \<Longrightarrow> mx \<noteq> Some 0 \<Longrightarrow> 0 < taken mx e"
  by (auto simp: taken_def split: option.splits)

lemma taken_le: "taken mx e \<le> ebal e"
  by (auto simp: taken_def split: option.splits)

lemma ids_take_subset: "set (ids_where (of_type t) (a_entries (a_take e x a)))
    \<subseteq> set (ids_where (of_type t) (a_entries a))"
    "set (ids_where (of_user u t) (a_entries (a_take e x a)))
    \<subseteq> set (ids_where (of_user u t) (a_entries a))"
  by (auto simp: a_take_def a_remove_def a_set_balance_def ids_where_remove ids_set_balance drop_id_def)

text \<open>
  Putting the amount taken elsewhere: the storage still holds the old copy of the item,
  which is overwritten at the end.
\<close>

lemma increase_after_take:
  assumes wf: "wf_funds a" and e: "e \<in> set (a_entries a)" and x: "0 < x"
    and room: "Suc (a_max a) < usize_max" and d: "fund_type_of d \<noteq> etype e"
    and wb: "set_fund_by_id (eid e) it' (concrete (a_take e x a)) = concrete (a_take e x a)"
  shows "set_fund_by_id (eid e) it'
      (increase_fund_balance (euser e) d x (with_item (eid e) v (concrete (a_take e x a)))) =
    concrete (a_convert d x e a)"
proof -
  let ?a = "a_take e x a"
  have wf': "wf_funds ?a" and room': "Suc (a_max ?a) < usize_max"
    using wf_a_take [OF wf x] room by simp_all
  have nz: "eid e \<noteq> 0" "eid e \<le> a_max a"
    using wf_pos [OF wf e] by simp_all
  have "eid e \<noteq> usize_add (fs_max_id (concrete ?a)) 1"
    using nz room by (simp add: usize_add_small)
  moreover have "eid e \<noteq> last_of (ids_where (of_type (fund_type_of d)) (a_entries ?a))"
    using last_of_in ids_take_subset(1) same_view [OF wf e, of "of_type (fund_type_of d)"] nz d
    by (metis last_of_simps(1) of_type_def subsetD)
  moreover have "eid e \<noteq> last_of (ids_where (of_user (euser e) (fund_type_of d)) (a_entries ?a))"
    using last_of_in ids_take_subset(2) same_view [OF wf e, of "of_user (euser e) (fund_type_of d)"] nz d
    by (metis last_of_simps(1) of_user_def subsetD)
  ultimately have frame: "increase_fund_balance (euser e) d x (with_item (eid e) w (concrete ?a)) =
      with_item (eid e) w (increase_fund_balance (euser e) d x (concrete ?a))" for w
    by (intro increase_fund_balance_with_item) simp_all
  have "set_fund_by_id (eid e) it' (with_item (eid e) v (increase_fund_balance (euser e) d x (concrete ?a))) =
    increase_fund_balance (euser e) d x (set_fund_by_id (eid e) it' (concrete ?a))"
    by (simp add: set_fund_by_id_with_item frame)
  then show ?thesis
    unfolding frame wb increase_fund_balance_concrete [OF wf' room'] a_convert_def .
qed

lemma extract_convert:
  assumes wf: "wf_funds a" and e: "e \<in> set (a_entries a)" and mx: "mx \<noteq> Some 0"
    and room: "Suc (a_max a) < usize_max" and d: "fund_type_of d \<noteq> etype e"
  shows "\<exists>it' s'.
    (case mx of
       Some max_amount \<Rightarrow>
         bind_res (decrease_fund_balance max_amount (conc_item (a_entries a) e) (concrete a))
           (\<lambda>(extracted, m, item', s'). Inr (extracted, Some m, item', s'))
     | None \<Rightarrow>
         bind_res (delete_fund (conc_item (a_entries a) e) (concrete a))
           (\<lambda>(extracted, item', s'). Inr (extracted, None, item', s'))) =
      Inr (taken mx e, left_over mx e, it', s') \<and> user_id it' = euser e \<and>
    set_fund_by_id (eid e) it' (increase_fund_balance (euser e) d (taken mx e) s') =
      concrete (a_convert d (taken mx e) e a)"
proof -
  have pos: "0 < taken mx e"
    using wf_pos [OF wf e] mx by (simp add: taken_pos)
  note inc = increase_after_take [OF wf e pos room d]
  show ?thesis
  proof (cases mx)
    case None
    then have t: "taken mx e = ebal e"
      by (simp add: taken_def)
    show ?thesis
      using delete_fund_take [OF wf e] inc unfolding t
      by (auto simp: None left_over_def)
  next
    case (Some m)
    then have t: "taken mx e = min m (ebal e)" and m: "0 < m"
      using mx by (auto simp: taken_def)
    show ?thesis
      using decrease_fund_balance_take [OF wf e m] inc unfolding t
      by (auto simp: Some left_over_def t [unfolded Some])
  qed
qed

section \<open>The loops as recursions over entries\<close>

text \<open>
  A conversion loop over a snapshot of entries: the users it visits, what is left of the
  limit and the amount it moves depend on the snapshot only; the storage afterwards is the
  sequence of single conversions. The loop stops at an interrupt or when the limit is
  used up.
\<close>

fun loop_result ::
  "(fund_entry \<Rightarrow> fund_description option) \<Rightarrow> (nat \<Rightarrow> bool) \<Rightarrow> nat \<Rightarrow> nat option \<Rightarrow> fund_entry list
     \<Rightarrow> nat list \<times> nat option \<times> nat"
where
  "loop_result tr intr k mx [] = ([], mx, 0)"
| "loop_result tr intr k mx (e # es) =
     (if intr k \<or> mx = Some 0 then ([], mx, 0)
      else case tr e of
          None \<Rightarrow> (let (us, m, x) = loop_result tr intr (Suc k) mx es in (euser e # us, m, x))
        | Some d \<Rightarrow> (let (us, m, x) = loop_result tr intr (Suc k) (left_over mx e) es
                    in (euser e # us, m, taken mx e + x)))"

fun loop_funds ::
  "(fund_entry \<Rightarrow> fund_description option) \<Rightarrow> (nat \<Rightarrow> bool) \<Rightarrow> nat \<Rightarrow> nat option \<Rightarrow> fund_entry list
     \<Rightarrow> abs_funds \<Rightarrow> abs_funds"
where
  "loop_funds tr intr k mx [] a = a"
| "loop_funds tr intr k mx (e # es) a =
     (if intr k \<or> mx = Some 0 then a
      else case tr e of
          None \<Rightarrow> loop_funds tr intr (Suc k) mx es a
        | Some d \<Rightarrow> loop_funds tr intr (Suc k) (left_over mx e) es (a_convert d (taken mx e) e a))"

text \<open>A conversion leaves the entries of other types alone and removes the converted entry.\<close>

lemma increase_other_types:
  assumes "wf_funds a" and "e \<in> set (a_entries (a_increase u d x a))" and "etype e \<noteq> fund_type_of d"
  shows "e \<in> set (a_entries a)"
proof (cases "coalesces u d (a_entries a)")
  case True
  define l where "l = last (filter (of_user u (fund_type_of d)) (a_entries a))"
  have l: "l \<in> set (a_entries a)" "etype l = fund_type_of d"
    using True last_in_set [of "filter (of_user u (fund_type_of d)) (a_entries a)"]
    by (auto simp: coalesces_def Let_def l_def of_user_def)
  have same: "fund_type_of (edesc e') = fund_type_of d" if "eid e' = eid l" "e' \<in> set (a_entries a)" for e'
    using wf_distinct [OF assms(1)] l that by (auto simp: distinct_map inj_on_def etype_def)
  show ?thesis
    using assms(2,3) True
    by (auto dest!: same simp: a_increase_def a_set_balance_def set_entry_balance_def Let_def etype_def simp flip: l_def split: if_splits)
next
  case False
  then show ?thesis
    using assms(2,3) by (auto simp: a_increase_def a_append_def etype_def split: if_splits)
qed

lemma convert_other_types:
  assumes "wf_funds a" and "e \<in> set (a_entries (a_convert d (ebal e0) e0 a))" and "etype e \<noteq> fund_type_of d"
  shows "e \<in> set (a_entries a) \<and> eid e \<noteq> eid e0"
proof -
  have take: "a_take e0 (ebal e0) a = a_remove (eid e0) a"
    by (simp add: a_take_def)
  have "e \<in> set (a_entries (a_remove (eid e0) a))"
    using assms(1) by (intro increase_other_types [OF _ assms(2) [unfolded a_convert_def take] assms(3)])
      (simp add: a_remove_def wf_remove)
  then show ?thesis
    by (auto simp: a_remove_def remove_entry_def)
qed

text \<open>What every loop needs of the state it starts in.\<close>

definition loop_ready :: "swap_direction \<Rightarrow> (fund_entry \<Rightarrow> bool) \<Rightarrow> nat \<Rightarrow> fund_entry list \<Rightarrow> abs_funds \<Rightarrow> bool"
where
  "loop_ready dir P n rem a \<longleftrightarrow> wf_funds a \<and> (\<exists>pre. chain_of dir P (a_entries a) = pre @ rem) \<and>
     length rem \<le> n \<and> a_max a + length rem < usize_max"

lemma loop_ready_start:
  assumes "wf_funds a" and "a_max a + length (chain_of dir P (a_entries a)) < usize_max"
  shows "loop_ready dir P (loop_fuel (concrete a)) (chain_of dir P (a_entries a)) a"
  using assms length_chain_of [OF assms(1), of dir P] by (simp add: loop_ready_def loop_fuel_def)

text \<open>A transformation that never leaves a fund of the type it comes from.\<close>

definition leaves :: "fund_type \<Rightarrow> (fund_entry \<Rightarrow> fund_description option) \<Rightarrow> bool" where
  "leaves t tr \<longleftrightarrow> (\<forall>e d. etype e = t \<longrightarrow> tr e = Some d \<longrightarrow> fund_type_of d \<noteq> t)"

context fund_chain
begin

lemma ready_head:
  assumes "loop_ready dir P n (e # rem) a"
  shows "e \<in> set (a_entries a)" "P e" "etype e = t" "eid e \<noteq> 0" "0 < ebal e"
    and "fund_by_id (concrete a) (eid e) = conc_item (a_entries a) e"
    and "link (conc_item (a_entries a) e) = first_of (map eid rem)"
    and "Suc (a_max a) < usize_max" and "\<exists>n'. n = Suc n'"
proof -
  from assms obtain pre where wf: "wf_funds a" and c: "chain_of dir P (a_entries a) = pre @ e # rem"
    by (auto simp: loop_ready_def)
  have "e \<in> set (chain_of dir P (a_entries a))"
    by (simp add: c)
  then show e: "e \<in> set (a_entries a)" "P e"
    by simp_all
  then show "etype e = t" "eid e \<noteq> 0" "0 < ebal e"
    "fund_by_id (concrete a) (eid e) = conc_item (a_entries a) e"
    using wf_pos [OF wf e(1)] chain_type fund_by_id_concrete [OF wf e(1)] by simp_all
  show "link (conc_item (a_entries a) e) = first_of (map eid rem)"
    by (rule chain_next [OF wf c])
  show "Suc (a_max a) < usize_max" "\<exists>n'. n = Suc n'"
    using assms by (auto simp: loop_ready_def Suc_le_D)
qed

lemma ready_skip: "loop_ready dir P (Suc n) (e # rem) a \<Longrightarrow> loop_ready dir P n rem a"
  unfolding loop_ready_def by (auto intro: exI [of _ "_ @ [e]"])

lemma ready_convert:
  assumes r: "loop_ready dir P (Suc n) (e # rem) a" and d: "fund_type_of d \<noteq> t" and x: "0 < x"
  shows "loop_ready dir P n rem (a_convert d x e a)"
proof -
  from r obtain pre where wf: "wf_funds a" and c: "chain_of dir P (a_entries a) = pre @ e # rem"
    by (auto simp: loop_ready_def)
  show ?thesis
    using r chain_convert [OF wf c d x] wf_convert [OF wf x, of d e] a_max_convert [of d x e a]
    by (auto simp: loop_ready_def)
qed

text \<open>The induction all loop proofs use: the loop stops, skips an entry or converts it.\<close>

lemma loop_induct [consumes 2, case_names stop skip convert]:
  assumes "loop_ready dir P n rem a"
    and types: "leaves t tr"
    and stop: "\<And>n k mx rem a. loop_ready dir P n rem a \<Longrightarrow> rem = [] \<or> intr k \<or> mx = Some 0 \<Longrightarrow>
      Q n k mx rem a"
    and skip: "\<And>n k mx e rem a. loop_ready dir P (Suc n) (e # rem) a \<Longrightarrow> \<not> intr k \<Longrightarrow> mx \<noteq> Some 0 \<Longrightarrow>
      tr e = None \<Longrightarrow> Q n (Suc k) mx rem a \<Longrightarrow> Q (Suc n) k mx (e # rem) a"
    and convert: "\<And>n k mx e d rem a. loop_ready dir P (Suc n) (e # rem) a \<Longrightarrow> \<not> intr k \<Longrightarrow>
      mx \<noteq> Some 0 \<Longrightarrow> tr e = Some d \<Longrightarrow> fund_type_of d \<noteq> t \<Longrightarrow> 0 < taken mx e \<Longrightarrow>
      Q n (Suc k) (left_over mx e) rem (a_convert d (taken mx e) e a) \<Longrightarrow> Q (Suc n) k mx (e # rem) a"
  shows "Q n k mx rem a"
  using assms(1)
proof (induction rem arbitrary: n k mx a)
  case Nil
  then show ?case by (simp add: stop)
next
  case (Cons e rem)
  obtain n' where n: "n = Suc n'"
    using ready_head(9) [OF Cons.prems] by blast
  note r = Cons.prems [unfolded n]
  show ?case
  proof (cases "intr k \<or> mx = Some 0")
    case True
    then show ?thesis
      using stop [OF Cons.prems] by blast
  next
    case go: False
    show ?thesis
    proof (cases "tr e")
      case None
      then show ?thesis
        unfolding n using go skip [OF r] Cons.IH [OF ready_skip [OF r]] by blast
    next
      case (Some d)
      have d: "fund_type_of d \<noteq> t" and x: "0 < taken mx e"
        using types ready_head(3) [OF r] Some taken_pos [OF ready_head(5) [OF r]] go by (auto simp: leaves_def)
      show ?thesis
        unfolding n using go convert [OF r _ _ Some d x] Cons.IH [OF ready_convert [OF r d x]] by blast
    qed
  qed
qed

lemma loop_funds_wf:
  assumes "loop_ready dir P n rem a" and "leaves t tr"
  shows "wf_funds (loop_funds tr intr k mx rem a)"
  using assms
proof (induction n k mx rem a rule: loop_induct [where intr = intr])
  case (stop n k mx rem a)
  then show ?case by (cases rem) (auto simp: loop_ready_def)
qed auto

end

lemma loop_result_stop:
  "rem = [] \<or> intr k \<or> mx = Some 0 \<Longrightarrow> loop_result tr intr k mx rem = ([], mx, 0)"
  "rem = [] \<or> intr k \<or> mx = Some 0 \<Longrightarrow> loop_funds tr intr k mx rem a = a"
  by (cases rem; auto)+

text \<open>Without a limit and without interruption no entry is left that the loop should have converted.\<close>

context fund_chain
begin

lemma loop_funds_rest:
  assumes "loop_ready dir P n rem a" and "leaves t tr" and "\<And>k. \<not> intr k" and "mx = None"
    and "e \<in> set (a_entries (loop_funds tr intr k mx rem a))" and "etype e = t" and "tr e \<noteq> None"
  shows "e \<in> set (a_entries a) \<and> e \<notin> set rem"
  using assms(1,2,4,5)
proof (induction n k mx rem a rule: loop_induct [where intr = intr])
  case (stop n k mx rem a)
  then show ?case
    using assms(3) by (auto simp: loop_result_stop)
next
  case (skip n k mx e' rem a)
  then show ?case
    using assms(7) by auto
next
  case (convert n k mx e' d rem a)
  have "taken mx e' = ebal e'" "left_over mx e' = None"
    using convert.prems by (simp_all add: taken_def left_over_def)
  then have "e \<in> set (a_entries (a_convert d (ebal e') e' a)) \<and> e \<notin> set rem"
    using convert by simp
  moreover have "wf_funds a"
    using convert.hyps(1) by (simp add: loop_ready_def)
  ultimately show ?case
    using convert_other_types [of a e d e'] convert.hyps(5) assms(6) by auto
qed

end

lemma length_visited: "length (fst (loop_result tr intr k mx rem)) \<le> length rem"
proof (induction rem arbitrary: k mx)
  case (Cons e rem)
  show ?case
    using Cons.IH [of "Suc k" mx] Cons.IH [of "Suc k" "left_over mx e"]
    by (auto split: option.splits prod.splits)
qed simp

section \<open>Refinement of the loops\<close>

lemma split_convert_by_type_loop_refines:
  assumes "loop_ready dir (of_type t) n rem a"
    and "leaves t tr"
    and tr: "\<And>es e. filter_transform (conc_item es e) = tr e"
    and "length aff + length rem \<le> MAX_AFFECTED_USERS"
  shows "split_convert_max_by_type_loop n dir filter_transform intr False k (first_of (map eid rem)) mx
      aff (concrete a) =
    (case loop_result tr intr k mx rem of (us, mx', x) \<Rightarrow>
       Inr (aff @ us, mx', concrete (loop_funds tr intr k mx rem a)))"
  using assms(1,2,4)
proof (induction n k mx rem a arbitrary: aff rule: type_chain.loop_induct [where intr = intr])
  case (stop n k mx rem a)
  then show ?case
    by (cases rem; cases n) (auto simp: loop_result_stop dest: type_chain.ready_head(9))
next
  case (skip n k mx e rem a)
  note h = type_chain.ready_head [OF skip.hyps(1)]
  have wf: "wf_funds a"
    using skip.hyps(1) by (simp add: loop_ready_def)
  show ?case
    using skip.hyps skip.prems skip.IH [of "aff @ [euser e]"] h
    by (simp add: Let_def affected_users_push_ok tr set_item_same [OF wf] split: prod.splits)
next
  case (convert n k mx e d rem a)
  note h = type_chain.ready_head [OF convert.hyps(1)]
  have wf: "wf_funds a"
    using convert.hyps(1) by (simp add: loop_ready_def)
  have d: "fund_type_of d \<noteq> etype e"
    using convert.hyps(5) h(3) by simp
  obtain it' s' where ext: "split_convert_individual_fund mx d (conc_item (a_entries a) e) (concrete a) =
      Inr (left_over mx e, it', increase_fund_balance (euser e) d (taken mx e) s')"
    and wb: "set_fund_by_id (eid e) it' (increase_fund_balance (euser e) d (taken mx e) s') =
      concrete (a_convert d (taken mx e) e a)"
    using extract_convert [OF wf h(1) convert.hyps(3) h(8) d]
    by (auto simp: split_convert_individual_fund_def)
  show ?case
    using convert.hyps convert.prems convert.IH [of "aff @ [euser e]"] h
    by (simp add: Let_def affected_users_push_ok tr ext wb split: prod.splits)
qed

text \<open>A dry run visits the same users and leaves the same rest, and changes nothing.\<close>

lemma decrease_max_amount_left_over:
  "decrease_max_amount mx (conc_item es e) = Inr (left_over mx e)"
  by (auto simp: decrease_max_amount_def left_over_def taken_def min_def split: option.splits)

lemma split_convert_by_type_loop_dry:
  assumes "wf_funds a" and "chain_of dir (of_type t) (a_entries a) = pre @ rem" and "length rem \<le> n"
    and tr: "\<And>es e. filter_transform (conc_item es e) = tr e"
    and "length aff + length rem \<le> MAX_AFFECTED_USERS"
  shows "split_convert_max_by_type_loop n dir filter_transform intr True k (first_of (map eid rem)) mx
      aff (concrete a) =
    (case loop_result tr intr k mx rem of (us, mx', x) \<Rightarrow> Inr (aff @ us, mx', concrete a))"
  using assms(2,3,5)
proof (induction rem arbitrary: n k mx pre aff)
  case Nil
  then show ?case by (cases n) simp_all
next
  case (Cons e rem)
  then obtain n' where n: "n = Suc n'" "length rem \<le> n'"
    by (cases n) auto
  have "e \<in> set (chain_of dir (of_type t) (a_entries a))"
    by (simp add: Cons.prems)
  then have e: "e \<in> set (a_entries a)"
    by simp
  have nz: "eid e \<noteq> 0"
    using wf_pos [OF assms(1) e] by simp
  show ?case
    using Cons.IH [of "pre @ [e]" n' "aff @ [euser e]" "Suc k"] Cons.prems n nz
    by (simp add: Let_def affected_users_push_ok tr fund_by_id_concrete [OF assms(1) e]
        type_chain.chain_next [OF assms(1) Cons.prems(1)] set_item_same [OF assms(1) e]
        decrease_max_amount_left_over split: prod.splits option.splits)
qed

lemma split_convert_by_user_loop_refines:
  assumes "loop_ready dir (of_user u t) n rem a" and "leaves t (\<lambda>e. filter_transform (edesc e))"
  shows "split_convert_max_by_user_loop n dir filter_transform intr k (first_of (map eid rem)) mx
      tot (concrete a) =
    (case loop_result (\<lambda>e. filter_transform (edesc e)) intr k mx rem of (us, mx', x) \<Rightarrow>
       Inr (tot + x, mx', concrete (loop_funds (\<lambda>e. filter_transform (edesc e)) intr k mx rem a)))"
  using assms
proof (induction n k mx rem a arbitrary: tot rule: user_chain.loop_induct [where intr = intr])
  case (stop n k mx rem a)
  then show ?case
    by (cases rem; cases n) (auto simp: loop_result_stop dest: user_chain.ready_head(9))
next
  case (skip n k mx e rem a)
  note h = user_chain.ready_head [OF skip.hyps(1)]
  have wf: "wf_funds a"
    using skip.hyps(1) by (simp add: loop_ready_def)
  show ?case
    using skip.hyps skip.IH [of tot] h by (simp add: Let_def set_item_same [OF wf] split: prod.splits)
next
  case (convert n k mx e d rem a)
  note h = user_chain.ready_head [OF convert.hyps(1)]
  have wf: "wf_funds a"
    using convert.hyps(1) by (simp add: loop_ready_def)
  have d: "fund_type_of d \<noteq> etype e"
    using convert.hyps(5) h(3) by simp
  obtain it' s' where ext: "(case mx of
       Some max_amount \<Rightarrow>
         bind_res (decrease_fund_balance max_amount (conc_item (a_entries a) e) (concrete a))
           (\<lambda>(extracted, m, item', s'). Inr (extracted, Some m, item', s'))
     | None \<Rightarrow>
         bind_res (delete_fund (conc_item (a_entries a) e) (concrete a))
           (\<lambda>(extracted, item', s'). Inr (extracted, None, item', s'))) =
      Inr (taken mx e, left_over mx e, it', s')" and u: "user_id it' = euser e"
    and wb: "set_fund_by_id (eid e) it' (increase_fund_balance (euser e) d (taken mx e) s') =
      concrete (a_convert d (taken mx e) e a)"
    using extract_convert [OF wf h(1) convert.hyps(3) h(8) d] by blast
  show ?case
    using convert.hyps convert.IH [of "tot + taken mx e"] h
    by (simp add: Let_def ext u wb add.assoc split: prod.splits)
qed

text \<open>
  The checkpointed loop, with a transformation that also acts on a state of its own: the
  action must succeed and keep an invariant \<open>J\<close> that may speak about both states.
\<close>

lemma split_convert_checkpoint_loop_refines:
  assumes "loop_ready dir (of_type t) n rem a" and "leaves t tr"
    and act: "\<And>a x e. wf_funds a \<Longrightarrow> e \<in> set (a_entries a) \<Longrightarrow> etype e = t \<Longrightarrow> J a x \<Longrightarrow>
      \<exists>x'. filter_transform (concrete a) x (conc_item (a_entries a) e) = Inr (tr e, x') \<and>
        J (case tr e of None \<Rightarrow> a | Some d \<Rightarrow> a_convert d (ebal e) e a) x'"
    and "J a x" and "mx = None"
  shows "\<exists>x' i. split_convert_checkpoint_loop n dir filter_transform intr k (first_of (map eid rem)) x
      (concrete a) = Inr (i, x', concrete (loop_funds tr intr k mx rem a)) \<and>
    J (loop_funds tr intr k mx rem a) x' \<and>
    (i = 0 \<or> i \<in> set (ids_where (of_type t) (a_entries (loop_funds tr intr k mx rem a))))"
  using assms(1,2,4,5)
proof (induction n k mx rem a arbitrary: x rule: type_chain.loop_induct [where intr = intr])
  case (stop n k mx rem a)
  have "first_of (map eid rem) = 0 \<or> first_of (map eid rem) \<in> set (ids_where (of_type t) (a_entries a))"
  proof (cases rem)
    case (Cons e es)
    then show ?thesis
      using type_chain.ready_head(1,2) stop.hyps(1) by (force simp: ids_where_def)
  qed simp
  then show ?case
    using stop by (cases rem; cases n) (auto simp: loop_result_stop dest: type_chain.ready_head(9))
next
  case (skip n k mx e rem a)
  note h = type_chain.ready_head [OF skip.hyps(1)]
  have wf: "wf_funds a"
    using skip.hyps(1) by (simp add: loop_ready_def)
  obtain x' where x': "filter_transform (concrete a) x (conc_item (a_entries a) e) = Inr (None, x')" "J a x'"
    using act [OF wf h(1,3) skip.prems(1)] skip.hyps(4) by auto
  show ?case
    using skip.hyps skip.IH [OF x'(2) skip.prems(2)] h x'(1) by (auto simp: Let_def set_item_same [OF wf])
next
  case (convert n k mx e d rem a)
  note h = type_chain.ready_head [OF convert.hyps(1)]
  have wf: "wf_funds a"
    using convert.hyps(1) by (simp add: loop_ready_def)
  have d: "fund_type_of d \<noteq> etype e"
    using convert.hyps h(3) by simp
  have t: "taken mx e = ebal e" "left_over mx e = None"
    using convert.prems(2) by (simp_all add: taken_def left_over_def)
  obtain it' s' where ext: "split_convert_individual_fund None d (conc_item (a_entries a) e) (concrete a) =
      Inr (None, it', increase_fund_balance (euser e) d (ebal e) s')"
    and wb: "set_fund_by_id (eid e) it' (increase_fund_balance (euser e) d (ebal e) s') =
      concrete (a_convert d (ebal e) e a)"
    using extract_convert [OF wf h(1) _ h(8) d, of mx] t convert.prems(2)
    by (auto simp: split_convert_individual_fund_def)
  obtain x' where x': "filter_transform (concrete a) x (conc_item (a_entries a) e) = Inr (Some d, x')"
    "J (a_convert d (ebal e) e a) x'"
    using act [OF wf h(1,3) convert.prems(1)] convert.hyps(4) by auto
  have "\<exists>x'' i. split_convert_checkpoint_loop n dir filter_transform intr (Suc k) (first_of (map eid rem)) x'
      (concrete (a_convert d (ebal e) e a)) =
        Inr (i, x'', concrete (loop_funds tr intr (Suc k) None rem (a_convert d (ebal e) e a))) \<and>
      J (loop_funds tr intr (Suc k) None rem (a_convert d (ebal e) e a)) x'' \<and>
      (i = 0 \<or> i \<in> set (ids_where (of_type t)
        (a_entries (loop_funds tr intr (Suc k) None rem (a_convert d (ebal e) e a)))))"
    using convert.IH [of x'] x'(2) t by simp
  then show ?case
    using convert.hyps h x'(1) by (auto simp: Let_def ext wb t)
qed

end
