(* ===== verification/Fund_Totals.thy ===== *)
theory Fund_Totals
  imports Fund_Loops
begin

text \<open>
  What the fund operations do to the amounts in the storage. \<open>sum_of Q\<close> adds up the balances
  of all entries whose user and description satisfy \<open>Q\<close>; the brute-force query of the source
  computes it on a laid-out storage, and the totals in the list heads are instances. The
  theory derives the contract of every fund operation in terms of the storage alone: it
  succeeds, keeps \<open>fund_inv\<close>, and moves exactly the amount it reports.
\<close>

section \<open>Sums over entries\<close>

definition sum_of :: "(nat \<Rightarrow> fund_description \<Rightarrow> bool) \<Rightarrow> abs_funds \<Rightarrow> nat" where
  "sum_of Q a = sum_where (\<lambda>e. Q (euser e) (edesc e)) (a_entries a)"

lemma sum_of_type: "sum_of (\<lambda>_ d. fund_type_of d = t) a = sum_where (of_type t) (a_entries a)"
  by (simp add: sum_of_def of_type_def [abs_def] etype_def)

lemma sum_of_user: "sum_of (\<lambda>v d. v = u \<and> fund_type_of d = t) a = sum_where (of_user u t) (a_entries a)"
  by (simp add: sum_of_def of_user_def [abs_def] etype_def)

lemma sum_of_disj:
  assumes "\<And>v d. Q v d \<Longrightarrow> \<not> R v d"
  shows "sum_of (\<lambda>v d. Q v d \<or> R v d) a = sum_of Q a + sum_of R a"
proof -
  have "sum_where (\<lambda>e. Q (euser e) (edesc e) \<or> R (euser e) (edesc e)) es =
    sum_where (\<lambda>e. Q (euser e) (edesc e)) es + sum_where (\<lambda>e. R (euser e) (edesc e)) es" for es
    using assms by (induction es) (auto simp: sum_where_def)
  then show ?thesis
    by (simp add: sum_of_def)
qed

lemma sum_of_append [simp]: "sum_of Q (a_append u d x a) = sum_of Q a + (if Q u d then x else 0)"
  by (simp add: sum_of_def a_append_def sum_where_append)

lemma sum_of_increase:
  assumes "wf_funds a"
  shows "sum_of Q (a_increase u d x a) = sum_of Q a + (if Q u d then x else 0)"
proof -
  let ?us = "filter (of_user u (fund_type_of d)) (a_entries a)"
  have "sum_of Q (a_set_balance (eid (last ?us)) (ebal (last ?us) + x) a) =
      sum_of Q a + (if Q u d then x else 0)" if "?us \<noteq> []" "edesc (last ?us) = d"
  proof -
    have e: "last ?us \<in> set (a_entries a)" "euser (last ?us) = u"
      using last_in_set [OF that(1)] by (auto simp: of_user_def)
    show ?thesis
      using sum_where_set_balance [OF assms e(1), of "\<lambda>e. Q (euser e) (edesc e)" "ebal (last ?us) + x"]
        e(2) that(2)
      by (auto simp: sum_of_def a_set_balance_def split: if_splits)
  qed
  then show ?thesis
    by (auto simp: a_increase_def Let_def coalesces_def)
qed

lemma sum_of_take:
  assumes "wf_funds a" and "e \<in> set (a_entries a)" and "x \<le> ebal e"
  shows "sum_of Q (a_take e x a) + (if Q (euser e) (edesc e) then x else 0) = sum_of Q a"
proof (cases "ebal e \<le> x")
  case True
  then show ?thesis
    using sum_where_remove [OF assms(1,2), of "\<lambda>e. Q (euser e) (edesc e)"] assms(3)
    by (auto simp: a_take_def a_remove_def sum_of_def)
next
  case False
  then show ?thesis
    using sum_where_set_balance [OF assms(1,2), of "\<lambda>e. Q (euser e) (edesc e)" "ebal e - x"]
    by (auto simp: a_take_def a_set_balance_def sum_of_def split: if_splits)
qed

lemma sum_of_convert:
  assumes "wf_funds a" and "e \<in> set (a_entries a)" and "0 < x" and "x \<le> ebal e"
  shows "sum_of Q (a_convert d x e a) + (if Q (euser e) (edesc e) then x else 0) =
    sum_of Q a + (if Q (euser e) d then x else 0)"
  using sum_of_take [OF assms(1,2,4), of Q] sum_of_increase [OF wf_a_take [OF assms(1,3)], of Q "euser e" d x e]
  by (auto simp: a_convert_def)

text \<open>The brute-force query over all ids is the sum over the entries.\<close>

lemma fold_if_sum: "fold (\<lambda>i sum. if p i then sum + f i else sum) xs (z :: nat) =
    z + sum_list (map (\<lambda>i. if p i then f i else 0) xs)"
  by (induction xs arbitrary: z) auto

lemma sum_where_ids:
  assumes "wf_entries m es"
  shows "sum_where P es =
    (\<Sum>i\<in>{1..m}. case entry_at es i of None \<Rightarrow> 0 | Some e \<Rightarrow> if P e then ebal e else 0)"
proof -
  have d: "distinct es" and inj: "inj_on eid (set es)"
    using wf_distinct [OF assms] by (simp_all add: distinct_map)
  have sub: "eid ` set es \<subseteq> {1..m}"
    using wf_pos [OF assms] by fastforce
  have "sum_where P es = (\<Sum>e\<in>set es. if P e then ebal e else 0)"
    using d by (simp add: sum_where_def sum_list_map_filter' sum_list_distinct_conv_sum_set)
  also have "\<dots> = (\<Sum>i\<in>eid ` set es. case entry_at es i of None \<Rightarrow> 0 | Some e \<Rightarrow> if P e then ebal e else 0)"
    using entry_at_mem [OF assms] by (simp add: sum.reindex [OF inj])
  also have "\<dots> = (\<Sum>i\<in>{1..m}. case entry_at es i of None \<Rightarrow> 0 | Some e \<Rightarrow> if P e then ebal e else 0)"
    by (rule sum.mono_neutral_left [OF _ sub]) (auto simp: entry_at_None [symmetric])
  finally show ?thesis .
qed

lemma brute_force_concrete:
  assumes "wf_funds a"
  shows "query_sum_all_funds_brute_force (concrete a) Q = sum_of Q a"
proof -
  let ?g = "\<lambda>i. let it = fund_by_id (concrete a) i in if Q (user_id it) (fund_desc it) then balance it else 0"
  have "query_sum_all_funds_brute_force (concrete a) Q = sum_list (map ?g [1..<Suc (a_max a)])"
    by (simp add: query_sum_all_funds_brute_force_def Let_def fold_if_sum)
  also have "\<dots> = (\<Sum>i\<in>{1..a_max a}. ?g i)"
    by (simp add: sum_list_distinct_conv_sum_set atLeastLessThanSuc_atLeastAtMost del: upt_Suc)
  also have "\<dots> = sum_of Q a"
    unfolding sum_of_def sum_where_ids [OF assms]
    by (rule sum.cong) (auto simp: fund_by_id_def split: option.splits)
  finally show ?thesis .
qed

section \<open>The loops\<close>

lemma loop_result_bound:
  "loop_result tr intr k (Some m) rem = (us, mx', x) \<Longrightarrow> x \<le> m \<and> mx' = Some (m - x)"
proof (induction rem arbitrary: k m us mx' x)
  case (Cons e rem)
  show ?case
  proof (cases "intr k \<or> m = 0")
    case False
    obtain us1 m1 x1 us2 m2 x2 where
      r: "loop_result tr intr (Suc k) (Some m) rem = (us1, m1, x1)"
        "loop_result tr intr (Suc k) (Some (m - min m (ebal e))) rem = (us2, m2, x2)"
      by (metis prod_cases3)
    show ?thesis
      using Cons.prems False Cons.IH [OF r(1)] Cons.IH [OF r(2)] r
      by (auto simp: left_over_def taken_def min_def split: option.splits if_splits)
  qed (use Cons.prems in auto)
qed simp

text \<open>Without interrupt and filter the loop moves as much as the limit and the list allow.\<close>

lemma loop_result_amount:
  assumes "\<And>k. \<not> intr k" and "\<And>e. e \<in> set rem \<Longrightarrow> tr e \<noteq> None"
  shows "snd (snd (loop_result tr intr k mx rem)) =
    (case mx of None \<Rightarrow> sum_list (map ebal rem) | Some m \<Rightarrow> min m (sum_list (map ebal rem)))"
  using assms(2)
proof (induction rem arbitrary: k mx)
  case (Cons e rem)
  obtain d where d: "tr e = Some d"
    using Cons.prems [of e] by auto
  have t: "\<And>f. f \<in> set rem \<Longrightarrow> tr f \<noteq> None"
    using Cons.prems by auto
  show ?case
    using Cons.IH [OF t, of "Suc k" "left_over mx e"] assms(1) d
    by (auto simp: left_over_def taken_def min_def split: option.splits prod.splits)
qed (simp split: option.split)

lemma loop_result_all:
  assumes "\<And>k. \<not> intr k"
  shows "fst (loop_result tr intr k None rem) = map euser rem" "fst (snd (loop_result tr intr k None rem)) = None"
  using assms by (induction rem arbitrary: k)
    (auto simp: left_over_def taken_def case_prod_unfold Let_def split: option.splits)

lemma loop_result_users: "set (fst (loop_result tr intr k mx rem)) \<subseteq> euser ` set rem"
proof (induction rem arbitrary: k mx)
  case (Cons e rem)
  show ?case
    using Cons.IH [of "Suc k" mx] Cons.IH [of "Suc k" "left_over mx e"]
    by (auto simp: case_prod_unfold Let_def split: option.splits)
qed simp

context fund_chain
begin

text \<open>The amounts after a loop: \<open>Q\<close> loses what left entries that satisfy it, and gains what came.\<close>

lemma loop_sums:
  assumes "loop_ready dir P n rem a" and "leaves t tr"
    and out: "\<And>e d. P e \<Longrightarrow> tr e = Some d \<Longrightarrow> Q (euser e) (edesc e) = (q_from :: bool)"
    and into: "\<And>e d. P e \<Longrightarrow> tr e = Some d \<Longrightarrow> Q (euser e) d = (q_to :: bool)"
  shows "sum_of Q (loop_funds tr intr k mx rem a) +
      (if q_from then snd (snd (loop_result tr intr k mx rem)) else 0) =
    sum_of Q a + (if q_to then snd (snd (loop_result tr intr k mx rem)) else 0)"
  using assms(1,2)
proof (induction n k mx rem a rule: loop_induct [where intr = intr])
  case (stop n k mx rem a)
  then show ?case by (simp add: loop_result_stop)
next
  case (skip n k mx e rem a)
  then show ?case by (auto simp: case_prod_unfold Let_def split: if_splits)
next
  case (convert n k mx e d rem a)
  note h = ready_head [OF convert.hyps(1)]
  have wf: "wf_funds a"
    using convert.hyps(1) by (simp add: loop_ready_def)
  show ?case
    using sum_of_convert [OF wf h(1) convert.hyps(6) taken_le, of Q d] convert.hyps convert.IH
      out [OF h(2) convert.hyps(4)] into [OF h(2) convert.hyps(4)]
    by (auto simp: case_prod_unfold Let_def split: if_splits)
qed

lemma loop_sums_kept:
  assumes "loop_ready dir P n rem a" and "leaves t tr"
    and same: "\<And>e d. P e \<Longrightarrow> tr e = Some d \<Longrightarrow> Q (euser e) d = Q (euser e) (edesc e)"
  shows "sum_of Q (loop_funds tr intr k mx rem a) = sum_of Q a"
  using assms(1,2)
proof (induction n k mx rem a rule: loop_induct [where intr = intr])
  case (convert n k mx e d rem a)
  note h = ready_head [OF convert.hyps(1)]
  have wf: "wf_funds a"
    using convert.hyps(1) by (simp add: loop_ready_def)
  show ?case
    using sum_of_convert [OF wf h(1) convert.hyps(6) taken_le, of Q d] convert.hyps convert.IH
      same [OF h(2) convert.hyps(4)]
    by (auto split: if_splits)
qed (simp_all add: loop_result_stop)

lemma loop_max:
  assumes "loop_ready dir P n rem a" and "leaves t tr"
  shows "a_max (loop_funds tr intr k mx rem a) \<le> a_max a + length rem"
  using assms
proof (induction n k mx rem a rule: loop_induct [where intr = intr])
  case (convert n k mx e d rem a)
  then show ?case
    using a_max_convert [of d "taken mx e" e a] by simp
qed (simp_all add: loop_result_stop)

text \<open>One user: the source type only loses, and a user the loop did not visit keeps everything.\<close>

lemma loop_sums_mono:
  assumes "loop_ready dir P n rem a" and "leaves t tr"
    and into: "\<And>e d. P e \<Longrightarrow> tr e = Some d \<Longrightarrow> \<not> Q (euser e) d"
  shows "sum_of Q (loop_funds tr intr k mx rem a) \<le> sum_of Q a"
  using assms(1,2)
proof (induction n k mx rem a rule: loop_induct [where intr = intr])
  case (convert n k mx e d rem a)
  note h = ready_head [OF convert.hyps(1)]
  have wf: "wf_funds a"
    using convert.hyps(1) by (simp add: loop_ready_def)
  show ?case
    using sum_of_convert [OF wf h(1) convert.hyps(6) taken_le, of Q d] convert.hyps convert.IH
      into [OF h(2) convert.hyps(4)]
    by (auto split: if_splits)
qed (simp_all add: loop_result_stop)

lemma loop_sums_unvisited:
  assumes "loop_ready dir P n rem a" and "leaves t tr" and Q: "\<And>v d. Q v d \<Longrightarrow> v = u"
    and "u \<notin> set (fst (loop_result tr intr k mx rem))"
  shows "sum_of Q (loop_funds tr intr k mx rem a) = sum_of Q a"
  using assms(1,2,4)
proof (induction n k mx rem a rule: loop_induct [where intr = intr])
  case (convert n k mx e d rem a)
  note h = ready_head [OF convert.hyps(1)]
  have wf: "wf_funds a"
    using convert.hyps(1) by (simp add: loop_ready_def)
  have u: "u \<noteq> euser e" "u \<notin> set (fst (loop_result tr intr (Suc k) (left_over mx e) rem))"
    using convert.prems convert.hyps by (auto simp: case_prod_unfold Let_def)
  then show ?case
    using sum_of_convert [OF wf h(1) convert.hyps(6) taken_le, of Q d] convert.hyps convert.IH Q
    by (auto split: if_splits)
qed (auto simp: loop_result_stop case_prod_unfold Let_def)

end

section \<open>Numbers of items\<close>

definition items_where :: "fund_storage \<Rightarrow> (fund_item \<Rightarrow> bool) \<Rightarrow> nat" where
  "items_where s P = length (filter (\<lambda>i. case fs_by_id s i of None \<Rightarrow> False | Some it \<Rightarrow> P it)
     [1..<Suc (fs_max_id s)])"

definition type_items :: "fund_storage \<Rightarrow> fund_type \<Rightarrow> nat" where
  "type_items s t = items_where s (\<lambda>it. fund_type_of (fund_desc it) = t)"

definition user_items :: "fund_storage \<Rightarrow> nat \<Rightarrow> fund_type \<Rightarrow> nat" where
  "user_items s u t = items_where s (\<lambda>it. user_id it = u \<and> fund_type_of (fund_desc it) = t)"

lemma items_where_concrete:
  assumes wf: "wf_funds a"
  shows "items_where (concrete a) P = length (filter (\<lambda>e. P (conc_item (a_entries a) e)) (a_entries a))"
proof -
  let ?p = "\<lambda>i. case fs_by_id (concrete a) i of None \<Rightarrow> False | Some it \<Rightarrow> P it"
  let ?es = "filter (\<lambda>e. P (conc_item (a_entries a) e)) (a_entries a)"
  have "distinct (map eid ?es)"
    using wf_distinct [OF wf] by (metis distinct_map_filter)
  then have "length ?es = card (eid ` set ?es)"
    using distinct_card [of "map eid ?es"] by simp
  also have "eid ` set ?es = set (filter ?p [1..<Suc (a_max a)])"
  proof -
    have "i \<in> eid ` set ?es \<longleftrightarrow> i \<in> set (filter ?p [1..<Suc (a_max a)])" for i
    proof (cases "entry_at (a_entries a) i")
      case None
      then have "i \<notin> eid ` set (a_entries a)"
        by (simp add: entry_at_None)
      then show ?thesis
        using None by auto
    next
      case (Some e)
      have e: "e \<in> set (a_entries a)" "eid e = i"
        using entry_at_Some [OF Some] by simp_all
      have "eid e \<in> set (ids_where (\<lambda>e. P (conc_item (a_entries a) e)) (a_entries a)) \<longleftrightarrow>
          P (conc_item (a_entries a) e)"
        by (rule ids_where_mem [OF wf e(1)])
      then show ?thesis
        using e wf_pos [OF wf e(1)] Some by (simp add: ids_where_def Suc_le_eq less_Suc_eq_le del: upt_Suc)
    qed
    then show ?thesis
      by blast
  qed
  also have "card \<dots> = items_where (concrete a) P"
    unfolding items_where_def by (subst distinct_card) (simp_all del: upt_Suc)
  finally show ?thesis
    by simp
qed

lemma type_items_concrete:
  "wf_funds a \<Longrightarrow> type_items (concrete a) t = length (filter (of_type t) (a_entries a))"
  by (simp add: type_items_def items_where_concrete of_type_def [abs_def] etype_def)

lemma user_items_concrete:
  "wf_funds a \<Longrightarrow> user_items (concrete a) u t = length (filter (of_user u t) (a_entries a))"
  by (simp add: user_items_def items_where_concrete of_user_def [abs_def] etype_def)

lemma length_filter_set_balance:
  "length (filter (of_type r) (set_entry_balance i b es)) = length (filter (of_type r) es)"
  by (induction es) (auto simp: set_entry_balance_def)

lemma items_take:
  "length (filter (of_type r) (a_entries (a_take e x a))) \<le> length (filter (of_type r) (a_entries a))"
  unfolding a_take_def a_remove_def a_set_balance_def
  using length_filter_le [of "\<lambda>f. eid f \<noteq> eid e" "filter (of_type r) (a_entries a)"]
  by (simp add: length_filter_set_balance remove_entry_def conj_commute)

lemma items_increase:
  "length (filter (of_type r) (a_entries (a_increase u d x a))) \<le>
     length (filter (of_type r) (a_entries a)) + (if r = fund_type_of d then 1 else 0)"
  by (auto simp: a_increase_def Let_def a_set_balance_def a_append_def length_filter_set_balance of_type_def etype_def)

lemma items_convert:
  "length (filter (of_type r) (a_entries (a_convert d x e a))) \<le>
     length (filter (of_type r) (a_entries a)) + (if r = fund_type_of d then 1 else 0)"
  unfolding a_convert_def using items_increase [of r "euser e" d x "a_take e x a"] items_take [of r e x a]
  by linarith

context fund_chain
begin

lemma loop_items:
  assumes "loop_ready dir P n rem a" and "leaves t tr"
    and into: "\<And>e d. P e \<Longrightarrow> tr e = Some d \<Longrightarrow> fund_type_of d = t'"
  shows "length (filter (of_type r) (a_entries (loop_funds tr intr k mx rem a))) \<le>
    length (filter (of_type r) (a_entries a)) + (if r = t' then length rem else 0)"
  using assms(1,2)
proof (induction n k mx rem a rule: loop_induct [where intr = intr])
  case (convert n k mx e d rem a)
  have "fund_type_of d = t'"
    by (rule into [OF ready_head(2) [OF convert.hyps(1)] convert.hyps(4)])
  then show ?case
    using items_convert [of r d "taken mx e" e a] convert.hyps convert.IH by (simp split: if_splits)
next
  case (skip n k mx e rem a)
  then show ?case by (simp split: if_splits)
qed (simp_all add: loop_result_stop)

end

section \<open>Amounts in the storage\<close>

definition type_total :: "fund_storage \<Rightarrow> fund_type \<Rightarrow> nat" where
  "type_total s t = total_balance (fund_list_by_type s t)"

definition user_total :: "fund_storage \<Rightarrow> nat \<Rightarrow> fund_type \<Rightarrow> nat" where
  "user_total s u t = total_balance (fund_list_by_user s u t)"

lemma type_total_concrete [simp]: "type_total (concrete a) t = sum_of (\<lambda>_ d. fund_type_of d = t) a"
  by (simp add: type_total_def sum_of_type)

lemma user_total_concrete [simp]:
  "user_total (concrete a) u t = sum_of (\<lambda>v d. v = u \<and> fund_type_of d = t) a"
  by (simp add: user_total_def sum_of_user)

text \<open>
  Enough unused ids: a loop gives out at most one new id for every item it visits, so that
  with \<open>id_room n\<close> before it, \<open>n\<close> even, there is \<open>id_room (n div 2)\<close> after it.
\<close>

definition id_room :: "nat \<Rightarrow> fund_storage \<Rightarrow> bool" where
  "id_room n s \<longleftrightarrow> n * Suc (fs_max_id s) < usize_max"

lemma id_room_step: "id_room (2 * n) s \<Longrightarrow> fs_max_id s' \<le> Suc (2 * fs_max_id s) \<Longrightarrow> id_room n s'"
  unfolding id_room_def
  by (rule le_less_trans [of _ "n * Suc (Suc (2 * fs_max_id s))"])
    (simp_all del: mult_Suc_right add: mult_le_mono2, simp add: algebra_simps)

lemma id_room_mono: "id_room n s \<Longrightarrow> m \<le> n \<Longrightarrow> id_room m s"
  unfolding id_room_def by (meson le_less_trans mult_le_mono1)

text \<open>
  A conversion of \<open>x\<close> from one fund type into another, for some of the users, with at most
  \<open>n\<close> new items: what every swap of the contract promises.
\<close>

definition converts ::
  "nat set \<Rightarrow> nat \<Rightarrow> fund_type \<Rightarrow> fund_type \<Rightarrow> nat \<Rightarrow> fund_storage \<Rightarrow> fund_storage \<Rightarrow> bool" where
  "converts us n t t' x s s' \<longleftrightarrow>
     fund_inv s' \<and> fs_max_id s' \<le> Suc (2 * fs_max_id s) \<and>
     (\<forall>r. type_items s' r \<le> type_items s r + (if r = t' then n else 0)) \<and>
     type_total s' t + x = type_total s t \<and> type_total s' t' = type_total s t' + x \<and>
     (\<forall>r. r \<noteq> t \<longrightarrow> r \<noteq> t' \<longrightarrow> type_total s' r = type_total s r) \<and>
     (\<forall>u. user_total s' u t \<le> user_total s u t \<and>
          user_total s' u t + user_total s' u t' = user_total s u t + user_total s u t' \<and>
          (\<forall>r. r \<noteq> t \<longrightarrow> r \<noteq> t' \<longrightarrow> user_total s' u r = user_total s u r) \<and>
          (u \<notin> us \<longrightarrow> (\<forall>r. user_total s' u r = user_total s u r)))"

lemma convertsD:
  assumes "converts us n t t' x s s'"
  shows "fund_inv s'" "type_total s' t + x = type_total s t" "type_total s' t' = type_total s t' + x"
    "r \<noteq> t \<Longrightarrow> r \<noteq> t' \<Longrightarrow> type_total s' r = type_total s r"
    "user_total s' u t \<le> user_total s u t"
    "user_total s' u t + user_total s' u t' = user_total s u t + user_total s u t'"
    "r \<noteq> t \<Longrightarrow> r \<noteq> t' \<Longrightarrow> user_total s' u r = user_total s u r"
    "u \<notin> us \<Longrightarrow> user_total s' u r = user_total s u r"
    "fs_max_id s' \<le> Suc (2 * fs_max_id s)"
    "type_items s' r \<le> type_items s r + (if r = t' then n else 0)"
  using assms by (auto simp: converts_def)

lemma converts_mono: "converts us n t t' x s s' \<Longrightarrow> us \<subseteq> vs \<Longrightarrow> converts vs n t t' x s s'"
  unfolding converts_def by blast

lemma converts_items: "converts us n t t' x s s' \<Longrightarrow> n \<le> m \<Longrightarrow> converts us m t t' x s s'"
  unfolding converts_def by (auto intro: order_trans split: if_splits)

text \<open>A transformation into one fund type, given by the description of the fund.\<close>

definition maps_type :: "fund_type \<Rightarrow> fund_type \<Rightarrow> (fund_entry \<Rightarrow> fund_description option) \<Rightarrow> bool" where
  "maps_type t t' tr \<longleftrightarrow> t \<noteq> t' \<and> (\<forall>e d. etype e = t \<longrightarrow> tr e = Some d \<longrightarrow> fund_type_of d = t')"

lemma maps_type_leaves: "maps_type t t' tr \<Longrightarrow> leaves t tr"
  by (auto simp: maps_type_def leaves_def)

context fund_chain
begin

lemma loop_converts:
  assumes ready: "loop_ready dir P n rem a" and tr: "maps_type t t' tr"
    and short: "length rem \<le> a_max a"
  shows "converts (set (fst (loop_result tr intr k mx rem))) (length rem) t t'
    (snd (snd (loop_result tr intr k mx rem))) (concrete a) (concrete (loop_funds tr intr k mx rem a))"
proof -
  note l = maps_type_leaves [OF tr]
  have wf: "wf_funds (loop_funds tr intr k mx rem a)"
    by (rule loop_funds_wf [OF ready l])
  have ty: "t \<noteq> t'" "P e \<Longrightarrow> fund_type_of (edesc e) = t"
    "P e \<Longrightarrow> tr e = Some d \<Longrightarrow> fund_type_of d = t'" for e d
    using tr chain_type by (auto simp: maps_type_def etype_def)
  note kept = loop_sums_kept [OF ready l] and sums = loop_sums [OF ready l]
  show ?thesis
    unfolding converts_def
  proof (intro conjI allI impI)
    show "fund_inv (concrete (loop_funds tr intr k mx rem a))"
      unfolding fund_inv_def using wf by blast
    show "fs_max_id (concrete (loop_funds tr intr k mx rem a)) \<le> Suc (2 * fs_max_id (concrete a))"
      using loop_max [OF ready l, of intr k mx] short by simp
    show "type_total (concrete (loop_funds tr intr k mx rem a)) t + snd (snd (loop_result tr intr k mx rem)) =
      type_total (concrete a) t"
      using sums [of "\<lambda>_ d. fund_type_of d = t" True False intr k mx] ty by auto
    show "type_total (concrete (loop_funds tr intr k mx rem a)) t' =
      type_total (concrete a) t' + snd (snd (loop_result tr intr k mx rem))"
      using sums [of "\<lambda>_ d. fund_type_of d = t'" False True intr k mx] ty by auto
    fix u r
    have "wf_funds a"
      using ready by (simp add: loop_ready_def)
    then show "type_items (concrete (loop_funds tr intr k mx rem a)) r \<le>
      type_items (concrete a) r + (if r = t' then length rem else 0)"
      using loop_items [OF ready l ty(3), where r = r and intr = intr and k = k and mx = mx] wf by (simp add: type_items_concrete)
    show "user_total (concrete (loop_funds tr intr k mx rem a)) u t \<le> user_total (concrete a) u t"
      using loop_sums_mono [OF ready l, of "\<lambda>v d. v = u \<and> fund_type_of d = t" intr k mx] ty by auto
    have both: "sum_of (\<lambda>v d. v = u \<and> fund_type_of d = t) b + sum_of (\<lambda>v d. v = u \<and> fund_type_of d = t') b =
      sum_of (\<lambda>v d. v = u \<and> (fund_type_of d = t \<or> fund_type_of d = t')) b" for b
      using ty(1) by (subst sum_of_disj [symmetric]) (auto intro: arg_cong [where f = "\<lambda>Q. sum_of Q b"])
    show "user_total (concrete (loop_funds tr intr k mx rem a)) u t +
        user_total (concrete (loop_funds tr intr k mx rem a)) u t' =
      user_total (concrete a) u t + user_total (concrete a) u t'"
      unfolding user_total_concrete both by (rule kept) (use ty in auto)
    show "user_total (concrete (loop_funds tr intr k mx rem a)) u r = user_total (concrete a) u r"
      if "u \<notin> set (fst (loop_result tr intr k mx rem))"
      unfolding user_total_concrete by (rule loop_sums_unvisited [OF ready l _ that]) auto
    assume "r \<noteq> t" "r \<noteq> t'"
    then show "type_total (concrete (loop_funds tr intr k mx rem a)) r = type_total (concrete a) r"
      "user_total (concrete (loop_funds tr intr k mx rem a)) u r = user_total (concrete a) u r"
      using kept [of "\<lambda>_ d. fund_type_of d = r" intr k mx] kept [of "\<lambda>v d. v = u \<and> fund_type_of d = r" intr k mx] ty
      by auto
  qed
qed

end

end
