(* ===== verification/Fund_Contracts.thy ===== *)
theory Fund_Contracts
  imports Fund_Totals
begin

text \<open>
  The fund module's contract, in terms of the concrete storage only: on a storage that
  satisfies \<open>fund_inv\<close> every operation returns, keeps the invariant, and changes the totals by
  the amount it reports. The queries agree with each other. The contract's own modules rest
  on these facts.
\<close>

section \<open>Starting points\<close>

lemma first_id_of_type_concrete:
  "first_id_of_type (concrete a) t dir = first_of (map eid (chain_of dir (of_type t) (a_entries a)))"
  by (cases dir) (simp_all add: first_id_of_type_def chain_of_def ids_where_def last_of_def rev_map)

lemma first_id_of_user_type_concrete:
  "first_id_of_user_type (concrete a) u t dir = first_of (map eid (chain_of dir (of_user u t) (a_entries a)))"
  by (cases dir) (simp_all add: first_id_of_user_type_def chain_of_def ids_where_def last_of_def rev_map)

lemma sum_list_chain: "sum_list (map ebal (chain_of dir P es)) = sum_where P es"
  by (cases dir) (simp_all add: chain_of_def sum_where_def rev_map [symmetric])

lemma fund_invE:
  assumes "fund_inv s"
  obtains a where "wf_funds a" "s = concrete a"
  using assms unfolding fund_inv_def by blast

lemma fund_inv_concrete [intro]: "wf_funds a \<Longrightarrow> fund_inv (concrete a)"
  unfolding fund_inv_def by blast

lemma ready_start:
  assumes "wf_funds a" and "id_room 2 (concrete a)"
  shows "loop_ready dir P (loop_fuel (concrete a)) (chain_of dir P (a_entries a)) a"
  using assms length_chain_of [OF assms(1), of dir P]
  by (intro loop_ready_start) (simp_all add: id_room_def)

section \<open>Queries\<close>

text \<open>A forward query is a fold over the entries of its list, whatever it computes.\<close>

lemma traverse_type_concrete:
  assumes "wf_funds a"
  shows "traverse (loop_fuel (concrete a)) (concrete a) type_list_next body
      (list_first (fund_list_by_type (concrete a) t)) acc =
    Inr (fold (\<lambda>e. body (conc_item (a_entries a) e)) (filter (of_type t) (a_entries a)) acc)"
  using type_chain.traverse_chain [OF assms, where dir = Forwards and pre = "[]" and n = "Suc (a_max a)"
      and rem = "filter (of_type t) (a_entries a)" and body = body and acc = acc]
    length_chain_of [OF assms, of Forwards "of_type t"]
  by (simp add: chain_of_def loop_fuel_def ids_where_def next_in_type_list_def [abs_def]
      del: traverse.simps)

lemma traverse_user_concrete:
  assumes "wf_funds a"
  shows "traverse (loop_fuel (concrete a)) (concrete a) user_list_next body
      (list_first (fund_list_by_user (concrete a) u t)) acc =
    Inr (fold (\<lambda>e. body (conc_item (a_entries a) e)) (filter (of_user u t) (a_entries a)) acc)"
  using user_chain.traverse_chain [OF assms, where dir = Forwards and pre = "[]" and n = "Suc (a_max a)"
      and rem = "filter (of_user u t) (a_entries a)" and body = body and acc = acc]
    length_chain_of [OF assms, of Forwards "of_user u t"]
  by (simp add: chain_of_def loop_fuel_def ids_where_def next_in_user_list_def [abs_def]
      del: traverse.simps)

lemma sum_list_filter_if: "sum_list (map (\<lambda>e. if p e then f e else (0::nat)) xs) = sum_list (map f (filter p xs))"
  by (induction xs) auto

lemma query_by_type_concrete:
  assumes "wf_funds a"
  shows "query_sum_funds_by_type (concrete a) t flt = Inr (sum_of (\<lambda>u d. fund_type_of d = t \<and> flt u d) a)"
  unfolding query_sum_funds_by_type_def traverse_type_concrete [OF assms]
  by (simp add: fold_if_sum sum_list_filter_if sum_of_def sum_where_def of_type_def etype_def conj_commute)

lemma query_by_user_concrete:
  assumes "wf_funds a"
  shows "query_sum_funds_by_user_type (concrete a) u t flt =
    Inr (sum_of (\<lambda>v d. v = u \<and> fund_type_of d = t \<and> flt d) a)"
  unfolding query_sum_funds_by_user_type_def traverse_user_concrete [OF assms]
  by (simp add: fold_if_sum sum_list_filter_if sum_of_def sum_where_def of_user_def etype_def conj_ac)

lemma fold_count:
  "z + length xs < usize_max \<Longrightarrow>
     fold (\<lambda>e n. if p e then usize_add n 1 else n) xs z = z + length (filter p xs)"
proof (induction xs arbitrary: z)
  case (Cons x xs)
  then show ?case
    by (simp add: usize_add_small)
qed simp

lemma count_by_type_concrete:
  assumes "wf_funds a" and "id_room 1 (concrete a)"
  shows "count_fund_items_by_type (concrete a) t flt =
    Inr (length (filter (\<lambda>e. etype e = t \<and> flt (conc_item (a_entries a) e)) (a_entries a)))"
proof -
  have "length (filter (of_type t) (a_entries a)) < usize_max"
    using length_chain_of [OF assms(1), of Forwards "of_type t"] assms(2)
    by (simp add: chain_of_def id_room_def)
  then show ?thesis
    unfolding count_fund_items_by_type_def traverse_type_concrete [OF assms(1)]
    using fold_count [of 0 "filter (of_type t) (a_entries a)" "\<lambda>e. flt (conc_item (a_entries a) e)"]
    by (simp add: of_type_def conj_commute)
qed

section \<open>Conversions\<close>

text \<open>Few enough items that the vector of affected users cannot overflow.\<close>

definition few_items :: "fund_storage \<Rightarrow> fund_type \<Rightarrow> bool" where
  "few_items s t \<longleftrightarrow> type_items s t \<le> MAX_AFFECTED_USERS"

lemma length_chain_type: "wf_funds a \<Longrightarrow> length (chain_of dir (of_type t) (a_entries a)) = type_items (concrete a) t"
  by (cases dir) (simp_all add: type_items_concrete chain_of_def)

lemma length_chain_user:
  "wf_funds a \<Longrightarrow> length (chain_of dir (of_user u t) (a_entries a)) = user_items (concrete a) u t"
  by (cases dir) (simp_all add: user_items_concrete chain_of_def)

text \<open>The transformation of a fund depends on its description only.\<close>

definition swaps :: "fund_type \<Rightarrow> fund_type \<Rightarrow> (fund_description \<Rightarrow> fund_description option) \<Rightarrow> bool" where
  "swaps t t' g \<longleftrightarrow> t \<noteq> t' \<and> (\<forall>d d'. fund_type_of d = t \<longrightarrow> g d = Some d' \<longrightarrow> fund_type_of d' = t')"

lemma swaps_maps_type: "swaps t t' g \<Longrightarrow> maps_type t t' (\<lambda>e. g (edesc e))"
  by (simp add: swaps_def maps_type_def etype_def)

lemma split_convert_max_by_type_run:
  assumes inv: "fund_inv s" and room: "id_room 2 s" and few: "few_items s t" and g: "swaps t t' g"
  shows "\<exists>us mx' s' x.
    split_convert_max_by_type mx t dir (\<lambda>it. g (fund_desc it)) intr False s = Inr (us, mx', s') \<and>
    split_convert_max_by_type mx t dir (\<lambda>it. g (fund_desc it)) intr True s = Inr (us, mx', s) \<and>
    converts (set us) (type_items s t) t t' x s s' \<and> (\<forall>u\<in>set us. 0 < user_total s u t) \<and>
    (case mx of None \<Rightarrow> True | Some m \<Rightarrow> x \<le> m \<and> mx' = Some (m - x)) \<and>
    ((\<forall>k. \<not> intr k) \<longrightarrow> (\<forall>d. fund_type_of d = t \<longrightarrow> g d \<noteq> None) \<longrightarrow>
       x = (case mx of None \<Rightarrow> type_total s t | Some m \<Rightarrow> min m (type_total s t)))"
proof -
  from inv obtain a where wf: "wf_funds a" and s: "s = concrete a"
    by (rule fund_invE)
  let ?tr = "\<lambda>e. g (edesc e)" and ?rem = "chain_of dir (of_type t) (a_entries a)"
  obtain us mx' x where r: "loop_result ?tr intr 0 mx ?rem = (us, mx', x)"
    by (metis prod_cases3)
  note ready = ready_start [OF wf room [unfolded s], of dir "of_type t"]
  have len: "length ?rem \<le> MAX_AFFECTED_USERS"
    using few s length_chain_type [OF wf] by (simp add: few_items_def)
  have fuel: "length ?rem \<le> loop_fuel (concrete a)" "length ?rem \<le> a_max a"
    using length_chain_of [OF wf, of dir "of_type t"] by (simp_all add: loop_fuel_def)
  note tr = swaps_maps_type [OF g]
  have real: "split_convert_max_by_type mx t dir (\<lambda>it. g (fund_desc it)) intr False s =
    Inr (affected_users_sort_dedup us, mx', concrete (loop_funds ?tr intr 0 mx ?rem a))"
    using split_convert_by_type_loop_refines [OF ready maps_type_leaves [OF tr], of "\<lambda>it. g (fund_desc it)" "[]" intr 0 mx]
      len by (simp add: split_convert_max_by_type_def s first_id_of_type_concrete r)
  have dry: "split_convert_max_by_type mx t dir (\<lambda>it. g (fund_desc it)) intr True s =
    Inr (affected_users_sort_dedup us, mx', s)"
    using split_convert_by_type_loop_dry [OF wf _ fuel(1), of dir t "[]" "\<lambda>it. g (fund_desc it)" ?tr "[]" intr 0 mx]
      len by (simp add: split_convert_max_by_type_def s first_id_of_type_concrete r)
  have conv: "converts (set us) (type_items s t) t t' x s (concrete (loop_funds ?tr intr 0 mx ?rem a))"
    using type_chain.loop_converts [OF ready tr fuel(2), of intr 0 mx] r s length_chain_type [OF wf] by simp
  have users: "0 < user_total s u t" if "u \<in> set us" for u
  proof -
    have "u \<in> euser ` set ?rem"
      using loop_result_users [of ?tr intr 0 mx ?rem] r that by auto
    then obtain e where e: "e \<in> set (a_entries a)" "of_user u t e"
      by (auto simp: of_type_def of_user_def)
    then show ?thesis
      using sum_where_ge [of e "a_entries a" "of_user u t", OF e] wf_pos [OF wf e(1)] by (simp add: s sum_of_user)
  qed
  have "type_total s t = sum_list (map ebal ?rem)"
    by (simp add: s sum_list_chain sum_of_type)
  then have amount: "x = (case mx of None \<Rightarrow> type_total s t | Some m \<Rightarrow> min m (type_total s t))"
    if "\<forall>k. \<not> intr k" "\<forall>d. fund_type_of d = t \<longrightarrow> g d \<noteq> None"
    using loop_result_amount [of intr ?rem ?tr 0 mx] that r by (auto simp: of_type_def etype_def split: option.splits)
  have limit: "case mx of None \<Rightarrow> True | Some m \<Rightarrow> x \<le> m \<and> mx' = Some (m - x)"
    using loop_result_bound r by (auto split: option.split)
  show ?thesis
    using real dry conv amount limit users
    by (intro exI [of _ "affected_users_sort_dedup us"] exI [of _ mx'] exI [of _ x]
        exI [of _ "concrete (loop_funds ?tr intr 0 mx ?rem a)"]) simp
qed

lemma split_convert_max_by_user_run:
  assumes inv: "fund_inv s" and room: "id_room 2 s" and g: "swaps t t' g"
  shows "\<exists>x mx' s'. split_convert_max_by_user mx u t dir g intr s = Inr (x, mx', s') \<and>
    converts {u} (user_items s u t) t t' x s s' \<and>
    (case mx of None \<Rightarrow> True | Some m \<Rightarrow> x \<le> m \<and> mx' = Some (m - x)) \<and>
    ((\<forall>k. \<not> intr k) \<longrightarrow> (\<forall>d. fund_type_of d = t \<longrightarrow> g d \<noteq> None) \<longrightarrow>
       x = (case mx of None \<Rightarrow> user_total s u t | Some m \<Rightarrow> min m (user_total s u t)))"
proof -
  from inv obtain a where wf: "wf_funds a" and s: "s = concrete a"
    by (rule fund_invE)
  let ?tr = "\<lambda>e. g (edesc e)" and ?rem = "chain_of dir (of_user u t) (a_entries a)"
  obtain us mx' x where r: "loop_result ?tr intr 0 mx ?rem = (us, mx', x)"
    by (metis prod_cases3)
  note ready = ready_start [OF wf room [unfolded s], of dir "of_user u t"]
  have short: "length ?rem \<le> a_max a"
    using length_chain_of [OF wf, of dir "of_user u t"] .
  note tr = swaps_maps_type [OF g]
  have run: "split_convert_max_by_user mx u t dir g intr s =
    Inr (x, mx', concrete (loop_funds ?tr intr 0 mx ?rem a))"
    using split_convert_by_user_loop_refines [OF ready maps_type_leaves [OF tr], of intr 0 mx 0]
    by (simp add: split_convert_max_by_user_def s first_id_of_user_type_concrete r)
  have us: "set us \<subseteq> {u}"
    using loop_result_users [of ?tr intr 0 mx ?rem] r by (auto simp: of_user_def)
  have conv: "converts {u} (user_items s u t) t t' x s (concrete (loop_funds ?tr intr 0 mx ?rem a))"
    by (rule converts_mono [OF _ us]) 
      (use user_chain.loop_converts [OF ready tr short, of intr 0 mx] r s length_chain_user [OF wf] in simp)
  have "user_total s u t = sum_list (map ebal ?rem)"
    by (simp add: s sum_list_chain sum_of_user)
  then have amount: "x = (case mx of None \<Rightarrow> user_total s u t | Some m \<Rightarrow> min m (user_total s u t))"
    if "\<forall>k. \<not> intr k" "\<forall>d. fund_type_of d = t \<longrightarrow> g d \<noteq> None"
    using loop_result_amount [of intr ?rem ?tr 0 mx] that r by (auto simp: of_user_def etype_def split: option.splits)
  have limit: "case mx of None \<Rightarrow> True | Some m \<Rightarrow> x \<le> m \<and> mx' = Some (m - x)"
    using loop_result_bound r by (auto split: option.split)
  show ?thesis
    using run conv amount limit
    by (intro exI [of _ x] exI [of _ mx'] exI [of _ "concrete (loop_funds ?tr intr 0 mx ?rem a)"]) simp
qed

section \<open>The checkpointed conversion\<close>

lemma converts_convert:
  assumes wf: "wf_funds a" and e: "e \<in> set (a_entries a)" and x: "0 < x" "x \<le> ebal e"
    and d: "fund_type_of d = t'" and t: "etype e = t" "t \<noteq> t'"
  shows "converts {euser e} 1 t t' x (concrete a) (concrete (a_convert d x e a))"
proof -
  note sums = sum_of_convert [OF wf e x, of _ d]
  have ty: "fund_type_of (edesc e) = t"
    using t(1) by (simp add: etype_def)
  show ?thesis
    unfolding converts_def
  proof (intro conjI allI impI)
    show "fund_inv (concrete (a_convert d x e a))"
      by (rule fund_inv_concrete [OF wf_convert [OF wf x(1)]])
    show "fs_max_id (concrete (a_convert d x e a)) \<le> Suc (2 * fs_max_id (concrete a))"
      using a_max_convert [of d x e a] by simp
    show "type_items (concrete (a_convert d x e a)) r \<le> type_items (concrete a) r + (if r = t' then 1 else 0)" for r
      using items_convert [of r d x e a] d wf wf_convert [OF wf x(1)] by (simp add: type_items_concrete)
    fix u
    show "user_total (concrete (a_convert d x e a)) u t \<le> user_total (concrete a) u t"
      "user_total (concrete (a_convert d x e a)) u t + user_total (concrete (a_convert d x e a)) u t' =
       user_total (concrete a) u t + user_total (concrete a) u t'"
      using sums [of "\<lambda>v d. v = u \<and> fund_type_of d = t"] sums [of "\<lambda>v d. v = u \<and> fund_type_of d = t'"]
        ty t d by (auto split: if_splits)
    show "user_total (concrete (a_convert d x e a)) u r = user_total (concrete a) u r" if "u \<notin> {euser e}" for r
      using sums [of "\<lambda>v d. v = u \<and> fund_type_of d = r"] that by (auto split: if_splits)
    show "user_total (concrete (a_convert d x e a)) u r = user_total (concrete a) u r"
      if "r \<noteq> t" "r \<noteq> t'" for r
      using sums [of "\<lambda>v d. v = u \<and> fund_type_of d = r"] that ty d by (auto split: if_splits)
    show "type_total (concrete (a_convert d x e a)) r = type_total (concrete a) r"
      if "r \<noteq> t" "r \<noteq> t'" for r
      using sums [of "\<lambda>_ d. fund_type_of d = r"] that ty d by (auto split: if_splits)
  qed (use sums [of "\<lambda>_ d. fund_type_of d = t"] sums [of "\<lambda>_ d. fund_type_of d = t'"] ty t d
      in \<open>auto split: if_splits\<close>)
qed

text \<open>A checkpoint is valid when it is 0 or the id of a fund of the type that is cleaned up.\<close>

definition checkpoint_ok :: "fund_storage \<Rightarrow> fund_type \<Rightarrow> nat \<Rightarrow> bool" where
  "checkpoint_ok s t i \<longleftrightarrow> i = 0 \<or>
     (case fs_by_id s i of None \<Rightarrow> False | Some it \<Rightarrow> fund_type_of (fund_desc it) = t)"

lemma checkpoint_ok_concrete:
  assumes "wf_funds a"
  shows "checkpoint_ok (concrete a) t i \<longleftrightarrow> i = 0 \<or> i \<in> set (ids_where (of_type t) (a_entries a))"
proof (cases "entry_at (a_entries a) i")
  case None
  then have "i \<notin> set (ids_where (of_type t) (a_entries a))"
    by (auto simp: ids_where_def entry_at_None)
  then show ?thesis
    by (simp add: checkpoint_ok_def None)
next
  case (Some e)
  then show ?thesis
    using ids_where_mem [OF assms, of e "of_type t"] entry_at_Some [OF Some]
    by (auto simp: checkpoint_ok_def of_type_def etype_def)
qed

definition none_left :: "fund_storage \<Rightarrow> fund_type \<Rightarrow> (fund_item \<Rightarrow> bool) \<Rightarrow> bool" where
  "none_left s t P \<longleftrightarrow> (\<forall>i it. fs_by_id s i = Some it \<longrightarrow> fund_type_of (fund_desc it) = t \<longrightarrow> \<not> P it)"

lemma split_convert_checkpoint_run:
  assumes inv: "fund_inv s" and room: "id_room 2 s" and cur: "checkpoint_ok s t cur"
    and t: "t \<noteq> t'" and J: "J s x"
    and tr: "\<And>it d. fund_type_of (fund_desc it) = t \<Longrightarrow> tr it = Some d \<Longrightarrow> fund_type_of d = t'"
    and tr_links: "\<And>it p q p' q'. tr (it\<lparr>type_list_next := p, type_list_prev := q,
        user_list_next := p', user_list_prev := q'\<rparr>) = tr it"
    and act: "\<And>s x it. fund_inv s \<Longrightarrow> J s x \<Longrightarrow> fund_type_of (fund_desc it) = t \<Longrightarrow> 0 < balance it \<Longrightarrow>
      balance it \<le> user_total s (user_id it) t \<Longrightarrow>
      \<exists>x'. filter_transform s x it = Inr (tr it, x') \<and>
        (case tr it of None \<Rightarrow> J s x'
         | Some d \<Rightarrow> \<forall>s'. converts {user_id it} 1 t t' (balance it) s s' \<longrightarrow> J s' x')"
  shows "\<exists>i x' s' us y.
    split_convert_max_by_type_with_checkpoint cur t dir filter_transform intr x s = Inr (i, x', s') \<and>
    converts us (type_items s t) t t' y s s' \<and> J s' x' \<and> checkpoint_ok s' t i \<and>
    (cur = 0 \<longrightarrow> (\<forall>k. \<not> intr k) \<longrightarrow> none_left s' t (\<lambda>it. tr it \<noteq> None)) \<and>
    (\<forall>it. cur \<noteq> 0 \<longrightarrow> fs_by_id s cur = Some it \<longrightarrow> tr it \<noteq> None \<longrightarrow> \<not> intr 0 \<longrightarrow> balance it \<le> y)"
proof -
  from inv obtain a where wf: "wf_funds a" and s: "s = concrete a"
    by (rule fund_invE)
  define tr_e where "tr_e e = tr (conc_item [] e)" for e
  have tr_e: "tr (conc_item es e) = tr_e e" for es e
  proof -
    let ?links = "\<lambda>it. it\<lparr>type_list_next := type_list_next (conc_item es e),
      type_list_prev := type_list_prev (conc_item es e), user_list_next := user_list_next (conc_item es e),
      user_list_prev := user_list_prev (conc_item es e)\<rparr>"
    have eq: "?links (conc_item [] e) = conc_item es e"
      by (simp add: conc_item_def Let_def)
    have "tr (?links (conc_item [] e)) = tr (conc_item [] e)"
      by (rule tr_links)
    then show ?thesis
      unfolding eq tr_e_def .
  qed
  have maps: "maps_type t t' tr_e"
    unfolding maps_type_def
  proof (intro conjI allI impI)
    fix e d
    assume "etype e = t" "tr_e e = Some d"
    then show "fund_type_of d = t'"
      using tr [of "conc_item [] e" d] by (simp add: etype_def tr_e_def)
  qed (rule t)
  have cur': "cur = 0 \<or> cur \<in> set (ids_where (of_type t) (a_entries a))"
    using cur checkpoint_ok_concrete [OF wf] s by simp
  obtain pre rem where c: "chain_of dir (of_type t) (a_entries a) = pre @ rem"
    and first: "(if cur = 0 then first_id_of_type s t dir else cur) = first_of (map eid rem)"
    and whole: "cur = 0 \<longrightarrow> pre = []" and head: "cur \<noteq> 0 \<longrightarrow> (\<exists>e rem'. rem = e # rem' \<and> eid e = cur)"
  proof (cases "cur = 0")
    case True
    then show ?thesis
      using that [of "[]"] by (simp add: s first_id_of_type_concrete)
  next
    case False
    then obtain e where "e \<in> set (chain_of dir (of_type t) (a_entries a))" "eid e = cur"
      using cur' by (auto simp: ids_where_def)
    then obtain pre rem where "chain_of dir (of_type t) (a_entries a) = pre @ e # rem"
      using split_list by metis
    then show ?thesis
      using that [of pre "e # rem"] False \<open>eid e = cur\<close> by simp
  qed
  have len: "length rem \<le> a_max a"
    using length_chain_of [OF wf, of dir "of_type t"] c by simp
  have ready: "loop_ready dir (of_type t) (loop_fuel s) rem a"
    using wf c len room by (auto simp: loop_ready_def loop_fuel_def s id_room_def)
  have acts: "\<exists>x'. filter_transform (concrete b) x (conc_item (a_entries b) e) = Inr (tr_e e, x') \<and>
      J (concrete (case tr_e e of None \<Rightarrow> b | Some d \<Rightarrow> a_convert d (ebal e) e b)) x'"
    if b: "wf_funds b" "e \<in> set (a_entries b)" "etype e = t" "J (concrete b) x" for b x e
  proof -
    have le: "balance (conc_item (a_entries b) e) \<le> user_total (concrete b) (user_id (conc_item (a_entries b) e)) t"
      using sum_where_ge [OF b(2), of "of_user (euser e) t"] b(3) by (simp add: sum_of_user of_user_def)
    have conv: "converts {euser e} 1 t t' (ebal e) (concrete b) (concrete (a_convert d (ebal e) e b))"
      if "tr_e e = Some d" for d
      using converts_convert [OF b(1,2) _ order_refl _ b(3) t] maps that b(3) wf_pos [OF b(1,2)]
      by (auto simp: maps_type_def)
    show ?thesis
      using act [OF fund_inv_concrete [OF b(1)] b(4) _ _ le] b(3) wf_pos [OF b(1,2)] conv
      by (fastforce simp: tr_e etype_def split: option.splits)
  qed
  have J0: "J (concrete a) x"
    using J s by simp
  let ?a = "loop_funds tr_e intr 0 None rem a"
  obtain x' i where run: "split_convert_checkpoint_loop (loop_fuel s) dir filter_transform intr 0
      (first_of (map eid rem)) x (concrete a) = Inr (i, x', concrete ?a)" "J (concrete ?a) x'"
    "i = 0 \<or> i \<in> set (ids_where (of_type t) (a_entries ?a))"
    using split_convert_checkpoint_loop_refines [where J = "\<lambda>a. J (concrete a)"
        and filter_transform = filter_transform and intr = intr and k = 0,
        OF ready maps_type_leaves [OF maps] acts J0 refl] by blast
  have wf': "wf_funds ?a"
    by (rule type_chain.loop_funds_wf [OF ready maps_type_leaves [OF maps]])
  have "length rem \<le> type_items s t"
    using c length_chain_type [OF wf, of dir t] by (simp add: s)
  then have conv: "converts (set (fst (loop_result tr_e intr 0 None rem))) (type_items s t) t t'
      (snd (snd (loop_result tr_e intr 0 None rem))) s (concrete ?a)"
    using converts_items [OF type_chain.loop_converts [OF ready maps len]] s by blast
  have "split_convert_max_by_type_with_checkpoint cur t dir filter_transform intr x s = Inr (i, x', concrete ?a)"
    using run(1) by (simp only: split_convert_max_by_type_with_checkpoint_def first [unfolded s] s)
  moreover have "checkpoint_ok (concrete ?a) t i"
    using run(3) checkpoint_ok_concrete [OF wf'] by simp
  moreover have "none_left (concrete ?a) t (\<lambda>it. tr it \<noteq> None)" if "cur = 0" "\<forall>k. \<not> intr k"
    unfolding none_left_def
  proof (intro allI impI notI)
    fix j it
    assume it: "fs_by_id (concrete ?a) j = Some it" "fund_type_of (fund_desc it) = t" "tr it \<noteq> None"
    then obtain e where e: "e \<in> set (a_entries ?a)" "it = conc_item (a_entries ?a) e"
      using entry_at_Some by (auto simp: concrete_def Let_def)
    then have "etype e = t" "tr_e e \<noteq> None"
      using it(2,3) tr_e by (simp_all add: etype_def)
    then have "e \<in> set (a_entries a) \<and> e \<notin> set rem"
      using type_chain.loop_funds_rest [OF ready maps_type_leaves [OF maps] _ refl e(1)] that(2) by blast
    moreover from this have "e \<in> set (chain_of dir (of_type t) (a_entries a))"
      using \<open>etype e = t\<close> by (simp add: of_type_def)
    moreover have "chain_of dir (of_type t) (a_entries a) = rem"
      using c whole that(1) by simp
    ultimately show False
      by simp
  qed
  moreover have "balance it \<le> snd (snd (loop_result tr_e intr 0 None rem))"
    if it: "cur \<noteq> 0" "fs_by_id s cur = Some it" "tr it \<noteq> None" "\<not> intr 0" for it
  proof -
    obtain e rem' where e: "rem = e # rem'" "eid e = cur"
      using head it(1) by blast
    then have "e \<in> set (chain_of dir (of_type t) (a_entries a))"
      by (simp add: c)
    then have "e \<in> set (a_entries a)"
      by simp
    then have "it = conc_item (a_entries a) e"
      using it(2) e(2) entry_at_mem [OF wf] by (auto simp: s concrete_def Let_def)
    then show ?thesis
      using it(3,4) tr_e e(1) by (auto simp: taken_def split: prod.splits)
  qed
  ultimately show ?thesis
    using run(2) conv by blast
qed

text \<open>Counting the items of a type that satisfy a condition finds none when none are left.\<close>

lemma fold_if_none: "(\<And>e. e \<in> set es \<Longrightarrow> \<not> P e) \<Longrightarrow> fold (\<lambda>e acc. if P e then f acc else acc) es acc = acc"
  by (induction es) auto

lemma count_none_left:
  assumes "fund_inv s" and "none_left s t P"
  shows "count_fund_items_by_type s t P = Inr 0"
proof -
  from assms(1) obtain a where wf: "wf_funds a" and s: "s = concrete a"
    by (rule fund_invE)
  have "\<not> P (conc_item (a_entries a) e)" if e: "e \<in> set (filter (of_type t) (a_entries a))" for e
  proof -
    have "fs_by_id s (eid e) = Some (conc_item (a_entries a) e)"
      using entry_at_mem [OF wf, of e] e by (simp add: s concrete_def Let_def)
    moreover have "fund_type_of (fund_desc (conc_item (a_entries a) e)) = t"
      using e by (simp add: of_type_def etype_def)
    ultimately show ?thesis
      using assms(2) unfolding none_left_def by blast
  qed
  then have "fold (\<lambda>e count. if P (conc_item (a_entries a) e) then usize_add count 1 else count)
      (filter (of_type t) (a_entries a)) 0 = 0"
    by (rule fold_if_none)
  then show ?thesis
    unfolding count_fund_items_by_type_def s traverse_type_concrete [OF wf] by simp
qed

section \<open>Deposits and withdrawals\<close>

definition deposits :: "nat \<Rightarrow> fund_type \<Rightarrow> nat \<Rightarrow> fund_storage \<Rightarrow> fund_storage \<Rightarrow> bool" where
  "deposits u t x s s' \<longleftrightarrow> fund_inv s' \<and> fs_max_id s' \<le> Suc (fs_max_id s) \<and>
     (\<forall>r. type_items s' r \<le> type_items s r + (if r = t then 1 else 0)) \<and>
     (\<forall>r. type_total s' r = type_total s r + (if r = t then x else 0)) \<and>
     (\<forall>v r. user_total s' v r = user_total s v r + (if v = u \<and> r = t then x else 0))"

definition withdraws :: "nat \<Rightarrow> fund_type \<Rightarrow> nat \<Rightarrow> fund_storage \<Rightarrow> fund_storage \<Rightarrow> bool" where
  "withdraws u t x s s' \<longleftrightarrow> fund_inv s' \<and> fs_max_id s' = fs_max_id s \<and>
     (\<forall>r. type_items s' r \<le> type_items s r) \<and>
     (\<forall>r. type_total s' r + (if r = t then x else 0) = type_total s r) \<and>
     (\<forall>v r. user_total s' v r + (if v = u \<and> r = t then x else 0) = user_total s v r)"

lemma depositsD:
  assumes "deposits u t x s s'"
  shows "fund_inv s'" "fs_max_id s' \<le> Suc (fs_max_id s)"
    "type_items s' r \<le> type_items s r + (if r = t then 1 else 0)"
    "type_total s' r = type_total s r + (if r = t then x else 0)"
    "user_total s' v r = user_total s v r + (if v = u \<and> r = t then x else 0)"
  using assms unfolding deposits_def by blast+

lemma withdrawsD:
  assumes "withdraws u t x s s'"
  shows "fund_inv s'" "fs_max_id s' = fs_max_id s" "type_items s' r \<le> type_items s r"
    "type_total s' r + (if r = t then x else 0) = type_total s r"
    "user_total s' v r + (if v = u \<and> r = t then x else 0) = user_total s v r"
  using assms unfolding withdraws_def by blast+

lemma increase_fund_balance_deposits:
  assumes "fund_inv s" and "id_room 1 s"
  shows "deposits u (fund_type_of d) x s (increase_fund_balance u d x s)"
proof -
  from assms(1) obtain a where wf: "wf_funds a" and s: "s = concrete a"
    by (rule fund_invE)
  have "Suc (a_max a) < usize_max"
    using assms(2) by (simp add: id_room_def s)
  then have "increase_fund_balance u d x s = concrete (a_increase u d x a)"
    using increase_fund_balance_concrete [OF wf] s by simp
  then show ?thesis
    using wf wf_increase [OF wf, of u d x] a_max_increase(1) [of u d x a] sum_of_increase [OF wf]
      items_increase [of _ u d x a]
    by (auto simp: deposits_def s type_items_concrete)
qed

fun destroyed :: "(nat \<Rightarrow> bool) \<Rightarrow> nat \<Rightarrow> fund_entry list \<Rightarrow> fund_entry list" where
  "destroyed intr k [] = []"
| "destroyed intr k (e # es) = (if intr k then [] else e # destroyed intr (Suc k) es)"

lemma destroyed_all: "(\<And>k. \<not> intr k) \<Longrightarrow> destroyed intr k es = es"
  by (induction es arbitrary: k) auto

lemma withdraws_remove:
  assumes wf: "wf_funds a" and e: "e \<in> set (a_entries a)"
  shows "withdraws (euser e) (etype e) (ebal e) (concrete a) (concrete (a_remove (eid e) a))"
proof -
  have rm: "a_remove (eid e) a = a_take e (ebal e) a"
    by (simp add: a_take_def)
  have "wf_funds (a_remove (eid e) a)"
    using wf_a_take [OF wf, of "ebal e" e] wf_pos [OF wf e] by (simp add: rm)
  moreover have "type_total (concrete (a_remove (eid e) a)) r + (if r = etype e then ebal e else 0) =
    type_total (concrete a) r" for r
    using sum_of_take [OF wf e order_refl, of "\<lambda>_ d. fund_type_of d = r"]
    by (auto simp: rm etype_def split: if_splits)
  moreover have "user_total (concrete (a_remove (eid e) a)) v r +
    (if v = euser e \<and> r = etype e then ebal e else 0) = user_total (concrete a) v r" for v r
    using sum_of_take [OF wf e order_refl, of "\<lambda>w d. w = v \<and> fund_type_of d = r"]
    by (auto simp: rm etype_def split: if_splits)
  moreover have "fs_max_id (concrete (a_remove (eid e) a)) = fs_max_id (concrete a)"
    by (simp add: a_remove_def)
  moreover have "type_items (concrete (a_remove (eid e) a)) r \<le> type_items (concrete a) r" for r
    using items_take [of r e "ebal e" a] wf \<open>wf_funds (a_remove (eid e) a)\<close>
    by (simp add: type_items_concrete rm)
  ultimately show ?thesis
    unfolding withdraws_def by (blast intro: fund_inv_concrete)
qed

lemma withdraws_trans:
  "withdraws u t x s s' \<Longrightarrow> withdraws u t y s' s'' \<Longrightarrow> withdraws u t (x + y) s s''"
  unfolding withdraws_def by (auto split: if_splits intro: order_trans) (metis add.assoc add.commute)+

lemma destroy_loop_run:
  assumes "wf_funds a" and "chain_of Forwards (of_user u t) (a_entries a) = rem" and "length rem \<le> n"
  shows "\<exists>s'. destroy_all_for_user_loop n intr k (first_of (map eid rem)) tot (concrete a) =
      Inr (tot + sum_list (map ebal (destroyed intr k rem)), s') \<and>
    withdraws u t (sum_list (map ebal (destroyed intr k rem))) (concrete a) s'"
  using assms
proof (induction rem arbitrary: a n k tot)
  case Nil
  then show ?case
    by (cases n) (auto simp: withdraws_def intro: fund_inv_concrete)
next
  case (Cons e rem)
  note wf = Cons.prems(1)
  obtain n' where n: "n = Suc n'" "length rem \<le> n'"
    using Cons.prems(3) by (cases n) auto
  have "e \<in> set (chain_of Forwards (of_user u t) (a_entries a))"
    by (simp add: Cons.prems)
  then have e: "e \<in> set (a_entries a)" and u: "euser e = u" "etype e = t"
    by (auto simp: of_user_def)
  have nz: "eid e \<noteq> 0"
    using wf_pos [OF wf e] by simp
  have d: "distinct (map eid ([] @ e # rem))"
    using distinct_chain_of [OF wf, of Forwards "of_user u t"] by (simp only: Cons.prems(2) append_Nil)
  have nxt: "user_list_next (conc_item (a_entries a) e) = first_of (map eid rem)"
    using user_chain.chain_next [OF wf, of Forwards u t "[]" e rem] Cons.prems(2)
    by (simp add: next_in_user_list_def)
  have wb: "set_fund_by_id (eid e) (emptied (conc_item (a_entries a) e))
      (with_item (eid e) v (concrete (a_remove (eid e) a))) = concrete (a_remove (eid e) a)" for v
    by (simp add: set_fund_by_id_with_item with_item_same a_remove_def entry_at_remove)
  have wd: "withdraws u t (ebal e) (concrete a) (concrete (a_remove (eid e) a))"
    using withdraws_remove [OF wf e] u by simp
  have wf': "wf_funds (a_remove (eid e) a)"
    by (simp add: a_remove_def wf_remove [OF wf])
  have chain: "chain_of Forwards (of_user u t) (a_entries (a_remove (eid e) a)) = rem"
    using remove_entry_split [OF d] Cons.prems(2)
    by (simp add: a_remove_def user_chain.filter_remove_entry)
  obtain s' where IH: "destroy_all_for_user_loop n' intr (Suc k) (first_of (map eid rem)) (tot + ebal e)
      (concrete (a_remove (eid e) a)) =
        Inr (tot + ebal e + sum_list (map ebal (destroyed intr (Suc k) rem)), s')"
    "withdraws u t (sum_list (map ebal (destroyed intr (Suc k) rem))) (concrete (a_remove (eid e) a)) s'"
    using Cons.IH [OF wf' chain n(2)] by blast
  show ?case
  proof (cases "intr k")
    case True
    then show ?thesis
      using wf by (auto simp: n(1) withdraws_def intro: fund_inv_concrete)
  next
    case False
    then show ?thesis
      using IH(1) withdraws_trans [OF wd IH(2)] nz
      by (simp add: n(1) Let_def fund_by_id_concrete [OF wf e] delete_fund_concrete [OF wf e] nxt [simplified] wb add.assoc)
  qed
qed

lemma destroy_all_for_user_run:
  assumes "fund_inv s"
  shows "\<exists>x s'. destroy_all_for_user u t intr s = Inr (x, s') \<and> withdraws u t x s s' \<and>
    ((\<forall>k. \<not> intr k) \<longrightarrow> x = user_total s u t)"
proof -
  from assms obtain a where wf: "wf_funds a" and s: "s = concrete a"
    by (rule fund_invE)
  let ?c = "chain_of Forwards (of_user u t) (a_entries a)"
  have "length ?c \<le> loop_fuel s"
    using length_chain_of [OF wf, of Forwards "of_user u t"] by (simp add: loop_fuel_def s)
  from destroy_loop_run [OF wf refl this, of intr 0 0]
  obtain s' where run: "destroy_all_for_user u t intr s = Inr (sum_list (map ebal (destroyed intr 0 ?c)), s')"
    and wd: "withdraws u t (sum_list (map ebal (destroyed intr 0 ?c))) s s'"
    by (auto simp: destroy_all_for_user_def s chain_of_def ids_where_def)
  moreover have "sum_list (map ebal (destroyed intr 0 ?c)) = user_total s u t" if "\<forall>k. \<not> intr k"
    using that by (simp add: destroyed_all sum_list_chain s sum_of_user)
  ultimately show ?thesis
    by blast
qed

end
