(* ===== verification/Fund_Transf.thy ===== *)
theory Fund_Transf
  imports Fund_Contracts
begin

text \<open>
  The fund transformations (\<^verbatim>\<open>user-fund-storage/src/fund_transf_module.rs\<close>): the swaps
  between fund types the contract performs. \<open>nonce\<close> is the current block nonce. A
  \<^verbatim>\<open>&mut BigUint\<close> limit is an argument and a result: what is left of it.
\<close>

section \<open>Operations\<close>

definition rest_of_limit :: "nat \<Rightarrow> nat option \<Rightarrow> nat" where
  "rest_of_limit limit opt_max = (case opt_max of None \<Rightarrow> limit | Some m \<Rightarrow> m)"

definition create_waiting :: "u64 \<Rightarrow> nat \<Rightarrow> nat \<Rightarrow> fund_storage \<Rightarrow> fund_storage" where
  "create_waiting nonce u b s = increase_fund_balance u (FdWaiting nonce) b s"

definition liquidate_all_withdraw_only ::
  "nat \<Rightarrow> (nat \<Rightarrow> bool) \<Rightarrow> fund_storage \<Rightarrow> (nat \<times> fund_storage) res" where
  "liquidate_all_withdraw_only u interrupt s = destroy_all_for_user u WithdrawOnly interrupt s"

definition swap_user_active_to_unstaked ::
  "u64 \<Rightarrow> nat \<Rightarrow> nat \<Rightarrow> fund_storage \<Rightarrow> (nat \<times> fund_storage) res" where
  "swap_user_active_to_unstaked nonce u amount s =
     bind_res (split_convert_max_by_user (Some amount) u Active Forwards
                 (\<lambda>_. Some (FdUnStaked nonce)) (\<lambda>_. False) s)
       (\<lambda>(_, opt_max, s'). Inr (rest_of_limit amount opt_max, s'))"

definition swap_waiting_to_active ::
  "nat \<Rightarrow> (nat \<Rightarrow> bool) \<Rightarrow> fund_storage \<Rightarrow> (nat list \<times> nat \<times> fund_storage) res" where
  "swap_waiting_to_active remaining interrupt s =
     bind_res (split_convert_max_by_type (Some remaining) Waiting Forwards
                 (\<lambda>_. Some FdActive) interrupt False s)
       (\<lambda>(affected_users, opt_max, s'). Inr (affected_users, rest_of_limit remaining opt_max, s'))"

definition swap_user_waiting_to_withdraw_only ::
  "nat \<Rightarrow> nat \<Rightarrow> fund_storage \<Rightarrow> (nat \<times> fund_storage) res" where
  "swap_user_waiting_to_withdraw_only u remaining s =
     bind_res (split_convert_max_by_user (Some remaining) u Waiting Backwards
                 (\<lambda>_. Some FdWithdrawOnly) (\<lambda>_. False) s)
       (\<lambda>(_, opt_max, s'). Inr (rest_of_limit remaining opt_max, s'))"

definition swap_dust ::
  "nat \<Rightarrow> nat \<Rightarrow> fund_type
     \<Rightarrow> (fund_storage \<Rightarrow> 'x \<Rightarrow> fund_item \<Rightarrow> (fund_description option \<times> 'x) res) \<Rightarrow> (nat \<Rightarrow> bool)
     \<Rightarrow> 'x \<Rightarrow> fund_storage \<Rightarrow> (nat \<times> 'x \<times> fund_storage) res" where
  "swap_dust current_id dust_limit source_type filter_transform interrupt x s =
     split_convert_max_by_type_with_checkpoint current_id source_type Backwards
       (\<lambda>s x it. if balance it < dust_limit then filter_transform s x it else Inr (None, x))
       interrupt x s"

definition get_affected_users_of_swap_waiting_to_active ::
  "nat \<Rightarrow> (nat \<Rightarrow> bool) \<Rightarrow> fund_storage \<Rightarrow> (nat list \<times> nat \<times> fund_storage) res" where
  "get_affected_users_of_swap_waiting_to_active amount interrupt s =
     bind_res (split_convert_max_by_type (Some amount) Waiting Forwards
                 (\<lambda>_. Some FdActive) interrupt True s)
       (\<lambda>(affected_users, opt_max, s'). Inr (affected_users, rest_of_limit amount opt_max, s'))"

definition swap_unstaked_to_deferred_payment ::
  "nat \<Rightarrow> (nat \<Rightarrow> bool) \<Rightarrow> fund_storage \<Rightarrow> (nat \<times> fund_storage) res" where
  "swap_unstaked_to_deferred_payment remaining interrupt s =
     bind_res (split_convert_max_by_type (Some remaining) UnStaked Forwards
                 (\<lambda>it. case fund_desc it of FdUnStaked created \<Rightarrow> Some (FdDeferredPayment created)
                       | _ \<Rightarrow> None) interrupt False s)
       (\<lambda>(_, opt_max, s'). Inr (rest_of_limit remaining opt_max, s'))"

definition swap_active_to_deferred_payment ::
  "u64 \<Rightarrow> nat \<Rightarrow> (nat \<Rightarrow> bool) \<Rightarrow> fund_storage \<Rightarrow> (nat \<times> fund_storage) res" where
  "swap_active_to_deferred_payment nonce remaining interrupt s =
     bind_res (split_convert_max_by_type (Some remaining) Active Backwards
                 (\<lambda>_. Some (FdDeferredPayment nonce)) interrupt False s)
       (\<lambda>(_, opt_max, s'). Inr (rest_of_limit remaining opt_max, s'))"

text \<open>\<^verbatim>\<open>created + n_blocks_before_claim\<close> is an addition of two \<^verbatim>\<open>u64\<close>, which wraps.\<close>

definition deferred_to_withdraw :: "u64 \<Rightarrow> u64 \<Rightarrow> fund_description \<Rightarrow> fund_description option" where
  "deferred_to_withdraw nonce n_blocks d =
     (case d of FdDeferredPayment created \<Rightarrow>
        if created + n_blocks \<le> nonce then Some FdWithdrawOnly else None
      | _ \<Rightarrow> None)"

definition swap_eligible_deferred_to_withdraw ::
  "u64 \<Rightarrow> nat \<Rightarrow> u64 \<Rightarrow> (nat \<Rightarrow> bool) \<Rightarrow> fund_storage \<Rightarrow> (nat \<times> fund_storage) res" where
  "swap_eligible_deferred_to_withdraw nonce u n_blocks_before_claim interrupt s =
     bind_res (split_convert_max_by_user None u DeferredPayment Forwards
                 (deferred_to_withdraw nonce n_blocks_before_claim) interrupt s)
       (\<lambda>(total, _, s'). Inr (total, s'))"

section \<open>What a swap promises\<close>

text \<open>
  The interface of a swap with a limit: \<open>src\<close> becomes \<open>dst\<close>, for users in \<open>scope\<close>, at most
  the limit and at most what is available; without interrupt exactly the smaller of the
  two; \<open>visited\<close> bounds the number of items it creates. \<open>ok\<close> is what the operation needs of the storage beyond the invariant.
\<close>

locale limited_swap =
  fixes swap :: "nat \<Rightarrow> (nat \<Rightarrow> bool) \<Rightarrow> fund_storage \<Rightarrow> (nat \<times> fund_storage) res"
    and src dst :: fund_type and scope :: "nat set"
    and available visited :: "fund_storage \<Rightarrow> nat" and ok :: "fund_storage \<Rightarrow> bool"
  assumes swap_run: "fund_inv s \<Longrightarrow> id_room 2 s \<Longrightarrow> ok s \<Longrightarrow>
      \<exists>x s'. swap m intr s = Inr (m - x, s') \<and> x \<le> m \<and> converts scope (visited s) src dst x s s' \<and>
        ((\<forall>k. \<not> intr k) \<longrightarrow> x = min m (available s))"
begin

lemma swap_all:
  assumes "fund_inv s" "id_room 2 s" "ok s" and "m \<le> available s"
  shows "\<exists>s'. swap m (\<lambda>_. False) s = Inr (0, s') \<and> converts scope (visited s) src dst m s s'"
  using swap_run [OF assms(1-3), of m "\<lambda>_. False"] assms(4) by (auto simp: min_def)

lemma swap_left:
  assumes "fund_inv s" "id_room 2 s" "ok s"
  shows "\<exists>s'. swap m (\<lambda>_. False) s = Inr (m - min m (available s), s') \<and>
    converts scope (visited s) src dst (min m (available s)) s s'"
  using swap_run [OF assms, of m "\<lambda>_. False"] by auto

end

lemma swaps_into:
  "t \<noteq> fund_type_of d \<Longrightarrow> swaps t (fund_type_of d) (\<lambda>_. Some d)"
  by (simp add: swaps_def)

lemma swaps_unstaked:
  "swaps UnStaked DeferredPayment
     (\<lambda>d. case d of FdUnStaked created \<Rightarrow> Some (FdDeferredPayment created) | _ \<Rightarrow> None)"
  by (auto simp: swaps_def split: fund_description.splits)

lemma converts_any: "converts us n t t' x s s' \<Longrightarrow> converts UNIV n t t' x s s'"
  by (rule converts_mono) simp_all

interpretation user_active_to_unstaked:
  limited_swap "\<lambda>m _. swap_user_active_to_unstaked nonce u m" Active UnStaked "{u}"
    "\<lambda>s. user_total s u Active" "\<lambda>s. user_items s u Active" "\<lambda>_. True" for nonce u
proof
  fix s m intr
  assume "fund_inv s" "id_room 2 s"
  then show "\<exists>x s'. swap_user_active_to_unstaked nonce u m s = Inr (m - x, s') \<and> x \<le> m \<and>
    converts {u} (user_items s u Active) Active UnStaked x s s' \<and> ((\<forall>k. \<not> intr k) \<longrightarrow> x = min m (user_total s u Active))"
    using split_convert_max_by_user_run [OF _ _ swaps_into [of Active "FdUnStaked nonce"], of s "Some m" u Forwards "\<lambda>_. False"]
    by (fastforce simp: swap_user_active_to_unstaked_def rest_of_limit_def)
qed

interpretation user_waiting_to_withdraw_only:
  limited_swap "\<lambda>m _. swap_user_waiting_to_withdraw_only u m" Waiting WithdrawOnly "{u}"
    "\<lambda>s. user_total s u Waiting" "\<lambda>s. user_items s u Waiting" "\<lambda>_. True" for u
proof
  fix s m intr
  assume "fund_inv s" "id_room 2 s"
  then show "\<exists>x s'. swap_user_waiting_to_withdraw_only u m s = Inr (m - x, s') \<and> x \<le> m \<and>
    converts {u} (user_items s u Waiting) Waiting WithdrawOnly x s s' \<and> ((\<forall>k. \<not> intr k) \<longrightarrow> x = min m (user_total s u Waiting))"
    using split_convert_max_by_user_run [OF _ _ swaps_into [of Waiting FdWithdrawOnly], of s "Some m" u Backwards "\<lambda>_. False"]
    by (fastforce simp: swap_user_waiting_to_withdraw_only_def rest_of_limit_def)
qed

interpretation unstaked_to_deferred:
  limited_swap swap_unstaked_to_deferred_payment UnStaked DeferredPayment UNIV
    "\<lambda>s. type_total s UnStaked" "\<lambda>s. type_items s UnStaked" "\<lambda>s. few_items s UnStaked"
proof
  fix s m intr
  assume "fund_inv s" "id_room 2 s" "few_items s UnStaked"
  moreover have "fund_type_of d = UnStaked \<Longrightarrow> \<exists>c. d = FdUnStaked c" for d
    by (cases d) auto
  ultimately show "\<exists>x s'. swap_unstaked_to_deferred_payment m intr s = Inr (m - x, s') \<and> x \<le> m \<and>
    converts UNIV (type_items s UnStaked) UnStaked DeferredPayment x s s' \<and>
    ((\<forall>k. \<not> intr k) \<longrightarrow> x = min m (type_total s UnStaked))"
    using split_convert_max_by_type_run [OF _ _ _ swaps_unstaked, of s "Some m" Forwards intr]
    by (fastforce simp: swap_unstaked_to_deferred_payment_def rest_of_limit_def intro: converts_any)
qed

interpretation active_to_deferred:
  limited_swap "swap_active_to_deferred_payment nonce" Active DeferredPayment UNIV
    "\<lambda>s. type_total s Active" "\<lambda>s. type_items s Active" "\<lambda>s. few_items s Active" for nonce
proof
  fix s m intr
  assume "fund_inv s" "id_room 2 s" "few_items s Active"
  then show "\<exists>x s'. swap_active_to_deferred_payment nonce m intr s = Inr (m - x, s') \<and> x \<le> m \<and>
    converts UNIV (type_items s Active) Active DeferredPayment x s s' \<and>
    ((\<forall>k. \<not> intr k) \<longrightarrow> x = min m (type_total s Active))"
    using split_convert_max_by_type_run [OF _ _ _ swaps_into [of Active "FdDeferredPayment nonce"], of s "Some m" Backwards intr]
    by (fastforce simp: swap_active_to_deferred_payment_def rest_of_limit_def intro: converts_any)
qed

text \<open>
  The swap into active funds also names the users it touched, and the dry run names the
  same users and the same rest.
\<close>

lemma swap_waiting_to_active_run:
  assumes "fund_inv s" and "id_room 2 s" and "few_items s Waiting"
  shows "\<exists>us x s'. swap_waiting_to_active m intr s = Inr (us, m - x, s') \<and>
    get_affected_users_of_swap_waiting_to_active m intr s = Inr (us, m - x, s) \<and>
    x \<le> m \<and> converts (set us) (type_items s Waiting) Waiting Active x s s' \<and>
    (\<forall>u\<in>set us. 0 < user_total s u Waiting) \<and>
    ((\<forall>k. \<not> intr k) \<longrightarrow> x = min m (type_total s Waiting))"
  using split_convert_max_by_type_run [OF assms swaps_into [of Waiting FdActive, simplified], of "Some m" Forwards intr]
  by (fastforce simp: swap_waiting_to_active_def get_affected_users_of_swap_waiting_to_active_def rest_of_limit_def)

interpretation waiting_to_active:
  limited_swap "\<lambda>m intr s. bind_res (swap_waiting_to_active m intr s) (\<lambda>(_, r, s'). Inr (r, s'))"
    Waiting Active UNIV "\<lambda>s. type_total s Waiting" "\<lambda>s. type_items s Waiting" "\<lambda>s. few_items s Waiting"
proof
  fix s m intr
  assume "fund_inv s" "id_room 2 s" "few_items s Waiting"
  from swap_waiting_to_active_run [OF this, of m intr]
  show "\<exists>x s'. bind_res (swap_waiting_to_active m intr s) (\<lambda>(_, r, s'). Inr (r, s')) = Inr (m - x, s') \<and> x \<le> m \<and>
    converts UNIV (type_items s Waiting) Waiting Active x s s' \<and> ((\<forall>k. \<not> intr k) \<longrightarrow> x = min m (type_total s Waiting))"
    by (fastforce intro: converts_any)
qed

lemma swaps_deferred: "swaps DeferredPayment WithdrawOnly (deferred_to_withdraw nonce n)"
  by (auto simp: swaps_def deferred_to_withdraw_def split: fund_description.splits if_splits)

lemma swap_eligible_run:
  assumes "fund_inv s" and "id_room 2 s"
  shows "\<exists>x s'. swap_eligible_deferred_to_withdraw nonce u n intr s = Inr (x, s') \<and>
    converts {u} (user_items s u DeferredPayment) DeferredPayment WithdrawOnly x s s'"
  using split_convert_max_by_user_run [OF assms swaps_deferred, of None u Forwards nonce n intr]
  by (auto simp: swap_eligible_deferred_to_withdraw_def)

end
