(* ===== verification/User_Data.thy ===== *)
theory User_Data
  imports Delegation_Prelude
begin

text \<open>
  User ids (\<^verbatim>\<open>user-fund-storage/src/user_data.rs\<close>) and the contract that id registries keep:
  ids are given out in order from 1, an id is given to one key only, and the reverse
  mapping, where it has an entry, agrees. Nodes are registered the same way (theory
  \<open>Node_Config\<close>).
\<close>

section \<open>Registries\<close>

definition registry_inv :: "('k \<Rightarrow> nat) \<Rightarrow> (nat \<Rightarrow> 'k option) \<Rightarrow> nat \<Rightarrow> bool" where
  "registry_inv ids names n \<longleftrightarrow>
     (\<forall>k. ids k \<le> n) \<and> (\<forall>k k'. ids k = ids k' \<longrightarrow> ids k \<noteq> 0 \<longrightarrow> k = k') \<and>
     (\<forall>i k. names i = Some k \<longrightarrow> i \<noteq> 0 \<and> ids k = i)"

lemma registry_inv_new:
  assumes "registry_inv ids names n" and "ids k = 0"
  shows "registry_inv (ids(k := Suc n)) (names(Suc n := Some k)) (Suc n)"
proof -
  have le: "ids j \<le> n" and inj: "ids j = ids j' \<Longrightarrow> ids j \<noteq> 0 \<Longrightarrow> j = j'"
    and names: "names i = Some j \<Longrightarrow> i \<noteq> 0 \<and> ids j = i" for i j j'
    using assms(1) unfolding registry_inv_def by blast+
  have fresh: "ids j \<noteq> Suc n" "Suc n \<noteq> ids j" for j
    using le [of j] by auto
  show ?thesis
    unfolding registry_inv_def
  proof (intro conjI allI impI)
    show "(ids(k := Suc n)) j \<le> Suc n" for j
      using le [of j] by simp
    show "j = j'" if "(ids(k := Suc n)) j = (ids(k := Suc n)) j'" "(ids(k := Suc n)) j \<noteq> 0" for j j'
      using that inj fresh by (auto split: if_splits)
    fix i j
    assume "(names(Suc n := Some k)) i = Some j"
    then show "i \<noteq> 0" "(ids(k := Suc n)) j = i"
      using names [of i j] assms(2) by (auto split: if_splits)
  qed
qed

lemma registry_inv_fill:
  assumes "registry_inv ids names n" and "ids k = i" and "i \<noteq> 0"
  shows "registry_inv ids (names(i := Some k)) n"
  using assms by (auto simp: registry_inv_def)

text \<open>
  The interface: registering a key that is known keeps its id, registering a new one gives
  it the next id; nothing else changes.
\<close>

locale id_registry =
  fixes id_of :: "'s \<Rightarrow> 'k \<Rightarrow> nat" and name_of :: "'s \<Rightarrow> nat \<Rightarrow> 'k option" and num :: "'s \<Rightarrow> nat"
    and register :: "'k \<Rightarrow> 's \<Rightarrow> 's"
  assumes register_new: "id_of s k = 0 \<Longrightarrow> Suc (num s) < usize_max \<Longrightarrow>
      id_of (register k s) = (id_of s)(k := Suc (num s)) \<and>
      name_of (register k s) = (name_of s)(Suc (num s) := Some k) \<and> num (register k s) = Suc (num s)"
    and register_known: "id_of s k \<noteq> 0 \<Longrightarrow>
      id_of (register k s) = id_of s \<and> num (register k s) = num s \<and>
      (name_of (register k s) = name_of s \<or> name_of (register k s) = (name_of s)(id_of s k := Some k))"
begin

abbreviation inv :: "'s \<Rightarrow> bool" where
  "inv s \<equiv> registry_inv (id_of s) (name_of s) (num s)"

lemma register_inv:
  assumes "inv s" and "Suc (num s) < usize_max"
  shows "inv (register k s)"
proof (cases "id_of s k = 0")
  case True
  then show ?thesis
    using register_new [OF True assms(2)] registry_inv_new [OF assms(1) True] by simp
next
  case False
  then show ?thesis
    using register_known [OF False] registry_inv_fill [OF assms(1) refl, of k] assms(1) by auto
qed

lemma register_id:
  assumes "Suc (num s) < usize_max"
  shows "id_of (register k s) k = (if id_of s k = 0 then Suc (num s) else id_of s k)"
    and "k' \<noteq> k \<Longrightarrow> id_of (register k s) k' = id_of s k'"
  using register_new [OF _ assms, of k] register_known [of s k] by (cases "id_of s k = 0"; simp)+

lemma register_stable:
  assumes "Suc (num s) < usize_max" and "id_of s k' \<noteq> 0"
  shows "id_of (register k s) k' = id_of s k'"
  using register_id [OF assms(1)] assms(2) by (cases "k' = k") simp_all

end

section \<open>Users\<close>

type_synonym address = "u8 list"

record user_storage =
  us_user_id :: "address \<Rightarrow> nat"
  us_user_address :: "nat \<Rightarrow> address option"
  us_num_users :: nat

definition user_storage_empty :: user_storage where
  "user_storage_empty = \<lparr>us_user_id = (\<lambda>_. 0), us_user_address = (\<lambda>_. None), us_num_users = 0\<rparr>"

text \<open>
  Reading an address that is not there is the codec's business: its outcome is the
  parameter \<open>missing\<close>.
\<close>

definition get_user_address :: "address res \<Rightarrow> user_storage \<Rightarrow> nat \<Rightarrow> address res" where
  "get_user_address missing s u = (case us_user_address s u of None \<Rightarrow> missing | Some a \<Rightarrow> Inr a)"

definition is_empty_user_address :: "user_storage \<Rightarrow> nat \<Rightarrow> bool" where
  "is_empty_user_address s u = (us_user_address s u = None)"

definition set_user_address :: "nat \<Rightarrow> address \<Rightarrow> user_storage \<Rightarrow> user_storage" where
  "set_user_address u a s = s\<lparr>us_user_address := (us_user_address s)(u := Some a)\<rparr>"

definition new_user :: "user_storage \<Rightarrow> nat \<times> user_storage" where
  "new_user s = (let num_users = usize_add (us_num_users s) 1 in (num_users, s\<lparr>us_num_users := num_users\<rparr>))"

definition get_or_create_user :: "address \<Rightarrow> user_storage \<Rightarrow> nat \<times> user_storage" where
  "get_or_create_user a s =
     (let u = us_user_id s a in
      if u = 0 then
        let (u', s1) = new_user s;
            s2 = s1\<lparr>us_user_id := (us_user_id s1)(a := u')\<rparr>
        in (u', set_user_address u' a s2)
      else if is_empty_user_address s u then (u, set_user_address u a s)
      else (u, s))"

fun update_user_address_loop ::
  "address list \<Rightarrow> nat \<times> nat \<times> nat \<Rightarrow> user_storage \<Rightarrow> (nat \<times> nat \<times> nat) \<times> user_storage"
where
  "update_user_address_loop [] counts s = (counts, s)"
| "update_user_address_loop (a # addresses) (num_updated, num_not_updated, num_not_found) s =
     (let u = us_user_id s a in
      if 0 < u then
        if is_empty_user_address s u
        then update_user_address_loop addresses (usize_add num_updated 1, num_not_updated, num_not_found)
               (set_user_address u a s)
        else update_user_address_loop addresses (num_updated, usize_add num_not_updated 1, num_not_found) s
      else update_user_address_loop addresses (num_updated, num_not_updated, usize_add num_not_found 1) s)"

definition update_user_address :: "address list \<Rightarrow> user_storage \<Rightarrow> (nat \<times> nat \<times> nat) \<times> user_storage" where
  "update_user_address addresses s = update_user_address_loop addresses (0, 0, 0) s"

definition user_ids_without_address :: "user_storage \<Rightarrow> nat list" where
  "user_ids_without_address s = filter (is_empty_user_address s) [1..<Suc (us_num_users s)]"

lemma set_user_address_simps [simp]:
  "us_user_id (set_user_address u a s) = us_user_id s"
  "us_num_users (set_user_address u a s) = us_num_users s"
  "us_user_address (set_user_address u a s) = (us_user_address s)(u := Some a)"
  by (simp_all add: set_user_address_def)

abbreviation user_inv :: "user_storage \<Rightarrow> bool" where
  "user_inv s \<equiv> registry_inv (us_user_id s) (us_user_address s) (us_num_users s)"

interpretation user_registry:
  id_registry us_user_id us_user_address us_num_users "\<lambda>a s. snd (get_or_create_user a s)"
  by unfold_locales
    (auto simp: get_or_create_user_def new_user_def Let_def usize_add_small
      is_empty_user_address_def)

lemma get_or_create_user_id:
  assumes "Suc (us_num_users s) < usize_max"
  shows "fst (get_or_create_user a s) = us_user_id (snd (get_or_create_user a s)) a"
    and "fst (get_or_create_user a s) \<noteq> 0"
    and "us_user_address (snd (get_or_create_user a s)) (fst (get_or_create_user a s)) \<noteq> None"
  using assms
  by (auto simp: get_or_create_user_def new_user_def Let_def usize_add_small
      is_empty_user_address_def)

lemma num_users_mono:
  assumes "Suc (us_num_users s) < usize_max"
  shows "us_num_users s \<le> us_num_users (snd (get_or_create_user a s))"
    "us_num_users (snd (get_or_create_user a s)) \<le> Suc (us_num_users s)"
  using assms
  by (auto simp: get_or_create_user_def new_user_def Let_def usize_add_small)

lemma update_user_address_inv:
  assumes "user_inv s"
  shows "user_inv (snd (update_user_address_loop addresses counts s)) \<and>
    us_user_id (snd (update_user_address_loop addresses counts s)) = us_user_id s \<and>
    us_num_users (snd (update_user_address_loop addresses counts s)) = us_num_users s \<and>
    (\<forall>u a. us_user_address s u = Some a \<longrightarrow>
       us_user_address (snd (update_user_address_loop addresses counts s)) u = Some a)"
  using assms
proof (induction addresses counts s rule: update_user_address_loop.induct)
  case (2 a addresses n m k s)
  have fill: "user_inv (set_user_address (us_user_id s a) a s)" if "0 < us_user_id s a"
    using registry_inv_fill [OF "2.prems" refl, of a] that by simp
  consider "us_user_id s a = 0" | "0 < us_user_id s a" "is_empty_user_address s (us_user_id s a)"
    | "0 < us_user_id s a" "\<not> is_empty_user_address s (us_user_id s a)"
    by auto
  then show ?case
  proof cases
    case 2
    have "((us_user_address s)(us_user_id s a := Some a)) u = Some b" if "us_user_address s u = Some b" for u b
      using that 2(2) by (auto simp: is_empty_user_address_def)
    then show ?thesis
      using "2.IH"(1) [OF refl 2 fill [OF 2(1)]] 2 by (auto simp: Let_def simp del: fun_upd_apply)
  qed (use "2.IH"(2,3) [OF refl] "2.prems" in \<open>auto simp: Let_def\<close>)
qed simp

text \<open>Every address of a known user in the list ends up registered.\<close>

lemma update_user_address_filled:
  assumes "user_inv s" and "a \<in> set addresses" and "us_user_id s a \<noteq> 0"
  shows "us_user_address (snd (update_user_address_loop addresses counts s)) (us_user_id s a) = Some a"
  using assms
proof (induction addresses counts s rule: update_user_address_loop.induct)
  case (2 b addresses n m k s)
  have fill: "user_inv (set_user_address (us_user_id s b) b s)" if "0 < us_user_id s b"
    using registry_inv_fill [OF "2.prems"(1) refl, of b] that by simp
  have here: "us_user_address s (us_user_id s a) = None \<or> us_user_address s (us_user_id s a) = Some a"
    using "2.prems"(1,3) unfolding registry_inv_def by (metis not_Some_eq)
  show ?case
  proof (cases "a = b")
    case True
    then show ?thesis
      using here "2.prems"(3) fill update_user_address_inv [OF fill] update_user_address_inv [OF "2.prems"(1)]
      by (auto simp: Let_def is_empty_user_address_def)
  next
    case False
    then have a: "a \<in> set addresses"
      using "2.prems"(2) by simp
    show ?thesis
      using "2.IH"(1) [OF refl _ _ fill a] "2.IH"(2) [OF refl _ _ "2.prems"(1) a] "2.IH"(3) [OF refl _ "2.prems"(1) a]
        "2.prems"(3) by (simp add: Let_def)
  qed
qed simp

end
