(* ===== verification/Fund_View.thy ===== *)
theory Fund_View
  imports Fund_Transf User_Data
begin

text \<open>
  The views on the fund storage (\<^verbatim>\<open>user-fund-storage/src/fund_view_module.rs\<close>). The views
  by address read the user registry; the lists by type and by user come out of the fund
  module's traversals.
\<close>

section \<open>Views\<close>

definition USER_STAKE_TOTALS_ID :: nat where
  "USER_STAKE_TOTALS_ID = 0"

definition get_user_stake_of_type :: "fund_storage \<Rightarrow> nat \<Rightarrow> fund_type \<Rightarrow> nat" where
  "get_user_stake_of_type s u t =
     (if u = USER_STAKE_TOTALS_ID then total_balance (fund_list_by_type s t)
      else total_balance (fund_list_by_user s u t))"

definition get_user_total_stake :: "fund_storage \<Rightarrow> nat \<Rightarrow> nat" where
  "get_user_total_stake s u =
     0 + get_user_stake_of_type s u WithdrawOnly + get_user_stake_of_type s u Waiting +
     get_user_stake_of_type s u Active + get_user_stake_of_type s u UnStaked +
     get_user_stake_of_type s u DeferredPayment"

definition get_total_stake :: "fund_storage \<Rightarrow> nat" where
  "get_total_stake s = get_user_total_stake s USER_STAKE_TOTALS_ID"

definition get_user_total_stake_endpoint :: "user_storage \<Rightarrow> fund_storage \<Rightarrow> address \<Rightarrow> nat" where
  "get_user_total_stake_endpoint us s a =
     (let u = us_user_id us a in if u = 0 then 0 else get_user_total_stake s u)"

definition get_user_stake_of_type_by_address ::
  "user_storage \<Rightarrow> fund_storage \<Rightarrow> address \<Rightarrow> fund_type \<Rightarrow> nat" where
  "get_user_stake_of_type_by_address us s a t =
     (let u = us_user_id us a in if u = 0 then 0 else get_user_stake_of_type s u t)"

text \<open>The getters for one type, per user and in total.\<close>

definition get_user_withdraw_only_stake :: "user_storage \<Rightarrow> fund_storage \<Rightarrow> address \<Rightarrow> nat" where
  "get_user_withdraw_only_stake us s a = get_user_stake_of_type_by_address us s a WithdrawOnly"

definition get_user_waiting_stake :: "user_storage \<Rightarrow> fund_storage \<Rightarrow> address \<Rightarrow> nat" where
  "get_user_waiting_stake us s a = get_user_stake_of_type_by_address us s a Waiting"

definition get_user_active_stake :: "user_storage \<Rightarrow> fund_storage \<Rightarrow> address \<Rightarrow> nat" where
  "get_user_active_stake us s a = get_user_stake_of_type_by_address us s a Active"

definition get_user_unstaked_stake :: "user_storage \<Rightarrow> fund_storage \<Rightarrow> address \<Rightarrow> nat" where
  "get_user_unstaked_stake us s a = get_user_stake_of_type_by_address us s a UnStaked"

definition get_user_deferred_payment_stake :: "user_storage \<Rightarrow> fund_storage \<Rightarrow> address \<Rightarrow> nat" where
  "get_user_deferred_payment_stake us s a = get_user_stake_of_type_by_address us s a DeferredPayment"

definition get_total_withdraw_only_stake :: "fund_storage \<Rightarrow> nat" where
  "get_total_withdraw_only_stake s = get_user_stake_of_type s USER_STAKE_TOTALS_ID WithdrawOnly"

definition get_total_waiting_stake :: "fund_storage \<Rightarrow> nat" where
  "get_total_waiting_stake s = get_user_stake_of_type s USER_STAKE_TOTALS_ID Waiting"

definition get_total_active_stake :: "fund_storage \<Rightarrow> nat" where
  "get_total_active_stake s = get_user_stake_of_type s USER_STAKE_TOTALS_ID Active"

definition get_total_unstaked_stake :: "fund_storage \<Rightarrow> nat" where
  "get_total_unstaked_stake s = get_user_stake_of_type s USER_STAKE_TOTALS_ID UnStaked"

definition get_total_deferred_payment_stake :: "fund_storage \<Rightarrow> nat" where
  "get_total_deferred_payment_stake s = get_user_stake_of_type s USER_STAKE_TOTALS_ID DeferredPayment"

definition get_user_stake_by_type :: "fund_storage \<Rightarrow> nat \<Rightarrow> nat \<times> nat \<times> nat \<times> nat \<times> nat" where
  "get_user_stake_by_type s u =
     (get_user_stake_of_type s u WithdrawOnly, get_user_stake_of_type s u Waiting,
      get_user_stake_of_type s u Active, get_user_stake_of_type s u UnStaked,
      get_user_stake_of_type s u DeferredPayment)"

definition get_user_stake_by_type_endpoint ::
  "user_storage \<Rightarrow> fund_storage \<Rightarrow> address \<Rightarrow> nat \<times> nat \<times> nat \<times> nat \<times> nat" where
  "get_user_stake_by_type_endpoint us s a =
     (let u = us_user_id us a in if u = 0 then (0, 0, 0, 0, 0) else get_user_stake_by_type s u)"

definition get_total_stake_by_type_endpoint :: "fund_storage \<Rightarrow> nat \<times> nat \<times> nat \<times> nat \<times> nat" where
  "get_total_stake_by_type_endpoint s = get_user_stake_by_type s USER_STAKE_TOTALS_ID"

fun get_all_user_stake_by_type_loop ::
  "address res \<Rightarrow> user_storage \<Rightarrow> fund_storage \<Rightarrow> nat list
     \<Rightarrow> (address \<times> nat \<times> nat \<times> nat \<times> nat \<times> nat) list res"
where
  "get_all_user_stake_by_type_loop missing us s [] = Inr []"
| "get_all_user_stake_by_type_loop missing us s (u # ids) =
     bind_res (get_user_address missing us u) (\<lambda>a.
     bind_res (get_all_user_stake_by_type_loop missing us s ids) (\<lambda>rest.
       Inr ((a, get_user_stake_by_type s u) # rest)))"

definition get_all_user_stake_by_type ::
  "address res \<Rightarrow> user_storage \<Rightarrow> fund_storage \<Rightarrow> (address \<times> nat \<times> nat \<times> nat \<times> nat \<times> nat) list res" where
  "get_all_user_stake_by_type missing us s =
     get_all_user_stake_by_type_loop missing us s [1..<Suc (us_num_users us)]"

definition get_user_deferred_payment_list ::
  "user_storage \<Rightarrow> fund_storage \<Rightarrow> address \<Rightarrow> (nat \<times> u64) list res" where
  "get_user_deferred_payment_list us s a =
     (let u = us_user_id us a in
      if 0 < u then
        foreach_fund_by_user_type s u DeferredPayment Forwards
          (\<lambda>it result. case fund_desc it of
             FdDeferredPayment created \<Rightarrow> result @ [(balance it, created)] | _ \<Rightarrow> result) []
      else Inr [])"

definition eligible_deferred_payment :: "u64 \<Rightarrow> fund_storage \<Rightarrow> nat \<Rightarrow> u64 \<Rightarrow> nat res" where
  "eligible_deferred_payment nonce s u n_blocks_before_claim =
     query_sum_funds_by_user_type s u DeferredPayment
       (\<lambda>d. case d of FdDeferredPayment created \<Rightarrow> created + n_blocks_before_claim \<le> nonce
                     | _ \<Rightarrow> False)"

definition get_full_waiting_list ::
  "address res \<Rightarrow> user_storage \<Rightarrow> fund_storage \<Rightarrow> (address \<times> nat \<times> u64) list res" where
  "get_full_waiting_list missing us s =
     bind_res
       (foreach_fund_by_type s Waiting Forwards
          (\<lambda>it result. case fund_desc it of
             FdWaiting created \<Rightarrow>
               bind_res result (\<lambda>r. bind_res (get_user_address missing us (user_id it)) (\<lambda>a.
                 Inr (r @ [(a, balance it, created)])))
           | _ \<Rightarrow> result) (Inr []))
       (\<lambda>result. result)"

definition zero_address :: address where
  "zero_address = replicate 32 0"

definition get_full_active_list ::
  "address res \<Rightarrow> user_storage \<Rightarrow> fund_storage \<Rightarrow> (address \<times> nat) list res" where
  "get_full_active_list missing us s =
     bind_res
       (foreach_fund_by_type s Active Forwards
          (\<lambda>it result. case fund_desc it of
             FdActive \<Rightarrow>
               bind_res result (\<lambda>r.
                 if is_empty_user_address us (user_id it) then Inr (r @ [(zero_address, balance it)])
                 else bind_res (get_user_address missing us (user_id it)) (\<lambda>a.
                   Inr (r @ [(a, balance it)])))
           | _ \<Rightarrow> result) (Inr []))
       (\<lambda>result. result)"

section \<open>The views agree with the storage\<close>

lemma get_user_stake_of_type_totals [simp]:
  "get_user_stake_of_type s 0 t = type_total s t"
  "u \<noteq> 0 \<Longrightarrow> get_user_stake_of_type s u t = user_total s u t"
  by (simp_all add: get_user_stake_of_type_def USER_STAKE_TOTALS_ID_def type_total_def user_total_def)

text \<open>The total of a type is the sum over all users that could own a fund.\<close>

lemma sum_of_users:
  assumes "finite U" and "\<And>e. e \<in> set (a_entries a) \<Longrightarrow> euser e \<in> U"
  shows "sum_of Q a = (\<Sum>u\<in>U. sum_of (\<lambda>v d. v = u \<and> Q v d) a)"
proof -
  have "sum_where P es = (\<Sum>u\<in>U. sum_where (\<lambda>e. euser e = u \<and> P e) es)"
    if "\<And>e. e \<in> set es \<Longrightarrow> euser e \<in> U" for P es
    using that
  proof (induction es)
    case (Cons e es)
    have "sum_where (\<lambda>e. euser e = u \<and> P e) (e # es) =
      sum_where (\<lambda>e. euser e = u \<and> P e) es + (if euser e = u then (if P e then ebal e else 0) else 0)" for u
      by (simp add: sum_where_def)
    moreover have "sum_where P (e # es) = sum_where P es + (if P e then ebal e else 0)"
      by (simp add: sum_where_def)
    ultimately show ?case
      using Cons assms(1) by (simp add: sum.distrib)
  qed (simp add: sum_where_def)
  then show ?thesis
    using assms(2) by (simp add: sum_of_def)
qed

lemma type_total_sum_users:
  assumes "fund_inv s" and "finite U" and "\<And>u. user_total s u t \<noteq> 0 \<Longrightarrow> u \<in> U"
  shows "type_total s t = (\<Sum>u\<in>U. user_total s u t)"
proof -
  from assms(1) obtain a where wf: "wf_funds a" and s: "s = concrete a"
    by (rule fund_invE)
  let ?V = "euser ` set (a_entries a)"
  have "type_total s t = (\<Sum>u\<in>?V \<union> U. user_total s u t)"
    using sum_of_users [of "?V \<union> U" a "\<lambda>_ d. fund_type_of d = t"] assms(2) by (simp add: s)
  also have "\<dots> = (\<Sum>u\<in>U. user_total s u t)"
    by (rule sum.mono_neutral_right) (use assms in auto)
  finally show ?thesis .
qed

lemma user_total_le:
  assumes "fund_inv s"
  shows "user_total s u t \<le> type_total s t"
proof -
  from assms obtain a where s: "s = concrete a"
    by (rule fund_invE)
  have "sum_where (of_user u t) es \<le> sum_where (of_type t) es" for es
    by (induction es) (auto simp: sum_where_def of_user_def of_type_def)
  then show ?thesis
    by (simp add: s sum_of_user sum_of_type)
qed

lemma foreach_type_concrete:
  "wf_funds a \<Longrightarrow> foreach_fund_by_type (concrete a) t Forwards body acc =
    Inr (fold (\<lambda>e. body (conc_item (a_entries a) e)) (filter (of_type t) (a_entries a)) acc)"
  by (simp add: foreach_fund_by_type_def traverse_type_concrete del: ends_by_type_concrete)

lemma foreach_user_concrete:
  "wf_funds a \<Longrightarrow> foreach_fund_by_user_type (concrete a) u t Forwards body acc =
    Inr (fold (\<lambda>e. body (conc_item (a_entries a) e)) (filter (of_user u t) (a_entries a)) acc)"
  by (simp add: foreach_fund_by_user_type_def traverse_user_concrete del: ends_by_user_concrete)

definition created_of :: "fund_description \<Rightarrow> u64" where
  "created_of d = (case d of FdWaiting c \<Rightarrow> c | FdUnStaked c \<Rightarrow> c | FdDeferredPayment c \<Rightarrow> c | _ \<Rightarrow> 0)"

lemma deferred_desc: "fund_type_of d = DeferredPayment \<Longrightarrow> d = FdDeferredPayment (created_of d)"
  by (cases d) (simp_all add: created_of_def)

lemma deferred_payment_list_concrete:
  assumes "wf_funds a" and "us_user_id us addr \<noteq> 0"
  shows "get_user_deferred_payment_list us (concrete a) addr =
    Inr (map (\<lambda>e. (ebal e, created_of (edesc e)))
      (filter (of_user (us_user_id us addr) DeferredPayment) (a_entries a)))"
proof -
  have "fold (\<lambda>e result. case edesc e of
      FdDeferredPayment created \<Rightarrow> result @ [(ebal e, created)] | _ \<Rightarrow> result) es acc =
    acc @ map (\<lambda>e. (ebal e, created_of (edesc e))) es"
    if "\<forall>e\<in>set es. etype e = DeferredPayment" for es acc
    using that
  proof (induction es arbitrary: acc)
    case (Cons e es)
    moreover have "edesc e = FdDeferredPayment (created_of (edesc e))"
      using deferred_desc [of "edesc e"] Cons.prems by (simp add: etype_def)
    ultimately show ?case
      by (auto split: fund_description.splits)
  qed simp
  then show ?thesis
    using assms by (simp add: get_user_deferred_payment_list_def foreach_user_concrete of_user_def Let_def
        cong: fund_description.case_cong)
qed

section \<open>The amount that can be unbonded\<close>

lemma eligible_is_convertible:
  "eligible_deferred_payment nonce s u n =
     query_sum_funds_by_user_type s u DeferredPayment (\<lambda>d. deferred_to_withdraw nonce n d \<noteq> None)"
  unfolding eligible_deferred_payment_def
  by (rule arg_cong [where f = "query_sum_funds_by_user_type s u DeferredPayment"])
    (auto simp: fun_eq_iff deferred_to_withdraw_def split: fund_description.splits)

lemma loop_result_filtered:
  assumes "\<And>k. \<not> intr k"
  shows "snd (snd (loop_result tr intr k None rem)) = sum_list (map ebal (filter (\<lambda>e. tr e \<noteq> None) rem))"
  using assms by (induction rem arbitrary: k)
    (auto simp: left_over_def taken_def case_prod_unfold Let_def split: option.splits)

lemma split_convert_all_by_user_amount:
  assumes inv: "fund_inv s" and room: "id_room 2 s" and g: "swaps t t' g" and go: "\<And>k. \<not> intr k"
    and run: "split_convert_max_by_user None u t Forwards g intr s = Inr (x, mx', s')"
  shows "query_sum_funds_by_user_type s u t (\<lambda>d. g d \<noteq> None) = Inr x"
proof -
  from inv obtain a where wf: "wf_funds a" and s: "s = concrete a"
    by (rule fund_invE)
  let ?tr = "\<lambda>e. g (edesc e)" and ?rem = "chain_of Forwards (of_user u t) (a_entries a)"
  note ready = ready_start [OF wf room [unfolded s], of Forwards "of_user u t"]
  have "x = snd (snd (loop_result ?tr intr 0 None ?rem))"
    using run split_convert_by_user_loop_refines [OF ready maps_type_leaves [OF swaps_maps_type [OF g]], of intr 0 None 0]
    by (simp add: split_convert_max_by_user_def s first_id_of_user_type_concrete case_prod_unfold)
  then show ?thesis
    using query_by_user_concrete [OF wf, of u t "\<lambda>d. g d \<noteq> None"]
    by (simp add: loop_result_filtered go s sum_of_def sum_where_def chain_of_def of_user_def etype_def conj_ac)
qed

lemma swap_eligible_amount:
  assumes "fund_inv s" and "id_room 2 s"
  shows "\<exists>x s'. swap_eligible_deferred_to_withdraw nonce u n (\<lambda>_. False) s = Inr (x, s') \<and>
    eligible_deferred_payment nonce s u n = Inr x \<and> converts {u} (user_items s u DeferredPayment) DeferredPayment WithdrawOnly x s s'"
proof -
  obtain x mx' s' where run: "split_convert_max_by_user None u DeferredPayment Forwards
      (deferred_to_withdraw nonce n) (\<lambda>_. False) s = Inr (x, mx', s')"
    and conv: "converts {u} (user_items s u DeferredPayment) DeferredPayment WithdrawOnly x s s'"
    using split_convert_max_by_user_run [OF assms swaps_deferred, of None u Forwards nonce n "\<lambda>_. False"] by blast
  then show ?thesis
    using split_convert_all_by_user_amount [OF assms swaps_deferred _ run]
    by (simp add: swap_eligible_deferred_to_withdraw_def eligible_is_convertible)
qed

end
