(* ===== verification/Rewards_State.thy ===== *)
theory Rewards_State
  imports Fund_View Complex_Main
begin

text \<open>
  Settings (\<^verbatim>\<open>latest/src/settings.rs\<close>) and the rewards of the delegators
  (\<^verbatim>\<open>latest/src/rewards_state.rs\<close>): what a user has earned since the last checkpoint, and the
  storage it is kept in. \<open>tot\<close> is \<^verbatim>\<open>get_cumulated_validator_rewards\<close>, the rewards that ever
  arrived in the contract, a value of the blockchain.
\<close>

section \<open>Settings\<close>

definition PERCENTAGE_DENOMINATOR :: nat where
  "PERCENTAGE_DENOMINATOR = 10000"

definition OWNER_USER_ID :: nat where
  "OWNER_USER_ID = 1"

record settings =
  auction_addr :: address
  service_fee :: nat
  total_delegation_cap :: nat
  bootstrap_mode :: bool
  owner_min_stake_share :: nat
  n_blocks_before_unbond :: u64
  min_stake :: nat

definition set_owner_min_stake_share_validated :: "nat \<Rightarrow> settings \<Rightarrow> settings res" where
  "set_owner_min_stake_share_validated owner_min_stake_share_per_10000 st =
     require (owner_min_stake_share_per_10000 \<le> PERCENTAGE_DENOMINATOR)
       ''owner min stake share out of range''
       (Inr (st\<lparr>owner_min_stake_share := owner_min_stake_share_per_10000\<rparr>))"

section \<open>Rewards\<close>

record user_reward_data =
  reward_checkpoint :: nat
  unclaimed_rewards :: nat

record reward_storage =
  rs_unclaimed :: "nat \<Rightarrow> nat"
  rs_checkpoint :: "nat \<Rightarrow> nat"
  rs_sent :: nat

definition reward_storage_empty :: reward_storage where
  "reward_storage_empty = \<lparr>rs_unclaimed = (\<lambda>_. 0), rs_checkpoint = (\<lambda>_. 0), rs_sent = 0\<rparr>"

definition split_service_reward :: "settings \<Rightarrow> nat \<Rightarrow> (nat \<times> nat) res" where
  "split_service_reward st tot_rewards =
     bind_res (biguint_div (service_fee st * tot_rewards) PERCENTAGE_DENOMINATOR) (\<lambda>service_rewards.
     bind_res (biguint_sub PERCENTAGE_DENOMINATOR (service_fee st)) (\<lambda>delegators_share.
     bind_res (biguint_div (delegators_share * tot_rewards) PERCENTAGE_DENOMINATOR)
       (\<lambda>total_delegators_rewards. Inr (service_rewards, total_delegators_rewards))))"

definition load_user_reward_data :: "reward_storage \<Rightarrow> nat \<Rightarrow> user_reward_data" where
  "load_user_reward_data rw u = \<lparr>reward_checkpoint = rs_checkpoint rw u, unclaimed_rewards = rs_unclaimed rw u\<rparr>"

definition store_user_reward_data :: "nat \<Rightarrow> user_reward_data \<Rightarrow> reward_storage \<Rightarrow> reward_storage" where
  "store_user_reward_data u data rw =
     rw\<lparr>rs_checkpoint := (rs_checkpoint rw)(u := reward_checkpoint data),
        rs_unclaimed := (rs_unclaimed rw)(u := unclaimed_rewards data)\<rparr>"

definition load_updated_user_rewards ::
  "nat \<Rightarrow> settings \<Rightarrow> fund_storage \<Rightarrow> reward_storage \<Rightarrow> nat \<Rightarrow> user_reward_data res" where
  "load_updated_user_rewards tot st fs rw u =
     (let user_data = load_user_reward_data rw u in
      bind_res (biguint_sub tot (reward_checkpoint user_data)) (\<lambda>tot_new_rewards.
      if tot_new_rewards = 0 then Inr user_data
      else
        bind_res (split_service_reward st tot_new_rewards) (\<lambda>(service_rewards, total_delegators_rewards).
        let delegation_cap = total_delegation_cap st in
        bind_res
          (if u = OWNER_USER_ID then
             let ud = user_data\<lparr>unclaimed_rewards := unclaimed_rewards user_data + service_rewards\<rparr>;
                 tot_stake_active = get_user_stake_of_type fs USER_STAKE_TOTALS_ID Active in
             if tot_stake_active < delegation_cap then
               bind_res (biguint_sub delegation_cap tot_stake_active) (\<lambda>missing_stake.
               bind_res (biguint_div (total_delegators_rewards * missing_stake) delegation_cap)
                 (\<lambda>owner_unstaked_rewards.
                   Inr (ud\<lparr>unclaimed_rewards := unclaimed_rewards ud + owner_unstaked_rewards\<rparr>)))
             else Inr ud
           else Inr user_data)
          (\<lambda>user_data1.
        let u_stake_active = get_user_stake_of_type fs u Active in
        bind_res
          (if 0 < u_stake_active then
             bind_res (biguint_div (total_delegators_rewards * u_stake_active) delegation_cap)
               (\<lambda>delegator_new_rewards.
                 Inr (user_data1\<lparr>unclaimed_rewards :=
                        unclaimed_rewards user_data1 + delegator_new_rewards\<rparr>))
           else Inr user_data1)
          (\<lambda>user_data2. Inr (user_data2\<lparr>reward_checkpoint := tot\<rparr>))))))"

definition compute_one_user_reward ::
  "nat \<Rightarrow> settings \<Rightarrow> fund_storage \<Rightarrow> nat \<Rightarrow> reward_storage \<Rightarrow> reward_storage res" where
  "compute_one_user_reward tot st fs u rw =
     bind_res (load_updated_user_rewards tot st fs rw u) (\<lambda>data.
       Inr (store_user_reward_data u data rw))"

definition get_claimable_rewards ::
  "nat \<Rightarrow> settings \<Rightarrow> user_storage \<Rightarrow> fund_storage \<Rightarrow> reward_storage \<Rightarrow> address \<Rightarrow> nat res" where
  "get_claimable_rewards tot st us fs rw a =
     (let u = us_user_id us a in
      if u = 0 then Inr 0
      else bind_res (load_updated_user_rewards tot st fs rw u) (\<lambda>data. Inr (unclaimed_rewards data)))"

fun get_total_unclaimed_rewards_loop ::
  "nat \<Rightarrow> settings \<Rightarrow> fund_storage \<Rightarrow> reward_storage \<Rightarrow> nat list \<Rightarrow> nat \<Rightarrow> nat res"
where
  "get_total_unclaimed_rewards_loop tot st fs rw [] sum_unclaimed = Inr sum_unclaimed"
| "get_total_unclaimed_rewards_loop tot st fs rw (u # ids) sum_unclaimed =
     bind_res (load_updated_user_rewards tot st fs rw u) (\<lambda>data.
       get_total_unclaimed_rewards_loop tot st fs rw ids (sum_unclaimed + unclaimed_rewards data))"

definition get_total_unclaimed_rewards ::
  "nat \<Rightarrow> settings \<Rightarrow> user_storage \<Rightarrow> fund_storage \<Rightarrow> reward_storage \<Rightarrow> nat res" where
  "get_total_unclaimed_rewards tot st us fs rw =
     get_total_unclaimed_rewards_loop tot st fs rw [1..<Suc (us_num_users us)] 0"

definition total_unprotected :: "nat \<Rightarrow> nat \<Rightarrow> fund_storage \<Rightarrow> reward_storage \<Rightarrow> nat res" where
  "total_unprotected sc_balance tot fs rw =
     (let total_waiting = get_user_stake_of_type fs USER_STAKE_TOTALS_ID Waiting;
          total_deferred = get_user_stake_of_type fs USER_STAKE_TOTALS_ID DeferredPayment;
          total_withdraw = get_user_stake_of_type fs USER_STAKE_TOTALS_ID WithdrawOnly in
      bind_res (biguint_sub (sc_balance + rs_sent rw) tot) (\<lambda>unprotected1.
      bind_res (biguint_sub unprotected1 total_waiting) (\<lambda>unprotected2.
      bind_res (biguint_sub unprotected2 total_deferred) (\<lambda>unprotected3.
      biguint_sub unprotected3 total_withdraw))))"

section \<open>Facts about one computation\<close>

lemma store_user_reward_data_simps [simp]:
  "rs_checkpoint (store_user_reward_data u d rw) = (rs_checkpoint rw)(u := reward_checkpoint d)"
  "rs_unclaimed (store_user_reward_data u d rw) = (rs_unclaimed rw)(u := unclaimed_rewards d)"
  "rs_sent (store_user_reward_data u d rw) = rs_sent rw"
  by (simp_all add: store_user_reward_data_def)

lemma split_service_reward_ok:
  "service_fee st \<le> PERCENTAGE_DENOMINATOR \<Longrightarrow>
     split_service_reward st x = Inr (service_fee st * x div PERCENTAGE_DENOMINATOR,
       (PERCENTAGE_DENOMINATOR - service_fee st) * x div PERCENTAGE_DENOMINATOR)"
  by (simp add: split_service_reward_def PERCENTAGE_DENOMINATOR_def)

text \<open>The new rewards of a user, as one formula.\<close>

definition delegators_part :: "settings \<Rightarrow> nat \<Rightarrow> nat" where
  "delegators_part st x = (PERCENTAGE_DENOMINATOR - service_fee st) * x div PERCENTAGE_DENOMINATOR"

definition new_rewards :: "settings \<Rightarrow> fund_storage \<Rightarrow> nat \<Rightarrow> nat \<Rightarrow> nat" where
  "new_rewards st fs u x =
     (let cap = total_delegation_cap st; d = delegators_part st x in
      (if u = OWNER_USER_ID
       then service_fee st * x div PERCENTAGE_DENOMINATOR + d * (cap - type_total fs Active) div cap
       else 0) + d * user_total fs u Active div cap)"

lemma load_updated_user_rewards_ok:
  assumes fee: "service_fee st \<le> PERCENTAGE_DENOMINATOR" and u: "u \<noteq> 0"
    and chk: "rs_checkpoint rw u \<le> tot" and cap: "user_total fs u Active \<noteq> 0 \<Longrightarrow> 0 < total_delegation_cap st"
  shows "load_updated_user_rewards tot st fs rw u =
    Inr \<lparr>reward_checkpoint = tot,
         unclaimed_rewards = rs_unclaimed rw u + new_rewards st fs u (tot - rs_checkpoint rw u)\<rparr>"
proof (cases "tot = rs_checkpoint rw u")
  case True
  have "new_rewards st fs u 0 = 0"
    by (simp add: new_rewards_def delegators_part_def Let_def)
  then show ?thesis
    using True by (simp add: load_updated_user_rewards_def load_user_reward_data_def)
next
  case False
  then have "tot - rs_checkpoint rw u \<noteq> 0"
    using chk by simp
  then show ?thesis
    using chk u cap split_service_reward_ok [OF fee, of "tot - rs_checkpoint rw u"]
    by (auto simp: load_updated_user_rewards_def load_user_reward_data_def new_rewards_def delegators_part_def
        USER_STAKE_TOTALS_ID_def Let_def)
qed

lemma compute_one_user_reward_ok:
  assumes "service_fee st \<le> PERCENTAGE_DENOMINATOR" and "u \<noteq> 0"
    and "rs_checkpoint rw u \<le> tot" and "user_total fs u Active \<noteq> 0 \<Longrightarrow> 0 < total_delegation_cap st"
  shows "compute_one_user_reward tot st fs u rw =
    Inr (rw\<lparr>rs_checkpoint := (rs_checkpoint rw)(u := tot),
            rs_unclaimed := (rs_unclaimed rw)
              (u := rs_unclaimed rw u + new_rewards st fs u (tot - rs_checkpoint rw u))\<rparr>)"
  by (simp add: compute_one_user_reward_def load_updated_user_rewards_ok [OF assms] store_user_reward_data_def)

end
