(* ===== verification/Node_Config.thy ===== *)
theory Node_Config
  imports User_Data "HOL-Library.Multiset"
begin

text \<open>
  The validator nodes the contract knows (\<^verbatim>\<open>node-storage/src\<close>): their BLS keys, signatures
  and states, how they are added and removed, and the partition of node ids by the answer
  of the auction contract.
\<close>

section \<open>Data\<close>

type_synonym bls_key = "u8 list"
type_synonym bls_signature = "u8 list"

datatype node_state =
    Inactive
  | PendingActivation
  | ActivationFailed
  | NodeActive
  | PendingDeactivation
  | UnBondPeriod u64
  | PendingUnBond u64
  | Removed

fun node_discriminant :: "node_state \<Rightarrow> u8" where
  "node_discriminant Inactive = 0"
| "node_discriminant PendingActivation = 1"
| "node_discriminant ActivationFailed = 2"
| "node_discriminant NodeActive = 3"
| "node_discriminant PendingDeactivation = 4"
| "node_discriminant (UnBondPeriod started) = 5"
| "node_discriminant (PendingUnBond unbond_started) = 6"
| "node_discriminant Removed = 7"

definition MAX_NODES_PER_OPERATION :: nat where
  "MAX_NODES_PER_OPERATION = 100"

text \<open>\<^verbatim>\<open>NodeIndexArrayVec::push\<close> panics when the vector is full.\<close>

definition node_ids_push :: "nat list \<Rightarrow> nat \<Rightarrow> nat list res" where
  "node_ids_push node_ids i =
     (if length node_ids < MAX_NODES_PER_OPERATION then Inr (node_ids @ [i]) else Inl ArrayVecFull)"

text \<open>
  The state of a node whose key is not in storage reads as \<open>Inactive\<close>, the first variant, and
  its id as 0.
\<close>

record node_storage =
  ns_num_nodes :: nat
  ns_bls_to_id :: "bls_key \<Rightarrow> nat"
  ns_id_to_bls :: "nat \<Rightarrow> bls_key option"
  ns_signature :: "nat \<Rightarrow> bls_signature option"
  ns_state :: "nat \<Rightarrow> node_state"

definition node_storage_empty :: node_storage where
  "node_storage_empty = \<lparr>ns_num_nodes = 0, ns_bls_to_id = (\<lambda>_. 0), ns_id_to_bls = (\<lambda>_. None),
     ns_signature = (\<lambda>_. None), ns_state = (\<lambda>_. Inactive)\<rparr>"

definition get_node_state :: "node_storage \<Rightarrow> nat \<Rightarrow> node_state" where
  "get_node_state ns i = ns_state ns i"

definition set_node_state :: "nat \<Rightarrow> node_state \<Rightarrow> node_storage \<Rightarrow> node_storage" where
  "set_node_state i st ns = ns\<lparr>ns_state := (ns_state ns)(i := st)\<rparr>"

definition set_node_signature :: "nat \<Rightarrow> bls_signature \<Rightarrow> node_storage \<Rightarrow> node_storage" where
  "set_node_signature i sig ns = ns\<lparr>ns_signature := (ns_signature ns)(i := Some sig)\<rparr>"

text \<open>Reading a key or a signature that is not there: the outcome is the codec's, a parameter.\<close>

definition get_node_id_to_bls :: "bls_key res \<Rightarrow> node_storage \<Rightarrow> nat \<Rightarrow> bls_key res" where
  "get_node_id_to_bls missing ns i = (case ns_id_to_bls ns i of None \<Rightarrow> missing | Some k \<Rightarrow> Inr k)"

definition get_node_signature :: "bls_signature res \<Rightarrow> node_storage \<Rightarrow> nat \<Rightarrow> bls_signature res" where
  "get_node_signature missing ns i = (case ns_signature ns i of None \<Rightarrow> missing | Some k \<Rightarrow> Inr k)"

section \<open>Operations\<close>

definition get_node_signature_endpoint ::
  "bls_signature res \<Rightarrow> node_storage \<Rightarrow> bls_key \<Rightarrow> bls_signature option res" where
  "get_node_signature_endpoint missing ns k =
     (let i = ns_bls_to_id ns k in
      if i = 0 then Inr None
      else bind_res (get_node_signature missing ns i) (\<lambda>sig. Inr (Some sig)))"

definition get_node_state_endpoint :: "node_storage \<Rightarrow> bls_key \<Rightarrow> node_state" where
  "get_node_state_endpoint ns k =
     (let i = ns_bls_to_id ns k in if i = 0 then Removed else get_node_state ns i)"

fun get_all_node_states_loop ::
  "bls_key res \<Rightarrow> node_storage \<Rightarrow> nat list \<Rightarrow> (bls_key \<times> u8) list res"
where
  "get_all_node_states_loop missing ns [] = Inr []"
| "get_all_node_states_loop missing ns (i # ids) =
     bind_res (get_node_id_to_bls missing ns i) (\<lambda>k.
     bind_res (get_all_node_states_loop missing ns ids) (\<lambda>rest.
       Inr ((k, node_discriminant (get_node_state ns i)) # rest)))"

definition get_all_node_states :: "bls_key res \<Rightarrow> node_storage \<Rightarrow> (bls_key \<times> u8) list res" where
  "get_all_node_states missing ns =
     get_all_node_states_loop missing ns [1..<usize_add (ns_num_nodes ns) 1]"

definition get_node_bl_nonce_of_unstake_endpoint :: "node_storage \<Rightarrow> bls_key \<Rightarrow> u64 option" where
  "get_node_bl_nonce_of_unstake_endpoint ns k =
     (let i = ns_bls_to_id ns k in
      if i = 0 then None
      else case get_node_state ns i of UnBondPeriod started \<Rightarrow> Some started | _ \<Rightarrow> None)"

text \<open>
  \<^verbatim>\<open>add_nodes\<close> keeps the number of nodes in a variable and writes it back after the loop; no
  call in the loop reads it from the storage.
\<close>

fun add_nodes_loop ::
  "(bls_key \<times> bls_signature) list \<Rightarrow> nat \<Rightarrow> node_storage \<Rightarrow> (nat \<times> node_storage) res"
where
  "add_nodes_loop [] num_nodes ns = Inr (num_nodes, ns)"
| "add_nodes_loop ((k, sig) # rest) num_nodes ns =
     (let i = ns_bls_to_id ns k in
      if i = 0 then
        let num_nodes' = usize_add num_nodes 1; i' = num_nodes';
            ns1 = ns\<lparr>ns_bls_to_id := (ns_bls_to_id ns)(k := i')\<rparr>;
            ns2 = ns1\<lparr>ns_id_to_bls := (ns_id_to_bls ns1)(i' := Some k)\<rparr>;
            ns3 = set_node_signature i' sig (set_node_state i' Inactive ns2)
        in add_nodes_loop rest num_nodes' ns3
      else if get_node_state ns i = Removed then
        add_nodes_loop rest num_nodes (set_node_signature i sig (set_node_state i Inactive ns))
      else Inl (ScPanic ''node already registered''))"

definition add_nodes ::
  "(bls_key \<times> bls_signature) list \<Rightarrow> node_storage \<Rightarrow> node_storage res" where
  "add_nodes bls_keys_signatures ns =
     bind_res (add_nodes_loop bls_keys_signatures (ns_num_nodes ns) ns)
       (\<lambda>(num_nodes, ns'). Inr (ns'\<lparr>ns_num_nodes := num_nodes\<rparr>))"

fun remove_nodes :: "bls_key list \<Rightarrow> node_storage \<Rightarrow> node_storage res" where
  "remove_nodes [] ns = Inr ns"
| "remove_nodes (k # keys) ns =
     (let i = ns_bls_to_id ns k in
      require (i \<noteq> 0) ''node not registered''
        (require (get_node_state ns i = Inactive) ''only inactive nodes can be removed''
          (remove_nodes keys (set_node_state i Removed ns))))"

text \<open>\<^verbatim>\<open>swap_remove\<close> puts the last element into the gap.\<close>

definition swap_remove :: "nat \<Rightarrow> 'a list \<Rightarrow> 'a list" where
  "swap_remove p xs = butlast (xs[p := last xs])"

fun position :: "('a \<Rightarrow> bool) \<Rightarrow> 'a list \<Rightarrow> nat option" where
  "position P [] = None"
| "position P (x # xs) = (if P x then Some 0 else map_option Suc (position P xs))"

fun split_node_ids_by_err_loop ::
  "node_storage \<Rightarrow> (bls_key \<times> u32) list \<Rightarrow> nat list \<Rightarrow> nat list \<Rightarrow> (nat list \<times> nat list) res"
where
  "split_node_ids_by_err_loop ns [] node_ids failed = Inr (node_ids, failed)"
| "split_node_ids_by_err_loop ns ((k, status) # args) node_ids failed =
     (if status \<noteq> 0 then
        let i = ns_bls_to_id ns k in
        case position (\<lambda>x. x = i) node_ids of
          Some pos \<Rightarrow>
            bind_res (node_ids_push failed i) (\<lambda>failed'.
              split_node_ids_by_err_loop ns args (swap_remove pos node_ids) failed')
        | None \<Rightarrow> split_node_ids_by_err_loop ns args node_ids failed
      else split_node_ids_by_err_loop ns args node_ids failed)"

definition split_node_ids_by_err ::
  "node_storage \<Rightarrow> nat list \<Rightarrow> (bls_key \<times> u32) list \<Rightarrow> (nat list \<times> nat list) res" where
  "split_node_ids_by_err ns node_ids node_status_args =
     split_node_ids_by_err_loop ns node_status_args node_ids []"

section \<open>Adding and removing nodes\<close>

text \<open>The number of nodes in the storage plays no part in the loop.\<close>

lemma add_nodes_loop_num:
  "add_nodes_loop kss n (ns\<lparr>ns_num_nodes := m\<rparr>) =
     bind_res (add_nodes_loop kss n ns) (\<lambda>(n', ns'). Inr (n', ns'\<lparr>ns_num_nodes := m\<rparr>))"
proof (induction kss arbitrary: n ns)
  case (Cons ks kss)
  obtain k sig where ks: "ks = (k, sig)"
    by (cases ks)
  let ?i = "ns_bls_to_id ns k" and ?j = "usize_add n 1"
  let ?new = "ns\<lparr>ns_bls_to_id := (ns_bls_to_id ns)(k := ?j), ns_id_to_bls := (ns_id_to_bls ns)(?j := Some k),
    ns_signature := (ns_signature ns)(?j := Some sig), ns_state := (ns_state ns)(?j := Inactive)\<rparr>"
  let ?old = "ns\<lparr>ns_signature := (ns_signature ns)(?i := Some sig), ns_state := (ns_state ns)(?i := Inactive)\<rparr>"
  show ?case
    using Cons.IH [of ?j ?new] Cons.IH [of n ?old]
    by (cases ns) (simp add: ks get_node_state_def set_node_signature_def set_node_state_def Let_def)
qed simp

lemma add_nodes_Nil [simp]: "add_nodes [] ns = Inr ns"
  by (simp add: add_nodes_def)

text \<open>Adding nodes one after the other.\<close>

lemma add_nodes_Cons:
  "add_nodes (ks # rest) ns = bind_res (add_nodes [ks] ns) (add_nodes rest)"
proof -
  obtain k sig where ks: "ks = (k, sig)"
    by (cases ks)
  show ?thesis
    by (auto simp: ks add_nodes_def add_nodes_loop_num bind_res_assoc Let_def get_node_state_def
        set_node_signature_def set_node_state_def case_prod_unfold)
qed

definition node_inv :: "node_storage \<Rightarrow> bool" where
  "node_inv ns \<longleftrightarrow> registry_inv (ns_bls_to_id ns) (ns_id_to_bls ns) (ns_num_nodes ns) \<and>
     (\<forall>i\<in>{1..ns_num_nodes ns}. ns_id_to_bls ns i \<noteq> None \<and> ns_signature ns i \<noteq> None)"

definition register_node :: "bls_signature \<Rightarrow> bls_key \<Rightarrow> node_storage \<Rightarrow> node_storage" where
  "register_node sig k ns = (case add_nodes [(k, sig)] ns of Inl _ \<Rightarrow> ns | Inr ns' \<Rightarrow> ns')"

lemma add_one_node:
  "add_nodes [(k, sig)] ns =
     (let i = ns_bls_to_id ns k in
      if i = 0 then
        let j = usize_add (ns_num_nodes ns) 1 in
        Inr (ns\<lparr>ns_num_nodes := j, ns_bls_to_id := (ns_bls_to_id ns)(k := j),
          ns_id_to_bls := (ns_id_to_bls ns)(j := Some k), ns_signature := (ns_signature ns)(j := Some sig),
          ns_state := (ns_state ns)(j := Inactive)\<rparr>)
      else if ns_state ns i = Removed then
        Inr (ns\<lparr>ns_signature := (ns_signature ns)(i := Some sig), ns_state := (ns_state ns)(i := Inactive)\<rparr>)
      else Inl (ScPanic ''node already registered''))"
  by (simp add: add_nodes_def Let_def set_node_signature_def set_node_state_def get_node_state_def)

interpretation node_registry:
  id_registry ns_bls_to_id ns_id_to_bls ns_num_nodes "register_node sig" for sig
  by unfold_locales (simp_all add: register_node_def add_one_node Let_def usize_add_small)

lemma node_inv_add_one:
  assumes "node_inv ns" and "add_nodes [(k, sig)] ns = Inr ns'" and "Suc (ns_num_nodes ns) < usize_max"
  shows "node_inv ns'" and "ns_num_nodes ns' \<le> Suc (ns_num_nodes ns)"
proof -
  have "registry_inv (ns_bls_to_id ns') (ns_id_to_bls ns') (ns_num_nodes ns')"
    using node_registry.register_inv [of ns sig k] assms by (simp add: node_inv_def register_node_def)
  moreover have "\<forall>i\<in>{1..ns_num_nodes ns'}. ns_id_to_bls ns' i \<noteq> None \<and> ns_signature ns' i \<noteq> None"
    using assms by (auto simp: add_one_node node_inv_def Let_def usize_add_small split: if_splits)
  ultimately show "node_inv ns'"
    by (simp add: node_inv_def)
  show "ns_num_nodes ns' \<le> Suc (ns_num_nodes ns)"
    using assms(2,3) by (auto simp: add_one_node Let_def usize_add_small split: if_splits)
qed

lemma add_nodes_inv:
  assumes "node_inv ns" and "add_nodes kss ns = Inr ns'" and "ns_num_nodes ns + length kss < usize_max"
  shows "node_inv ns'"
  using assms
proof (induction kss arbitrary: ns)
  case (Cons ks kss)
  obtain k sig where ks: "ks = (k, sig)"
    by (cases ks)
  obtain ns1 where ns1: "add_nodes [(k, sig)] ns = Inr ns1" "add_nodes kss ns1 = Inr ns'"
    using Cons.prems(2) [unfolded add_nodes_Cons [of ks kss ns]] by (auto simp only: ks bind_res_eq_Inr)
  have "Suc (ns_num_nodes ns) < usize_max"
    using Cons.prems(3) by simp
  note one = node_inv_add_one [OF Cons.prems(1) ns1(1) this]
  show ?case
    using Cons.IH [OF one(1) ns1(2)] one(2) Cons.prems(3) by simp
qed simp

lemma set_node_state_simps [simp]:
  "ns_state (set_node_state i st ns) = (ns_state ns)(i := st)" "ns_bls_to_id (set_node_state i st ns) = ns_bls_to_id ns"
  "ns_id_to_bls (set_node_state i st ns) = ns_id_to_bls ns" "ns_signature (set_node_state i st ns) = ns_signature ns"
  "ns_num_nodes (set_node_state i st ns) = ns_num_nodes ns"
  by (simp_all add: set_node_state_def)

lemma node_inv_set_state [simp]: "node_inv (set_node_state i st ns) = node_inv ns"
  by (simp add: node_inv_def)

lemma remove_nodes_keeps:
  "remove_nodes keys ns = Inr ns' \<Longrightarrow> node_inv ns' = node_inv ns \<and> ns_bls_to_id ns' = ns_bls_to_id ns \<and>
     ns_num_nodes ns' = ns_num_nodes ns \<and>
     (\<forall>i. ns_state ns' i = ns_state ns i \<or> ns_state ns i = Inactive \<and> ns_state ns' i = Removed)"
proof (induction keys arbitrary: ns)
  case (Cons k keys)
  let ?i = "ns_bls_to_id ns k"
  have st: "ns_state ns ?i = Inactive" and r: "remove_nodes keys (set_node_state ?i Removed ns) = Inr ns'"
    using Cons.prems by (auto simp: Let_def require_eq_Inr get_node_state_def)
  show ?case
    using Cons.IH [OF r] st by (auto split: if_splits)
qed simp

section \<open>Partition by the answer of the auction contract\<close>

lemma position_Some:
  "position P xs = Some p \<Longrightarrow> p < length xs \<and> P (xs ! p)"
  by (induction xs arbitrary: p) (auto split: if_splits)

lemma position_None: "position P xs = None \<longleftrightarrow> (\<forall>x\<in>set xs. \<not> P x)"
  by (induction xs) auto

lemma mset_swap_remove:
  assumes "p < length xs"
  shows "mset (swap_remove p xs) + {#xs ! p#} = mset xs"
proof -
  have "mset (xs[p := last xs]) = add_mset (last xs) (mset xs - {#xs ! p#})"
    using assms by (rule mset_update)
  moreover have "xs[p := last xs] = swap_remove p xs @ [last xs]"
  proof -
    have "xs \<noteq> []"
      using assms by auto
    then have "xs[p := last xs] \<noteq> []" "last (xs[p := last xs]) = last xs"
      by (simp_all add: last_list_update)
    then show ?thesis
      unfolding swap_remove_def by (metis append_butlast_last_id)
  qed
  ultimately have "mset (swap_remove p xs) = mset xs - {#xs ! p#}"
    by (metis add_mset_remove_trivial mset.simps(1,2) mset_append union_mset_add_mset_right
        add.right_neutral)
  then show ?thesis
    using assms by simp
qed

definition reported :: "node_storage \<Rightarrow> (bls_key \<times> u32) list \<Rightarrow> nat set" where
  "reported ns args = {ns_bls_to_id ns k | k status. (k, status) \<in> set args \<and> status \<noteq> 0}"

lemma reported_Cons:
  "reported ns ((k, status) # args) = (if status \<noteq> 0 then insert (ns_bls_to_id ns k) (reported ns args) else reported ns args)"
  by (auto simp: reported_def)

lemma split_node_ids_by_err_loop_run:
  assumes "length node_ids + length failed \<le> MAX_NODES_PER_OPERATION" and "distinct (node_ids @ failed)"
  shows "\<exists>ok failed'. split_node_ids_by_err_loop ns args node_ids failed = Inr (ok, failed') \<and>
    mset ok + mset failed' = mset node_ids + mset failed \<and>
    set failed' = set failed \<union> (set node_ids \<inter> reported ns args)"
  using assms
proof (induction args arbitrary: node_ids failed)
  case Nil
  then show ?case
    by (simp add: reported_def)
next
  case (Cons arg args)
  obtain k status where arg: "arg = (k, status)"
    by (cases arg)
  let ?i = "ns_bls_to_id ns k"
  show ?case
  proof (cases "status \<noteq> 0 \<and> ?i \<in> set node_ids")
    case True
    then obtain p where p: "position (\<lambda>x. x = ?i) node_ids = Some p"
      using position_None [of "\<lambda>x. x = ?i" node_ids] by (cases "position (\<lambda>x. x = ?i) node_ids") auto
    note at = position_Some [OF p]
    let ?ids = "swap_remove p node_ids" and ?f = "failed @ [?i]"
    have m: "mset ?ids + {#?i#} = mset node_ids"
      using mset_swap_remove [of p node_ids] at by simp
    have mm: "mset (?ids @ ?f) = mset (node_ids @ failed)"
      using m by (simp add: ac_simps)
    have len: "length ?ids + length ?f = length node_ids + length failed"
      using mset_eq_length [OF mm] by simp
    have dist: "distinct (?ids @ ?f)"
      using mset_eq_imp_distinct_iff [OF mm] Cons.prems(2) by simp
    have set: "set ?ids = set node_ids - {?i}"
      using mset_eq_setD [OF mm] dist Cons.prems(2) by auto
    have push: "node_ids_push failed ?i = Inr ?f"
    proof -
      have "length failed < length node_ids + length failed"
        using at by auto
      then show ?thesis
        using Cons.prems(1) unfolding node_ids_push_def by (simp only: less_le_trans if_True)
    qed
    show ?thesis
      using Cons.IH [of ?ids ?f] True p push len dist Cons.prems set m
      by (auto simp: arg reported_Cons Let_def ac_simps)
  next
    case False
    then have "split_node_ids_by_err_loop ns (arg # args) node_ids failed =
        split_node_ids_by_err_loop ns args node_ids failed"
      using position_None [of "\<lambda>x. x = ?i" node_ids] by (auto simp: arg Let_def split: option.splits)
    moreover have "set node_ids \<inter> reported ns (arg # args) = set node_ids \<inter> reported ns args"
      using False by (auto simp: arg reported_Cons)
    ultimately show ?thesis
      using Cons.IH [OF Cons.prems] by simp
  qed
qed

end
