(* ===== verification/Contract_State.thy ===== *)
theory Contract_State
  imports Rewards_State Node_Config
begin

text \<open>
  The whole contract: its storages side by side, what a call sees of the blockchain and of
  the framework's own modules, and what it leaves behind besides the storage. The checkpoint
  of interrupted operations (\<^verbatim>\<open>latest/src/reset_checkpoint_types.rs\<close> and
  \<^verbatim>\<open>reset_checkpoint_state.rs\<close>), the events (\<^verbatim>\<open>events.rs\<close>) and the calls to the auction contract
  (\<^verbatim>\<open>auction_proxy.rs\<close>) are declared here; the constructors of the two contracts
  (\<^verbatim>\<open>latest_full\<close>, \<^verbatim>\<open>latest_update\<close>) and the setters of the settings follow.
\<close>

section \<open>Interrupted operations\<close>

record compute_all_rewards_data =
  last_id :: nat
  sum_unclaimed :: nat
  rewards_checkpoint :: nat

definition compute_all_rewards_data_new :: "nat \<Rightarrow> compute_all_rewards_data" where
  "compute_all_rewards_data_new checkpoint =
     \<lparr>last_id = 0, sum_unclaimed = 0, rewards_checkpoint = checkpoint\<rparr>"

datatype modify_delegation_cap_step =
    ComputeAllRewards compute_all_rewards_data
  | SwapWaitingToActive
  | SwapUnstakedToDeferredPayment
  | SwapActiveToDeferredPayment

record modify_total_delegation_cap_data =
  new_delegation_cap :: nat
  remaining_swap_waiting_to_active :: nat
  remaining_swap_active_to_def_p :: nat
  remaining_swap_unstaked_to_def_p :: nat
  cap_step :: modify_delegation_cap_step

datatype global_op_checkpoint =
    GlobalOpNone
  | ModifyTotalDelegationCap modify_total_delegation_cap_data
  | ChangeServiceFee nat compute_all_rewards_data

definition global_op_is_none :: "global_op_checkpoint \<Rightarrow> bool" where
  "global_op_is_none orc = (case orc of GlobalOpNone \<Rightarrow> True | _ \<Rightarrow> False)"

datatype operation_completion_status = Completed | InterruptedBeforeOutOfGas

section \<open>The contract\<close>

record contract =
  c_settings :: settings
  c_users :: user_storage
  c_funds :: fund_storage
  c_rewards :: reward_storage
  c_nodes :: node_storage
  c_global_op :: global_op_checkpoint
  c_dust_checkpoint :: nat

text \<open>
  \<^verbatim>\<open>None\<close> is the zero value of a checkpoint, and storing it clears the key, so the key is
  empty exactly when the checkpoint is \<^verbatim>\<open>None\<close>.
\<close>

definition is_global_op_in_progress :: "contract \<Rightarrow> bool" where
  "is_global_op_in_progress c = (\<not> global_op_is_none (c_global_op c))"

section \<open>What a call sees\<close>

text \<open>
  The blockchain: the caller, the owner of the contract, the block nonce, the rewards that
  ever arrived, the balance. \<open>gas_left p k\<close> is the k-th reading of the gas counter in the
  p-th gas-limited loop of the call. The pause and feature modules are part of the
  framework: whether the contract is paused, and the outcome of a feature check.
\<close>

record sc_env =
  caller :: address
  sc_owner :: address
  block_nonce :: u64
  cumulated_rewards :: nat
  sc_balance :: nat
  gas_left :: "nat \<Rightarrow> nat \<Rightarrow> u64"
  not_paused :: bool
  check_feature_on :: "string \<Rightarrow> bool \<Rightarrow> unit res"

definition only_owner :: "sc_env \<Rightarrow> 'a res \<Rightarrow> 'a res" where
  "only_owner env r = require (caller env = sc_owner env) ''Endpoint can only be called by owner'' r"

section \<open>What a call leaves behind\<close>

datatype sc_event =
    StakeEvent address nat
  | UnstakeEvent address nat
  | StakeNodeOkEvent
  | StakeNodeFailEvent string
  | UnstakeNodeOkEvent
  | UnstakeNodeFailEvent string
  | UnbondNodeOkEvent
  | UnbondNodeFailEvent string
  | UnstakeTokensEvent nat
  | UnbondTokensEvent nat
  | ClaimRewardsEvent address nat

datatype auction_call =
    AuctionStake nat "(bls_key \<times> bls_signature) list"
  | AuctionUnStake "bls_key list"
  | AuctionUnStakeNodes "bls_key list"
  | AuctionUnBond "bls_key list"
  | AuctionUnBondNodes "bls_key list"
  | AuctionUnStakeTokens nat
  | AuctionUnBondTokens nat
  | AuctionClaim
  | AuctionUnJail "bls_key list"

datatype auction_callback =
    AuctionStakeCallback "nat list"
  | AuctionUnstakeCallback "nat list"
  | AuctionUnbondCallback "nat list"

datatype sc_effect =
    Event sc_event
  | DirectEgld address nat
  | AsyncCall address nat auction_call "auction_callback option"

section \<open>Constructors\<close>

definition contract_empty :: contract where
  "contract_empty = \<lparr>c_settings = \<lparr>auction_addr = [], service_fee = 0, total_delegation_cap = 0,
       bootstrap_mode = False, owner_min_stake_share = 0, n_blocks_before_unbond = 0, min_stake = 0\<rparr>,
     c_users = user_storage_empty, c_funds = fund_storage_empty, c_rewards = reward_storage_empty,
     c_nodes = node_storage_empty, c_global_op = GlobalOpNone, c_dust_checkpoint = 0\<rparr>"

text \<open>\<^verbatim>\<open>DelegationFull::init\<close>.\<close>

definition init_full ::
  "sc_env \<Rightarrow> address \<Rightarrow> nat \<Rightarrow> nat \<Rightarrow> u64 \<Rightarrow> nat \<Rightarrow> nat \<Rightarrow> contract \<Rightarrow> contract res" where
  "init_full env auction_contract_addr service_fee_per_10000 owner_min_stake_share_per_10000
      n_blocks minimum_stake delegation_cap c =
     (let us0 = c_users c;
          us1 = us0\<lparr>us_user_id := (us_user_id us0)(caller env := OWNER_USER_ID)\<rparr>;
          us2 = set_user_address OWNER_USER_ID (caller env) us1;
          us3 = us2\<lparr>us_num_users := 1\<rparr>;
          st0 = (c_settings c)\<lparr>auction_addr := auction_contract_addr\<rparr> in
      require (service_fee_per_10000 \<le> PERCENTAGE_DENOMINATOR) ''service fee out of range''
        (bind_res (set_owner_min_stake_share_validated owner_min_stake_share_per_10000
                     (st0\<lparr>service_fee := service_fee_per_10000\<rparr>)) (\<lambda>st1.
           Inr (c\<lparr>c_users := us3,
                  c_settings := st1\<lparr>n_blocks_before_unbond := n_blocks, min_stake := minimum_stake,
                    total_delegation_cap := delegation_cap, bootstrap_mode := True\<rparr>\<rparr>))))"

text \<open>\<^verbatim>\<open>DelegationUpdate::init\<close>: the upgrade from the genesis contract.\<close>

definition update_total_delegation_cap_if_necessary :: "contract \<Rightarrow> contract" where
  "update_total_delegation_cap_if_necessary c =
     (if total_delegation_cap (c_settings c) = 0 then
        let total_active = get_user_stake_of_type (c_funds c) USER_STAKE_TOTALS_ID Active;
            total_unstaked = get_user_stake_of_type (c_funds c) USER_STAKE_TOTALS_ID UnStaked
        in c\<lparr>c_settings := (c_settings c)\<lparr>total_delegation_cap := total_active + total_unstaked\<rparr>\<rparr>
      else c)"

definition init_update :: "contract \<Rightarrow> contract" where
  "init_update c = update_total_delegation_cap_if_necessary c"

section \<open>Setters\<close>

definition set_n_blocks_before_unbond_endpoint :: "sc_env \<Rightarrow> u64 \<Rightarrow> contract \<Rightarrow> contract res" where
  "set_n_blocks_before_unbond_endpoint env n_blocks c =
     only_owner env (Inr (c\<lparr>c_settings := (c_settings c)\<lparr>n_blocks_before_unbond := n_blocks\<rparr>\<rparr>))"

definition set_minimum_stake_endpoint :: "sc_env \<Rightarrow> nat \<Rightarrow> contract \<Rightarrow> contract res" where
  "set_minimum_stake_endpoint env minimum_stake c =
     only_owner env (Inr (c\<lparr>c_settings := (c_settings c)\<lparr>min_stake := minimum_stake\<rparr>\<rparr>))"

text \<open>Node administration as endpoints of the contract.\<close>

definition add_nodes_endpoint :: "sc_env \<Rightarrow> (bls_key \<times> bls_signature) list \<Rightarrow> contract \<Rightarrow> contract res" where
  "add_nodes_endpoint env keys c =
     only_owner env (bind_res (add_nodes keys (c_nodes c)) (\<lambda>ns. Inr (c\<lparr>c_nodes := ns\<rparr>)))"

definition remove_nodes_endpoint :: "sc_env \<Rightarrow> bls_key list \<Rightarrow> contract \<Rightarrow> contract res" where
  "remove_nodes_endpoint env keys c =
     only_owner env (bind_res (remove_nodes keys (c_nodes c)) (\<lambda>ns. Inr (c\<lparr>c_nodes := ns\<rparr>)))"

definition update_user_address_endpoint :: "address list \<Rightarrow> contract \<Rightarrow> (nat \<times> nat \<times> nat) \<times> contract" where
  "update_user_address_endpoint addresses c =
     (let (counts, us) = update_user_address addresses (c_users c) in (counts, c\<lparr>c_users := us\<rparr>))"

lemma only_owner_eq_Inr: "only_owner env r = Inr y \<longleftrightarrow> caller env = sc_owner env \<and> r = Inr y"
  by (simp add: only_owner_def require_eq_Inr)

lemma is_global_op_in_progress_iff: "is_global_op_in_progress c \<longleftrightarrow> c_global_op c \<noteq> GlobalOpNone"
  by (cases "c_global_op c") (simp_all add: is_global_op_in_progress_def global_op_is_none_def)

end
