(* ===== verification/User_Stake.thy ===== *)
theory User_Stake
  imports Contract_State
begin

text \<open>
  Staking and unstaking by delegators: \<^verbatim>\<open>latest/src/user_stake_state.rs\<close> (the movement of
  funds between the waiting list, the active stake and the unstaked queue, and the
  validations), \<^verbatim>\<open>user_stake_endpoints.rs\<close> (stake, unStake, unBond) and
  \<^verbatim>\<open>rewards_endpoints.rs\<close> (claimRewards).
\<close>

section \<open>Validations\<close>

definition validate_user_minimum_stake :: "contract \<Rightarrow> nat \<Rightarrow> unit res" where
  "validate_user_minimum_stake c u =
     (let waiting = get_user_stake_of_type (c_funds c) u Waiting;
          active = get_user_stake_of_type (c_funds c) USER_STAKE_TOTALS_ID Active;
          relevant_stake = waiting + active in
      require (relevant_stake = 0 \<or> min_stake (c_settings c) \<le> relevant_stake)
        ''cannot have waiting + active stake less than minimum stake'' (Inr ()))"

definition validate_owner_stake_share :: "contract \<Rightarrow> unit res" where
  "validate_owner_stake_share c =
     require (get_user_stake_of_type (c_funds c) USER_STAKE_TOTALS_ID Active * owner_min_stake_share (c_settings c)
              \<le> get_user_stake_of_type (c_funds c) OWNER_USER_ID Active * PERCENTAGE_DENOMINATOR)
       ''owner doesn't have enough stake in the contract'' (Inr ())"

definition validate_unstake_amount :: "contract \<Rightarrow> nat \<Rightarrow> nat \<Rightarrow> unit res" where
  "validate_unstake_amount c u amount =
     (let max_unstake = get_user_stake_of_type (c_funds c) u Waiting + get_user_stake_of_type (c_funds c) u Active in
      if max_unstake < amount then Inl (ScPanic ''cannot unstake more than the user waiting + active stake'')
      else if amount = max_unstake then Inr ()
      else require (min_stake (c_settings c) \<le> amount) ''cannot unstake less than minimum stake'' (Inr ()))"

definition validate_delegation_cap_invariant :: "contract \<Rightarrow> unit res" where
  "validate_delegation_cap_invariant c =
     (let total_active = get_user_stake_of_type (c_funds c) USER_STAKE_TOTALS_ID Active;
          total_unstaked = get_user_stake_of_type (c_funds c) USER_STAKE_TOTALS_ID UnStaked;
          cap = total_delegation_cap (c_settings c) in
      if bootstrap_mode (c_settings c)
      then require (total_active + total_unstaked < cap) ''delegation cap invariant violated'' (Inr ())
      else require (total_active + total_unstaked = cap) ''delegation cap invariant violated'' (Inr ()))"

section \<open>Moving funds around\<close>

fun compute_rewards_of_users :: "sc_env \<Rightarrow> nat list \<Rightarrow> contract \<Rightarrow> contract res" where
  "compute_rewards_of_users env [] c = Inr c"
| "compute_rewards_of_users env (u # us) c =
     (if u = 0 then Inl (ScPanic ''bad user_id'')
      else bind_res (compute_one_user_reward (cumulated_rewards env) (c_settings c) (c_funds c) u (c_rewards c))
             (\<lambda>rw. compute_rewards_of_users env us (c\<lparr>c_rewards := rw\<rparr>)))"

definition swap_waiting_to_active_compute_rewards :: "sc_env \<Rightarrow> nat \<Rightarrow> contract \<Rightarrow> contract res" where
  "swap_waiting_to_active_compute_rewards env swappable c =
     bind_res (get_affected_users_of_swap_waiting_to_active swappable (\<lambda>_. False) (c_funds c))
       (\<lambda>(affected_users, remaining, fs).
     require (remaining = 0) ''error swapping waiting to active''
     (let c0 = c\<lparr>c_funds := fs\<rparr> in
      bind_res (compute_one_user_reward (cumulated_rewards env) (c_settings c0) (c_funds c0) OWNER_USER_ID
                  (c_rewards c0)) (\<lambda>rw.
      bind_res (compute_rewards_of_users env affected_users (c0\<lparr>c_rewards := rw\<rparr>)) (\<lambda>c1.
      bind_res (swap_waiting_to_active swappable (\<lambda>_. False) (c_funds c1)) (\<lambda>(_, remaining', fs').
      require (remaining' = 0) ''error swapping waiting to active''
        (Inr (c1\<lparr>c_funds := fs'\<rparr>)))))))"

definition use_waiting_to_replace_unstaked :: "sc_env \<Rightarrow> contract \<Rightarrow> contract res" where
  "use_waiting_to_replace_unstaked env c =
     (let total_waiting = get_user_stake_of_type (c_funds c) USER_STAKE_TOTALS_ID Waiting;
          total_unstaked = get_user_stake_of_type (c_funds c) USER_STAKE_TOTALS_ID UnStaked in
      if bootstrap_mode (c_settings c) then
        bind_res (swap_unstaked_to_deferred_payment total_unstaked (\<lambda>_. False) (c_funds c))
          (\<lambda>(total_unstaked', fs1).
        require (total_unstaked' = 0) ''error swapping unstaked to deferred payment''
        (let total_active = get_user_stake_of_type fs1 USER_STAKE_TOTALS_ID Active in
         bind_res (biguint_sub (total_delegation_cap (c_settings c)) total_active) (\<lambda>fillable.
         bind_res (swap_waiting_to_active fillable (\<lambda>_. False) fs1) (\<lambda>(_, fillable', fs2).
         let c1 = c\<lparr>c_funds := fs2\<rparr> in
         Inr (if fillable' = 0 then c1\<lparr>c_settings := (c_settings c1)\<lparr>bootstrap_mode := False\<rparr>\<rparr> else c1)))))
      else
        let swappable = min total_waiting total_unstaked in
        if swappable = 0 then Inr c
        else
          bind_res (swap_unstaked_to_deferred_payment swappable (\<lambda>_. False) (c_funds c))
            (\<lambda>(unstaked_swap_remaining, fs1).
          require (unstaked_swap_remaining = 0) ''error swapping unstaked to deferred payment''
            (swap_waiting_to_active_compute_rewards env swappable (c\<lparr>c_funds := fs1\<rparr>))))"

section \<open>Endpoints of the delegators\<close>

definition process_stake :: "sc_env \<Rightarrow> nat \<Rightarrow> contract \<Rightarrow> (contract \<times> sc_effect list) res" where
  "process_stake env payment c =
     (let (u, us) = get_or_create_user (caller env) (c_users c);
          c1 = c\<lparr>c_users := us, c_funds := create_waiting (block_nonce env) u payment (c_funds c)\<rparr> in
      bind_res (validate_delegation_cap_invariant c1) (\<lambda>_.
      bind_res (use_waiting_to_replace_unstaked env c1) (\<lambda>c2.
        Inr (c2, [Event (StakeEvent (caller env) payment)]))))"

definition stake_endpoint :: "sc_env \<Rightarrow> nat \<Rightarrow> contract \<Rightarrow> (contract \<times> sc_effect list) res" where
  "stake_endpoint env payment c =
     require (not_paused env) ''contract paused''
     (require (min_stake (c_settings c) \<le> payment) ''cannot stake less than minimum stake''
     (require (\<not> is_global_op_in_progress c) ''staking is temporarily paused as checkpoint is reset''
       (process_stake env payment c)))"

definition unstake_endpoint :: "sc_env \<Rightarrow> nat \<Rightarrow> contract \<Rightarrow> contract res" where
  "unstake_endpoint env amount c =
     require (not_paused env) ''contract paused''
     (require (\<not> is_global_op_in_progress c) ''unstaking is temporarily paused as checkpoint is reset''
     (let u = us_user_id (c_users c) (caller env) in
      if u = 0 then Inl (ScPanic ''only delegators can unstake'')
      else
        bind_res (validate_unstake_amount c u amount) (\<lambda>_.
        bind_res (swap_user_waiting_to_withdraw_only u amount (c_funds c)) (\<lambda>(remaining, fs1).
        let c1 = c\<lparr>c_funds := fs1\<rparr> in
        if remaining = 0 then Inr c1
        else
          bind_res (compute_one_user_reward (cumulated_rewards env) (c_settings c1) (c_funds c1) OWNER_USER_ID
                      (c_rewards c1)) (\<lambda>rw1.
          bind_res (compute_one_user_reward (cumulated_rewards env) (c_settings c1) (c_funds c1) u rw1) (\<lambda>rw2.
          let c2 = c1\<lparr>c_rewards := rw2\<rparr> in
          bind_res (swap_user_active_to_unstaked (block_nonce env) u remaining (c_funds c2)) (\<lambda>(remaining', fs3).
          require (remaining' = 0) ''error converting Active to UnStaked''
          (bind_res (use_waiting_to_replace_unstaked env (c2\<lparr>c_funds := fs3\<rparr>)) (\<lambda>c4.
           bind_res (validate_user_minimum_stake c4 u) (\<lambda>_. Inr c4))))))))))"

definition get_unstakeable :: "contract \<Rightarrow> address \<Rightarrow> nat" where
  "get_unstakeable c a =
     (let u = us_user_id (c_users c) a in
      if u = 0 then 0
      else get_user_stake_of_type (c_funds c) u Waiting + get_user_stake_of_type (c_funds c) u Active)"

definition UNBOND_GASLIMIT :: u64 where
  "UNBOND_GASLIMIT = 50000000"

definition unbond_user :: "sc_env \<Rightarrow> contract \<Rightarrow> (nat \<times> contract \<times> sc_effect list) res" where
  "unbond_user env c =
     require (not_paused env) ''contract paused''
     (let u = us_user_id (c_users c) (caller env) in
      require (0 < u) ''unknown caller''
      (bind_res (swap_eligible_deferred_to_withdraw (block_nonce env) u (n_blocks_before_unbond (c_settings c))
                   (\<lambda>k. gas_left env 0 k < UNBOND_GASLIMIT) (c_funds c)) (\<lambda>(_, fs1).
       bind_res (liquidate_all_withdraw_only u (\<lambda>k. gas_left env 1 k < UNBOND_GASLIMIT) fs1)
         (\<lambda>(amount_liquidated, fs2).
           Inr (amount_liquidated, c\<lparr>c_funds := fs2\<rparr>,
                if 0 < amount_liquidated then [DirectEgld (caller env) amount_liquidated] else [])))))"

definition get_unbondable :: "sc_env \<Rightarrow> contract \<Rightarrow> address \<Rightarrow> nat res" where
  "get_unbondable env c a =
     (let u = us_user_id (c_users c) a in
      if u = 0 then Inr 0
      else bind_res (eligible_deferred_payment (block_nonce env) (c_funds c) u (n_blocks_before_unbond (c_settings c)))
             (\<lambda>eligible. Inr (eligible + get_user_stake_of_type (c_funds c) u WithdrawOnly)))"

section \<open>Claiming rewards\<close>

definition send_rewards :: "address \<Rightarrow> nat \<Rightarrow> reward_storage \<Rightarrow> reward_storage \<times> sc_effect list" where
  "send_rewards to amount rw = (rw\<lparr>rs_sent := rs_sent rw + amount\<rparr>, [DirectEgld to amount])"

definition claim_rewards :: "sc_env \<Rightarrow> contract \<Rightarrow> (contract \<times> sc_effect list) res" where
  "claim_rewards env c =
     require (not_paused env) ''contract paused''
     (bind_res (check_feature_on env ''claimRewards'' True) (\<lambda>_.
      let u = us_user_id (c_users c) (caller env) in
      if u = 0 then Inl (ScPanic ''unknown caller'')
      else
        require (\<not> is_global_op_in_progress c) ''claim rewards is temporarily paused as checkpoint is reset''
        (bind_res (load_updated_user_rewards (cumulated_rewards env) (c_settings c) (c_funds c) (c_rewards c) u)
          (\<lambda>user_data.
             if 0 < unclaimed_rewards user_data then
               let (rw, effects) = send_rewards (caller env) (unclaimed_rewards user_data) (c_rewards c) in
               Inr (c\<lparr>c_rewards := store_user_reward_data u (user_data\<lparr>unclaimed_rewards := 0\<rparr>) rw\<rparr>,
                    Event (ClaimRewardsEvent (caller env) (unclaimed_rewards user_data)) # effects)
             else Inr (c\<lparr>c_rewards := store_user_reward_data u user_data (c_rewards c)\<rparr>, [])))))"

section \<open>Dust cleanup\<close>

text \<open>
  \<^verbatim>\<open>latest/src/user_stake_dust_cleanup.rs\<close>. The transformation of the active dust computes the
  rewards of the fund's user before the fund changes type.
\<close>

definition DUST_GASLIMIT :: u64 where
  "DUST_GASLIMIT = 20000000"

definition count_dust_items_waiting_list :: "contract \<Rightarrow> nat \<Rightarrow> nat res" where
  "count_dust_items_waiting_list c dust_limit =
     count_fund_items_by_type (c_funds c) Waiting (\<lambda>it. balance it < dust_limit)"

definition count_dust_items_active :: "contract \<Rightarrow> nat \<Rightarrow> nat res" where
  "count_dust_items_active c dust_limit =
     count_fund_items_by_type (c_funds c) Active (\<lambda>it. balance it < dust_limit)"

definition dust_cleanup_waiting_list :: "sc_env \<Rightarrow> nat \<Rightarrow> contract \<Rightarrow> contract res" where
  "dust_cleanup_waiting_list env dust_limit c =
     only_owner env
     (require (\<not> is_global_op_in_progress c) ''contract is temporarily paused as checkpoint is reset''
     (bind_res (swap_dust (c_dust_checkpoint c) dust_limit Waiting (\<lambda>_ x _. Inr (Some FdWithdrawOnly, x))
                  (\<lambda>k. gas_left env 0 k < DUST_GASLIMIT) () (c_funds c)) (\<lambda>(checkpoint, _, fs).
        Inr (c\<lparr>c_funds := fs, c_dust_checkpoint := checkpoint\<rparr>))))"

definition active_dust_transform ::
  "nat \<Rightarrow> settings \<Rightarrow> fund_storage \<Rightarrow> reward_storage \<Rightarrow> fund_item \<Rightarrow> (fund_description option \<times> reward_storage) res"
where
  "active_dust_transform tot st fs rw it =
     (if user_id it \<noteq> 0 then
        bind_res (compute_one_user_reward tot st fs (user_id it) rw) (\<lambda>rw'. Inr (Some (FdUnStaked 0), rw'))
      else Inr (None, rw))"

definition dust_cleanup_active :: "sc_env \<Rightarrow> nat \<Rightarrow> contract \<Rightarrow> contract res" where
  "dust_cleanup_active env dust_limit c =
     only_owner env
     (require (\<not> is_global_op_in_progress c) ''contract is temporarily paused as checkpoint is reset''
     (let reserved_gas = gas_left env 0 0 div 2 + DUST_GASLIMIT in
      bind_res (compute_one_user_reward (cumulated_rewards env) (c_settings c) (c_funds c) OWNER_USER_ID (c_rewards c))
        (\<lambda>rw1.
      bind_res (swap_dust (c_dust_checkpoint c) dust_limit Active
                  (active_dust_transform (cumulated_rewards env) (c_settings c))
                  (\<lambda>k. gas_left env 1 k < reserved_gas) rw1 (c_funds c)) (\<lambda>(checkpoint, rw2, fs).
      use_waiting_to_replace_unstaked env
        (c\<lparr>c_funds := fs, c_rewards := rw2, c_dust_checkpoint := checkpoint\<rparr>)))))"

end
