(* ===== verification/Rewards_Solvency.thy ===== *)
theory Rewards_Solvency
  imports Rewards_State
begin

text \<open>
  Why the rewards the contract promises never exceed the rewards it received. Every user
  has a share of the rewards that arrive while the stake, the fee and the cap stay as they
  are; the shares add up to at most one. What the contract owes is what it sent, what it
  recorded as unclaimed, and every user's share of what arrived since the user's checkpoint.
  This liability only grows with the rewards that arrive: computing a reward rounds it down,
  and a change of stake costs nothing when the users concerned and the owner are up to date.
\<close>

section \<open>Shares\<close>

definition fee_rate :: "settings \<Rightarrow> real" where
  "fee_rate st = service_fee st / PERCENTAGE_DENOMINATOR"

definition reward_share :: "settings \<Rightarrow> fund_storage \<Rightarrow> nat \<Rightarrow> real" where
  "reward_share st fs u =
     (if u = OWNER_USER_ID
      then fee_rate st + (1 - fee_rate st) * real (total_delegation_cap st - type_total fs Active) / total_delegation_cap st
      else 0) + (1 - fee_rate st) * user_total fs u Active / total_delegation_cap st"

lemma fee_rate_bounds:
  "service_fee st \<le> PERCENTAGE_DENOMINATOR \<Longrightarrow> 0 \<le> fee_rate st \<and> fee_rate st \<le> 1"
  by (simp add: fee_rate_def PERCENTAGE_DENOMINATOR_def)

lemma reward_share_nonneg:
  assumes "service_fee st \<le> PERCENTAGE_DENOMINATOR"
  shows "0 \<le> reward_share st fs u"
  using fee_rate_bounds [OF assms] by (auto simp: reward_share_def)

lemma real_div_le: "real (a * b div c) \<le> real a * real b / real c"
  by (metis of_nat_div_le_of_nat of_nat_mult)

lemma new_rewards_le:
  assumes fee: "service_fee st \<le> PERCENTAGE_DENOMINATOR"
  shows "new_rewards st fs u x \<le> x * reward_share st fs u"
proof -
  let ?cap = "total_delegation_cap st" and ?f = "fee_rate st"
  have D: "real PERCENTAGE_DENOMINATOR > 0"
    by (simp add: PERCENTAGE_DENOMINATOR_def)
  have d: "delegators_part st x \<le> (1 - ?f) * x"
  proof -
    have "delegators_part st x \<le> real (PERCENTAGE_DENOMINATOR - service_fee st) * x / PERCENTAGE_DENOMINATOR"
      unfolding delegators_part_def by (rule real_div_le)
    also have "\<dots> = (1 - ?f) * x"
      using fee D by (simp add: fee_rate_def of_nat_diff field_simps)
    finally show ?thesis .
  qed
  have part: "real (delegators_part st x * y div ?cap) \<le> x * ((1 - ?f) * y / ?cap)" for y
  proof -
    have "real (delegators_part st x * y div ?cap) \<le> real (delegators_part st x) * y / ?cap"
      by (rule real_div_le)
    also have "\<dots> \<le> (1 - ?f) * x * y / ?cap"
      by (intro divide_right_mono mult_right_mono d) simp_all
    finally show ?thesis
      by (simp add: mult_ac)
  qed
  have fee_part: "real (service_fee st * x div PERCENTAGE_DENOMINATOR) \<le> x * ?f"
    using real_div_le [of "service_fee st" x PERCENTAGE_DENOMINATOR] by (simp add: fee_rate_def mult_ac)
  show ?thesis
    using fee_part part [of "?cap - type_total fs Active"] part [of "user_total fs u Active"]
    by (auto simp: new_rewards_def reward_share_def Let_def distrib_left mult_ac)
qed

text \<open>The shares of all users together.\<close>

lemma reward_share_sum:
  assumes fee: "service_fee st \<le> PERCENTAGE_DENOMINATOR" and inv: "fund_inv fs"
    and users: "\<And>u. user_total fs u Active \<noteq> 0 \<Longrightarrow> 1 \<le> u \<and> u \<le> n"
    and cap: "type_total fs Active \<le> total_delegation_cap st"
  shows "(\<Sum>u=1..n. reward_share st fs u) \<le> 1"
proof -
  let ?cap = "real (total_delegation_cap st)" and ?f = "fee_rate st" and ?A = "type_total fs Active"
  have f: "0 \<le> ?f" "?f \<le> 1"
    using fee_rate_bounds [OF fee] by simp_all
  have A: "real ?A = (\<Sum>u=1..n. real (user_total fs u Active))"
    using type_total_sum_users [OF inv, of "{1..n}" Active] users by simp
  have "(\<Sum>u=1..n. reward_share st fs u) =
      (\<Sum>u=1..n. if u = OWNER_USER_ID then ?f + (1 - ?f) * real (total_delegation_cap st - ?A) / ?cap else 0) +
      (\<Sum>u=1..n. (1 - ?f) * user_total fs u Active / ?cap)"
    unfolding reward_share_def by (rule sum.distrib)
  also have "(\<Sum>u=1..n. (1 - ?f) * user_total fs u Active / ?cap) = (1 - ?f) * ?A / ?cap"
    by (simp add: A sum_distrib_left sum_divide_distrib)
  also have "(\<Sum>u=1..n. if u = OWNER_USER_ID then ?f + (1 - ?f) * real (total_delegation_cap st - ?A) / ?cap else 0)
      \<le> ?f + (1 - ?f) * (?cap - ?A) / ?cap"
    using f cap by (simp add: of_nat_diff)
  finally have "(\<Sum>u=1..n. reward_share st fs u) \<le> ?f + (1 - ?f) * ((?cap - ?A) / ?cap + ?A / ?cap)"
    by (simp add: distrib_left)
  also have "\<dots> \<le> ?f + (1 - ?f) * 1"
  proof (intro add_left_mono mult_left_mono)
    show "(?cap - ?A) / ?cap + ?A / ?cap \<le> 1"
      by (cases "?cap = 0") (simp_all add: diff_divide_distrib)
  qed (use f in simp)
  finally show ?thesis
    by simp
qed

section \<open>Liability\<close>

definition pending_rewards :: "nat \<Rightarrow> settings \<Rightarrow> fund_storage \<Rightarrow> reward_storage \<Rightarrow> nat \<Rightarrow> real" where
  "pending_rewards tot st fs rw u = real (tot - rs_checkpoint rw u) * reward_share st fs u"

definition reward_liability :: "nat \<Rightarrow> settings \<Rightarrow> fund_storage \<Rightarrow> reward_storage \<Rightarrow> nat \<Rightarrow> real" where
  "reward_liability tot st fs rw n =
     real (rs_sent rw) + (\<Sum>u=1..n. real (rs_unclaimed rw u)) + (\<Sum>u=1..n. pending_rewards tot st fs rw u)"

text \<open>
  The invariant: the liability is covered by what arrived, no checkpoint lies in the future,
  the fee is a proper fraction and ids without a user have no rewards.
\<close>

definition rewards_inv :: "nat \<Rightarrow> settings \<Rightarrow> fund_storage \<Rightarrow> reward_storage \<Rightarrow> nat \<Rightarrow> bool" where
  "rewards_inv tot st fs rw n \<longleftrightarrow>
     service_fee st \<le> PERCENTAGE_DENOMINATOR \<and> (\<forall>u. rs_checkpoint rw u \<le> tot) \<and>
     (\<forall>u. n < u \<longrightarrow> rs_unclaimed rw u = 0) \<and> reward_liability tot st fs rw n \<le> tot"

lemma pending_nonneg: "service_fee st \<le> PERCENTAGE_DENOMINATOR \<Longrightarrow> 0 \<le> pending_rewards tot st fs rw u"
  by (simp add: pending_rewards_def reward_share_nonneg)

text \<open>Rewards arrive.\<close>

lemma rewards_inv_arrive:
  assumes inv: "rewards_inv tot st fs rw n" and le: "tot \<le> tot'" and fs: "fund_inv fs"
    and users: "\<And>u. user_total fs u Active \<noteq> 0 \<Longrightarrow> 1 \<le> u \<and> u \<le> n"
    and cap: "type_total fs Active \<le> total_delegation_cap st"
  shows "rewards_inv tot' st fs rw n"
proof -
  from inv have fee: "service_fee st \<le> PERCENTAGE_DENOMINATOR" and chk: "rs_checkpoint rw u \<le> tot" for u
    by (auto simp: rewards_inv_def)
  have "pending_rewards tot' st fs rw u = pending_rewards tot st fs rw u + real (tot' - tot) * reward_share st fs u" for u
    using chk [of u] le by (simp add: pending_rewards_def of_nat_diff left_diff_distrib)
  then have "(\<Sum>u=1..n. pending_rewards tot' st fs rw u) =
    (\<Sum>u=1..n. pending_rewards tot st fs rw u) + real (tot' - tot) * (\<Sum>u=1..n. reward_share st fs u)"
    by (simp add: sum.distrib sum_distrib_left)
  moreover have "real (tot' - tot) * (\<Sum>u=1..n. reward_share st fs u) \<le> real (tot' - tot)"
    using mult_left_mono [OF reward_share_sum [OF fee fs users cap], of "real (tot' - tot)"] by simp
  ultimately have "reward_liability tot' st fs rw n \<le> reward_liability tot st fs rw n + real (tot' - tot)"
    by (simp add: reward_liability_def)
  then show ?thesis
    using inv le chk by (auto simp: rewards_inv_def of_nat_diff intro: order_trans)
qed

text \<open>One user's record changes: it is enough to look at that user.\<close>

lemma liability_update:
  assumes u: "u \<in> {1..n}"
    and other: "\<And>v. v \<noteq> u \<Longrightarrow> rs_unclaimed rw' v = rs_unclaimed rw v \<and> rs_checkpoint rw' v = rs_checkpoint rw v"
  shows "reward_liability tot st fs rw' n = reward_liability tot st fs rw n
    + (real (rs_sent rw') - rs_sent rw) + (real (rs_unclaimed rw' u) - rs_unclaimed rw u)
    + (pending_rewards tot st fs rw' u - pending_rewards tot st fs rw u)"
proof -
  have "(\<Sum>v\<in>{1..n}-{u}. real (rs_unclaimed rw' v)) = (\<Sum>v\<in>{1..n}-{u}. real (rs_unclaimed rw v))"
    "(\<Sum>v\<in>{1..n}-{u}. pending_rewards tot st fs rw' v) = (\<Sum>v\<in>{1..n}-{u}. pending_rewards tot st fs rw v)"
    using other by (auto intro!: sum.cong simp: pending_rewards_def)
  moreover have "(\<Sum>v=1..n. f v) = f u + (\<Sum>v\<in>{1..n}-{u}. f v)" for f :: "nat \<Rightarrow> real"
    using u by (simp add: sum.remove)
  ultimately show ?thesis
    unfolding reward_liability_def by simp
qed

text \<open>Computing the rewards of one user.\<close>

lemma rewards_inv_compute:
  assumes inv: "rewards_inv tot st fs rw n" and u: "u \<in> {1..n}"
    and cap: "user_total fs u Active \<noteq> 0 \<Longrightarrow> 0 < total_delegation_cap st"
  shows "\<exists>rw'. compute_one_user_reward tot st fs u rw = Inr rw' \<and> rewards_inv tot st fs rw' n \<and>
    rs_checkpoint rw' = (rs_checkpoint rw)(u := tot) \<and> rs_sent rw' = rs_sent rw \<and>
    (\<forall>v. rs_unclaimed rw v \<le> rs_unclaimed rw' v)"
proof -
  from inv have fee: "service_fee st \<le> PERCENTAGE_DENOMINATOR" and chk: "rs_checkpoint rw v \<le> tot" for v
    by (auto simp: rewards_inv_def)
  define rw' where "rw' = rw\<lparr>rs_checkpoint := (rs_checkpoint rw)(u := tot),
    rs_unclaimed := (rs_unclaimed rw)(u := rs_unclaimed rw u + new_rewards st fs u (tot - rs_checkpoint rw u))\<rparr>"
  have run: "compute_one_user_reward tot st fs u rw = Inr rw'"
    unfolding rw'_def using u by (intro compute_one_user_reward_ok [OF fee _ chk cap]) auto
  have "reward_liability tot st fs rw' n = reward_liability tot st fs rw n
      + new_rewards st fs u (tot - rs_checkpoint rw u) - pending_rewards tot st fs rw u"
    using liability_update [OF u, of rw' rw tot st fs]
    by (simp add: rw'_def pending_rewards_def)
  also have "\<dots> \<le> reward_liability tot st fs rw n"
    using new_rewards_le [OF fee, of fs u "tot - rs_checkpoint rw u"] by (simp add: pending_rewards_def)
  finally have "rewards_inv tot st fs rw' n"
    using inv u chk by (auto simp: rewards_inv_def rw'_def)
  then show ?thesis
    using run by (auto simp: rw'_def)
qed

text \<open>Stake changes: users whose active stake changes are up to date, and so is the owner.\<close>

lemma rewards_inv_stake:
  assumes inv: "rewards_inv tot st fs rw n"
    and owner: "type_total fs' Active \<noteq> type_total fs Active \<Longrightarrow> rs_checkpoint rw OWNER_USER_ID = tot"
    and users: "\<And>u. user_total fs' u Active \<noteq> user_total fs u Active \<Longrightarrow> rs_checkpoint rw u = tot"
  shows "rewards_inv tot st fs' rw n"
proof -
  have "pending_rewards tot st fs' rw u = pending_rewards tot st fs rw u" for u
  proof (cases "rs_checkpoint rw u = tot")
    case False
    then have "user_total fs' u Active = user_total fs u Active"
      "u = OWNER_USER_ID \<Longrightarrow> type_total fs' Active = type_total fs Active"
      using owner users [of u] by auto
    then show ?thesis
      by (simp add: pending_rewards_def reward_share_def)
  qed (simp add: pending_rewards_def)
  then show ?thesis
    using inv by (simp add: rewards_inv_def reward_liability_def)
qed

text \<open>A new user id.\<close>

lemma rewards_inv_new_user:
  assumes inv: "rewards_inv tot st fs rw n" and n: "1 \<le> n" and new: "user_total fs (Suc n) Active = 0"
  shows "rewards_inv tot st fs rw (Suc n)"
proof -
  have "pending_rewards tot st fs rw (Suc n) = 0"
    using n new by (simp add: pending_rewards_def reward_share_def OWNER_USER_ID_def)
  then show ?thesis
    using inv by (simp add: rewards_inv_def reward_liability_def)
qed

text \<open>Everybody is up to date: fee, cap and stake may change.\<close>

lemma rewards_inv_all_current:
  assumes inv: "rewards_inv tot st fs rw n" and all: "\<And>u. u \<in> {1..n} \<Longrightarrow> rs_checkpoint rw u = tot"
    and fee: "service_fee st' \<le> PERCENTAGE_DENOMINATOR"
  shows "rewards_inv tot st' fs' rw n"
proof -
  have "pending_rewards tot st fs rw u = 0" "pending_rewards tot st' fs' rw u = 0" if "u \<in> {1..n}" for u
    using all [OF that] by (simp_all add: pending_rewards_def)
  then show ?thesis
    using inv fee by (simp add: rewards_inv_def reward_liability_def)
qed

text \<open>Consequence: what can be claimed now, together with what was sent, is covered.\<close>

lemma rewards_inv_claimable:
  assumes inv: "rewards_inv tot st fs rw n"
  shows "rs_sent rw + (\<Sum>u=1..n. rs_unclaimed rw u + new_rewards st fs u (tot - rs_checkpoint rw u)) \<le> tot"
proof -
  from inv have fee: "service_fee st \<le> PERCENTAGE_DENOMINATOR"
    by (simp add: rewards_inv_def)
  have "(\<Sum>u=1..n. real (new_rewards st fs u (tot - rs_checkpoint rw u))) \<le> (\<Sum>u=1..n. pending_rewards tot st fs rw u)"
    unfolding pending_rewards_def by (rule sum_mono) (rule new_rewards_le [OF fee])
  then have "real (rs_sent rw) + (\<Sum>u=1..n. real (rs_unclaimed rw u)) +
      (\<Sum>u=1..n. real (new_rewards st fs u (tot - rs_checkpoint rw u))) \<le> real tot"
    using inv by (simp add: rewards_inv_def reward_liability_def)
  then have "real (rs_sent rw + (\<Sum>u=1..n. rs_unclaimed rw u + new_rewards st fs u (tot - rs_checkpoint rw u))) \<le> real tot"
    by (simp add: sum.distrib)
  then show ?thesis
    by (simp only: of_nat_le_iff)
qed

end
