(* ===== verification/Stake_Invariants.thy ===== *)
theory Stake_Invariants
  imports User_Stake Rewards_Solvency
begin

text \<open>
  The invariant of the contract between transactions and its preservation by the endpoints
  of the delegators: the fund storage is well-formed and every fund belongs to a registered
  user, the active and the unstaked funds fill the delegation cap (or the contract is still
  in bootstrap mode), waiting and unstaked funds do not coexist, and the rewards owed are
  covered. Each endpoint is shown to return, on every state that satisfies the invariant and
  its guards, and to lead to such a state.
\<close>

section \<open>The invariant\<close>

definition owned_funds :: "fund_storage \<Rightarrow> nat \<Rightarrow> bool" where
  "owned_funds fs n \<longleftrightarrow> (\<forall>u t. user_total fs u t \<noteq> 0 \<longrightarrow> 1 \<le> u \<and> u \<le> n)"

definition base_inv :: "contract \<Rightarrow> bool" where
  "base_inv c \<longleftrightarrow> fund_inv (c_funds c) \<and> user_inv (c_users c) \<and> 1 \<le> us_num_users (c_users c) \<and>
     owned_funds (c_funds c) (us_num_users (c_users c))"

definition cap_inv :: "contract \<Rightarrow> bool" where
  "cap_inv c \<longleftrightarrow>
     (let a = type_total (c_funds c) Active; u = type_total (c_funds c) UnStaked;
          w = type_total (c_funds c) Waiting; cap = total_delegation_cap (c_settings c) in
      if bootstrap_mode (c_settings c) then w = 0 \<and> u = 0 \<and> (a < cap \<or> a = 0)
      else a + u = cap \<and> (w = 0 \<or> u = 0))"

definition contract_inv :: "nat \<Rightarrow> contract \<Rightarrow> bool" where
  "contract_inv tot c \<longleftrightarrow> base_inv c \<and> cap_inv c \<and>
     rewards_inv tot (c_settings c) (c_funds c) (c_rewards c) (us_num_users (c_users c)) \<and>
     (bootstrap_mode (c_settings c) \<longrightarrow> tot = 0)"

text \<open>
  What is assumed of the blockchain: the cumulated rewards never decrease, and none arrive
  while the contract is in bootstrap mode, in which no node can be staked.
\<close>

definition env_ok :: "nat \<Rightarrow> sc_env \<Rightarrow> contract \<Rightarrow> bool" where
  "env_ok tot env c \<longleftrightarrow> tot \<le> cumulated_rewards env \<and>
     (bootstrap_mode (c_settings c) \<longrightarrow> cumulated_rewards env = 0)"

lemma contract_inv_arrive:
  assumes inv: "contract_inv tot c" and env: "env_ok tot env c"
  shows "contract_inv (cumulated_rewards env) c"
proof -
  have "type_total (c_funds c) Active \<le> total_delegation_cap (c_settings c)"
    using inv by (auto simp: contract_inv_def cap_inv_def Let_def split: if_splits)
  moreover have "user_total (c_funds c) u Active \<noteq> 0 \<Longrightarrow> 1 \<le> u \<and> u \<le> us_num_users (c_users c)" for u
    using inv by (auto simp: contract_inv_def base_inv_def owned_funds_def)
  ultimately show ?thesis
    using inv env rewards_inv_arrive [of tot "c_settings c" "c_funds c" "c_rewards c" "us_num_users (c_users c)"
        "cumulated_rewards env"]
    by (auto simp: contract_inv_def base_inv_def env_ok_def)
qed

lemma cap_inv_boot:
  "cap_inv c \<Longrightarrow> bootstrap_mode (c_settings c) \<Longrightarrow>
     type_total (c_funds c) Active \<le> total_delegation_cap (c_settings c) \<and>
     type_total (c_funds c) UnStaked = 0 \<and> type_total (c_funds c) Waiting = 0"
  by (auto simp: cap_inv_def Let_def)

lemma cap_inv_regular:
  "cap_inv c \<Longrightarrow> \<not> bootstrap_mode (c_settings c) \<Longrightarrow>
     type_total (c_funds c) Active + type_total (c_funds c) UnStaked = total_delegation_cap (c_settings c)"
  by (auto simp: cap_inv_def Let_def)

lemma cap_inv_le: "cap_inv c \<Longrightarrow> type_total (c_funds c) Active \<le> total_delegation_cap (c_settings c)"
  by (auto simp: cap_inv_def Let_def split: if_splits)

section \<open>What conversions keep\<close>

lemma converts_owned:
  assumes "converts us n t t' x s s'" and "owned_funds s m"
  shows "owned_funds s' m"
  unfolding owned_funds_def
proof (intro allI impI)
  fix u r
  assume nz: "user_total s' u r \<noteq> 0"
  have "\<exists>q. user_total s u q \<noteq> 0"
  proof (cases "r = t \<or> r = t'")
    case True
    then have "user_total s u t + user_total s u t' \<noteq> 0"
      using nz convertsD(6) [OF assms(1), of u] by auto
    then show ?thesis
      by auto
  next
    case False
    then show ?thesis
      using nz convertsD(7) [OF assms(1), of r u] by auto
  qed
  then show "1 \<le> u \<and> u \<le> m"
    using assms(2) by (auto simp: owned_funds_def)
qed

lemma converts_wealth:
  assumes c: "converts us n t t' x s s'" and t: "t \<in> set ALL_TYPES" "t' \<in> set ALL_TYPES" "t \<noteq> t'"
  shows "get_user_total_stake s' u = get_user_total_stake s u"
proof (cases "u = 0")
  case True
  then show ?thesis
    using convertsD(2,3) [OF c] convertsD(4) [OF c, of WithdrawOnly] convertsD(4) [OF c, of Waiting]
      convertsD(4) [OF c, of Active] convertsD(4) [OF c, of UnStaked] convertsD(4) [OF c, of DeferredPayment] t
    by (auto simp: get_user_total_stake_def ALL_TYPES_def)
next
  case False
  then show ?thesis
    using convertsD(6) [OF c, of u] convertsD(7) [OF c, of WithdrawOnly u] convertsD(7) [OF c, of Waiting u]
      convertsD(7) [OF c, of Active u] convertsD(7) [OF c, of UnStaked u] convertsD(7) [OF c, of DeferredPayment u] t
    by (auto simp: get_user_total_stake_def ALL_TYPES_def)
qed

text \<open>When one user only is converted, the user gives all of it.\<close>

lemma finite_users:
  assumes "fund_inv s"
  shows "finite {v. user_total s v t \<noteq> 0}"
proof -
  from assms obtain a where s: "s = concrete a"
    by (rule fund_invE)
  have "v \<in> euser ` set (a_entries a)" if "user_total s v t \<noteq> 0" for v
  proof (rule ccontr)
    assume "v \<notin> euser ` set (a_entries a)"
    then have "filter (of_user v t) (a_entries a) = []"
      by (auto simp: filter_empty_conv of_user_def)
    then show False
      using that by (simp add: s sum_of_user sum_where_def)
  qed
  then show ?thesis
    by (auto intro: finite_subset [of _ "euser ` set (a_entries a)"])
qed

lemma converts_user_amount:
  assumes c: "converts {u} n t t' x s s'" and inv: "fund_inv s"
  shows "user_total s' u t + x = user_total s u t"
proof -
  let ?U = "insert u ({v. user_total s v t \<noteq> 0} \<union> {v. user_total s' v t \<noteq> 0})"
  have fin: "finite ?U"
    using finite_users [OF inv] finite_users [OF convertsD(1) [OF c]] by simp
  have rest: "(\<Sum>v\<in>?U - {u}. user_total s' v t) = (\<Sum>v\<in>?U - {u}. user_total s v t)"
    by (rule sum.cong) (auto simp: convertsD(8) [OF c])
  have sums: "type_total s t = user_total s u t + (\<Sum>v\<in>?U - {u}. user_total s v t)"
    "type_total s' t = user_total s' u t + (\<Sum>v\<in>?U - {u}. user_total s' v t)"
    using type_total_sum_users [OF inv fin, of t] type_total_sum_users [OF convertsD(1) [OF c] fin, of t]
      sum.remove [OF fin, of u "\<lambda>v. user_total s v t"] sum.remove [OF fin, of u "\<lambda>v. user_total s' v t"]
    by auto
  then show ?thesis
    using rest convertsD(2) [OF c] by linarith
qed

lemma user_items_le:
  assumes "fund_inv s"
  shows "user_items s u t \<le> type_items s t"
proof -
  from assms obtain a where wf: "wf_funds a" and s: "s = concrete a"
    by (rule fund_invE)
  have "length (filter (of_user u t) es) \<le> length (filter (of_type t) es)" for es
    by (induction es) (auto simp: of_user_def of_type_def)
  then show ?thesis
    by (simp add: s user_items_concrete [OF wf] type_items_concrete [OF wf])
qed

text \<open>Conversions that do not touch active funds do not touch the rewards.\<close>

lemma rewards_inv_converts:
  assumes "converts us n t t' x s s'" and "t \<noteq> Active" "t' \<noteq> Active" and "rewards_inv tot st s rw m"
  shows "rewards_inv tot st s' rw m"
  using rewards_inv_stake [OF assms(4), of s'] convertsD(4,7) [OF assms(1), of Active] assms(2,3) by auto

text \<open>Conversions into or out of active funds, when the users concerned are up to date.\<close>

lemma rewards_inv_converts_active:
  assumes "converts us n t t' x s s'" and "rewards_inv tot st s rw m"
    and "rs_checkpoint rw OWNER_USER_ID = tot" and "\<And>u. u \<in> us \<Longrightarrow> rs_checkpoint rw u = tot"
  shows "rewards_inv tot st s' rw m"
  using rewards_inv_stake [OF assms(2), of s'] convertsD(8) [OF assms(1)] assms(3,4) by blast

section \<open>Computing the rewards of several users\<close>

lemma active_needs_cap:
  assumes "fund_inv fs" and "type_total fs Active \<le> total_delegation_cap st" and "user_total fs u Active \<noteq> 0"
  shows "0 < total_delegation_cap st"
  using user_total_le [OF assms(1), of u Active] assms(2,3) by linarith

lemma compute_reward_run:
  assumes "fund_inv fs" and "type_total fs Active \<le> total_delegation_cap st"
    and "rewards_inv tot st fs rw n" and "u \<in> {1..n}"
  obtains rw' where "compute_one_user_reward tot st fs u rw = Inr rw'" "rewards_inv tot st fs rw' n"
    "rs_checkpoint rw' = (rs_checkpoint rw)(u := tot)" "rs_sent rw' = rs_sent rw"
  using rewards_inv_compute [OF assms(3,4) active_needs_cap [OF assms(1,2)]] by blast

lemma compute_rewards_of_users_run:
  assumes "rewards_inv (cumulated_rewards env) (c_settings c) (c_funds c) (c_rewards c) n"
    and "\<And>u. u \<in> set us \<Longrightarrow> u \<in> {1..n}"
    and "\<And>u. user_total (c_funds c) u Active \<noteq> 0 \<Longrightarrow> 0 < total_delegation_cap (c_settings c)"
  shows "\<exists>rw. compute_rewards_of_users env us c = Inr (c\<lparr>c_rewards := rw\<rparr>) \<and>
    rewards_inv (cumulated_rewards env) (c_settings c) (c_funds c) rw n \<and> rs_sent rw = rs_sent (c_rewards c) \<and>
    (\<forall>u\<in>set us. rs_checkpoint rw u = cumulated_rewards env) \<and>
    (\<forall>u. rs_checkpoint (c_rewards c) u = cumulated_rewards env \<longrightarrow> rs_checkpoint rw u = cumulated_rewards env)"
  using assms
proof (induction us arbitrary: c)
  case Nil
  then show ?case
    by (intro exI [of _ "c_rewards c"]) simp
next
  case (Cons u us)
  have u: "u \<in> {1..n}" "u \<noteq> 0"
    using Cons.prems(2) [of u] by auto
  obtain rw where rw: "compute_one_user_reward (cumulated_rewards env) (c_settings c) (c_funds c) u (c_rewards c) = Inr rw"
    "rewards_inv (cumulated_rewards env) (c_settings c) (c_funds c) rw n"
    "rs_checkpoint rw = (rs_checkpoint (c_rewards c))(u := cumulated_rewards env)" "rs_sent rw = rs_sent (c_rewards c)"
    using rewards_inv_compute [OF Cons.prems(1) u(1) Cons.prems(3)] by blast
  let ?c = "c\<lparr>c_rewards := rw\<rparr>"
  obtain rw' where "compute_rewards_of_users env us ?c = Inr (?c\<lparr>c_rewards := rw'\<rparr>)"
    "rewards_inv (cumulated_rewards env) (c_settings c) (c_funds c) rw' n" "rs_sent rw' = rs_sent rw"
    "\<forall>u\<in>set us. rs_checkpoint rw' u = cumulated_rewards env"
    "\<forall>u. rs_checkpoint rw u = cumulated_rewards env \<longrightarrow> rs_checkpoint rw' u = cumulated_rewards env"
    using Cons.IH [of ?c] rw(2) Cons.prems(2,3) by auto
  then show ?case
    using rw u by (auto intro!: exI [of _ rw'])
qed

section \<open>Replacing unstaked funds\<close>

text \<open>What a user can unstake: waiting and active funds.\<close>

definition stakeable :: "fund_storage \<Rightarrow> nat \<Rightarrow> nat" where
  "stakeable fs u = user_total fs u Waiting + user_total fs u Active"

lemma converts_stakeable:
  assumes "converts us n t t' x s s'" and "t \<notin> {Waiting, Active} \<and> t' \<notin> {Waiting, Active} \<or> {t, t'} = {Waiting, Active}"
  shows "stakeable s' u = stakeable s u"
  using assms(2) convertsD(6) [OF assms(1), of u] convertsD(7) [OF assms(1), of _ u]
  by (auto simp: stakeable_def doubleton_eq_iff)

text \<open>The pieces of a contract that moving funds around may change.\<close>

definition moved :: "fund_storage \<Rightarrow> reward_storage \<Rightarrow> bool \<Rightarrow> contract \<Rightarrow> contract" where
  "moved fs rw b c = c\<lparr>c_funds := fs, c_rewards := rw, c_settings := (c_settings c)\<lparr>bootstrap_mode := b\<rparr>\<rparr>"

lemma moved_simps [simp]:
  "c_funds (moved fs rw b c) = fs" "c_rewards (moved fs rw b c) = rw" "c_users (moved fs rw b c) = c_users c"
  "c_nodes (moved fs rw b c) = c_nodes c" "c_global_op (moved fs rw b c) = c_global_op c"
  "c_dust_checkpoint (moved fs rw b c) = c_dust_checkpoint c"
  "total_delegation_cap (c_settings (moved fs rw b c)) = total_delegation_cap (c_settings c)"
  "service_fee (c_settings (moved fs rw b c)) = service_fee (c_settings c)"
  "min_stake (c_settings (moved fs rw b c)) = min_stake (c_settings c)"
  "bootstrap_mode (c_settings (moved fs rw b c)) = b"
  "n_blocks_before_unbond (c_settings (moved fs rw b c)) = n_blocks_before_unbond (c_settings c)"
  by (simp_all add: moved_def)

lemma reward_share_bootstrap [simp]:
  "reward_share (st\<lparr>bootstrap_mode := b\<rparr>) = reward_share st"
  by (simp add: fun_eq_iff reward_share_def fee_rate_def)

lemma rewards_inv_bootstrap [simp]:
  "rewards_inv tot (st\<lparr>bootstrap_mode := b\<rparr>) fs rw n = rewards_inv tot st fs rw n"
  by (simp add: rewards_inv_def reward_liability_def pending_rewards_def)

lemma rewards_inv_moved [simp]:
  "rewards_inv tot (c_settings (moved fs rw b c)) fs' rw' n = rewards_inv tot (c_settings c) fs' rw' n"
  by (simp add: moved_def)

lemma swap_waiting_to_active_compute_rewards_run:
  assumes fs: "fund_inv (c_funds c)" "id_room 2 (c_funds c)" "few_items (c_funds c) Waiting"
    and x: "x \<le> type_total (c_funds c) Waiting" and own: "owned_funds (c_funds c) n" and n: "1 \<le> n"
    and rew: "rewards_inv (cumulated_rewards env) (c_settings c) (c_funds c) (c_rewards c) n"
    and cap: "type_total (c_funds c) Active \<le> total_delegation_cap (c_settings c)"
  shows "\<exists>fs' rw us. swap_waiting_to_active_compute_rewards env x c = Inr (c\<lparr>c_funds := fs', c_rewards := rw\<rparr>) \<and>
    converts us (type_items (c_funds c) Waiting) Waiting Active x (c_funds c) fs' \<and>
    rewards_inv (cumulated_rewards env) (c_settings c) fs' rw n \<and> rs_sent rw = rs_sent (c_rewards c)"
proof -
  let ?T = "cumulated_rewards env"
  obtain us fs' where run: "swap_waiting_to_active x (\<lambda>_. False) (c_funds c) = Inr (us, 0, fs')"
    and dry: "get_affected_users_of_swap_waiting_to_active x (\<lambda>_. False) (c_funds c) = Inr (us, 0, c_funds c)"
    and conv: "converts (set us) (type_items (c_funds c) Waiting) Waiting Active x (c_funds c) fs'"
    and us: "\<forall>u\<in>set us. 0 < user_total (c_funds c) u Waiting"
    using swap_waiting_to_active_run [OF fs, of x "\<lambda>_. False"] x by (auto simp: min_def)
  have active: "user_total (c_funds c) u Active \<noteq> 0 \<Longrightarrow> 0 < total_delegation_cap (c_settings c)" for u
    by (rule active_needs_cap [OF fs(1) cap])
  have owner: "OWNER_USER_ID \<in> {1..n}"
    using n by (simp add: OWNER_USER_ID_def)
  obtain rw1 where rw1: "compute_one_user_reward ?T (c_settings c) (c_funds c) OWNER_USER_ID (c_rewards c) = Inr rw1"
    "rewards_inv ?T (c_settings c) (c_funds c) rw1 n"
    "rs_checkpoint rw1 = (rs_checkpoint (c_rewards c))(OWNER_USER_ID := ?T)" "rs_sent rw1 = rs_sent (c_rewards c)"
    by (rule compute_reward_run [OF fs(1) cap rew owner])
  have range: "u \<in> {1..n}" if "u \<in> set us" for u
    using us own that by (force simp: owned_funds_def)
  obtain rw2 where rw2: "compute_rewards_of_users env us (c\<lparr>c_rewards := rw1\<rparr>) = Inr (c\<lparr>c_rewards := rw2\<rparr>)"
    "rewards_inv ?T (c_settings c) (c_funds c) rw2 n" "rs_sent rw2 = rs_sent rw1"
    "\<forall>u\<in>set us. rs_checkpoint rw2 u = ?T" "rs_checkpoint rw2 OWNER_USER_ID = ?T"
  proof -
    have "rewards_inv ?T (c_settings (c\<lparr>c_rewards := rw1\<rparr>)) (c_funds (c\<lparr>c_rewards := rw1\<rparr>))
        (c_rewards (c\<lparr>c_rewards := rw1\<rparr>)) n"
      using rw1(2) by simp
    from compute_rewards_of_users_run [where us = us, OF this range] active that rw1(3) show thesis
      by auto
  qed
  have "rewards_inv ?T (c_settings c) fs' rw2 n"
    using rewards_inv_converts_active [OF conv rw2(2,5)] rw2(4) by blast
  moreover have "swap_waiting_to_active_compute_rewards env x c = Inr (c\<lparr>c_funds := fs', c_rewards := rw2\<rparr>)"
    by (simp add: swap_waiting_to_active_compute_rewards_def dry run rw1(1) rw2(1))
  ultimately show ?thesis
    using conv rw1(4) rw2(3) by auto
qed

lemma use_waiting_run:
  assumes fs: "fund_inv (c_funds c)" "id_room 4 (c_funds c)"
    and few: "few_items (c_funds c) Waiting" "few_items (c_funds c) UnStaked"
    and own: "owned_funds (c_funds c) n" and n: "1 \<le> n"
    and rew: "rewards_inv (cumulated_rewards env) (c_settings c) (c_funds c) (c_rewards c) n"
    and boot: "bootstrap_mode (c_settings c) \<Longrightarrow> cumulated_rewards env = 0 \<and>
      type_total (c_funds c) Active \<le> total_delegation_cap (c_settings c)"
    and reg: "\<not> bootstrap_mode (c_settings c) \<Longrightarrow>
      type_total (c_funds c) Active + type_total (c_funds c) UnStaked = total_delegation_cap (c_settings c)"
  shows "\<exists>fs' rw b. use_waiting_to_replace_unstaked env c = Inr (moved fs' rw b c) \<and>
    fund_inv fs' \<and> owned_funds fs' n \<and> cap_inv (moved fs' rw b c) \<and>
    rewards_inv (cumulated_rewards env) (c_settings c) fs' rw n \<and> rs_sent rw = rs_sent (c_rewards c) \<and>
    (b \<longrightarrow> bootstrap_mode (c_settings c)) \<and>
    (\<forall>u. get_user_total_stake fs' u = get_user_total_stake (c_funds c) u \<and> stakeable fs' u = stakeable (c_funds c) u)"
proof -
  let ?T = "cumulated_rewards env" and ?st = "c_settings c" and ?fs = "c_funds c"
  let ?W = "type_total ?fs Waiting" and ?U = "type_total ?fs UnStaked" and ?A = "type_total ?fs Active"
  have cap: "?A \<le> total_delegation_cap ?st"
    using boot reg by (cases "bootstrap_mode ?st") auto
  have types: "UnStaked \<in> set ALL_TYPES" "DeferredPayment \<in> set ALL_TYPES" "Waiting \<in> set ALL_TYPES"
    "Active \<in> set ALL_TYPES"
    by (simp_all add: ALL_TYPES_def)
  have first: "\<exists>fs1. swap_unstaked_to_deferred_payment m (\<lambda>_. False) ?fs = Inr (0, fs1) \<and>
      fund_inv fs1 \<and> id_room 2 fs1 \<and> few_items fs1 Waiting \<and> owned_funds fs1 n \<and>
      type_total fs1 Waiting = ?W \<and> type_total fs1 UnStaked = ?U - m \<and> type_total fs1 Active = ?A \<and>
      rewards_inv ?T ?st fs1 (c_rewards c) n \<and>
      (\<forall>u. get_user_total_stake fs1 u = get_user_total_stake ?fs u \<and> stakeable fs1 u = stakeable ?fs u)"
    if m: "m \<le> ?U" for m
  proof -
    obtain fs1 where run: "swap_unstaked_to_deferred_payment m (\<lambda>_. False) ?fs = Inr (0, fs1)"
      and conv: "converts UNIV (type_items ?fs UnStaked) UnStaked DeferredPayment m ?fs fs1"
      using unstaked_to_deferred.swap_all [OF fs(1) id_room_mono [OF fs(2)] few(2) m] by auto
    have "id_room 2 fs1"
      using id_room_step [of 2 ?fs fs1] fs(2) convertsD(9) [OF conv] by simp
    moreover have "few_items fs1 Waiting"
      using few(1) convertsD(10) [OF conv, of Waiting] by (simp add: few_items_def)
    ultimately show ?thesis
      using run convertsD(1,2) [OF conv] convertsD(4) [OF conv, of Waiting] convertsD(4) [OF conv, of Active]
        converts_owned [OF conv own] rewards_inv_converts [OF conv _ _ rew] converts_wealth [OF conv types(1,2)]
        converts_stakeable [OF conv]
      by auto
  qed
  show ?thesis
  proof (cases "bootstrap_mode ?st")
    case True
    obtain fs1 where fs1: "swap_unstaked_to_deferred_payment ?U (\<lambda>_. False) ?fs = Inr (0, fs1)"
      "fund_inv fs1" "id_room 2 fs1" "few_items fs1 Waiting" "owned_funds fs1 n"
      "type_total fs1 Waiting = ?W" "type_total fs1 UnStaked = 0" "type_total fs1 Active = ?A"
      "rewards_inv ?T ?st fs1 (c_rewards c) n" "\<forall>u. get_user_total_stake fs1 u = get_user_total_stake ?fs u \<and> stakeable fs1 u = stakeable ?fs u"
      using first [of ?U] by auto
    let ?fill = "total_delegation_cap ?st - ?A"
    let ?x = "min ?fill ?W"
    obtain us fs2 where swap: "swap_waiting_to_active ?fill (\<lambda>_. False) fs1 = Inr (us, ?fill - ?x, fs2)"
      and conv: "converts (set us) (type_items fs1 Waiting) Waiting Active ?x fs1 fs2"
      using swap_waiting_to_active_run [OF fs1(2-4), of ?fill "\<lambda>_. False"] fs1(6) by auto
    have chk: "rs_checkpoint (c_rewards c) u = ?T" for u
      using fs1(9) boot [OF True] by (simp add: rewards_inv_def)
    define b where "b = (?fill - ?x \<noteq> 0)"
    have "use_waiting_to_replace_unstaked env c = Inr (moved fs2 (c_rewards c) b c)"
      using fs1 swap cap True
      by (simp add: use_waiting_to_replace_unstaked_def USER_STAKE_TOTALS_ID_def moved_def b_def Let_def)
    moreover have "cap_inv (moved fs2 (c_rewards c) b c)"
      using convertsD(2,3) [OF conv] convertsD(4) [OF conv, of UnStaked] fs1(6-8) cap
      by (auto simp: cap_inv_def b_def Let_def)
    moreover have "rewards_inv ?T ?st fs2 (c_rewards c) n"
      using rewards_inv_converts_active [OF conv fs1(9)] chk by simp
    ultimately show ?thesis
      using convertsD(1) [OF conv] converts_owned [OF conv fs1(5)] converts_wealth [OF conv types(3,4)] fs1(10) True
        converts_stakeable [OF conv]
      by (intro exI [of _ fs2] exI [of _ "c_rewards c"] exI [of _ b]) simp
  next
    case False
    define m where "m = min ?W ?U"
    have m: "m \<le> ?U" "m \<le> ?W" "m = ?W \<or> m = ?U"
      by (auto simp: m_def)
    show ?thesis
    proof (cases "m = 0")
      case True
      then have "use_waiting_to_replace_unstaked env c = Inr c"
        using False by (simp add: m_def [symmetric] use_waiting_to_replace_unstaked_def USER_STAKE_TOTALS_ID_def Let_def)
      moreover have "moved ?fs (c_rewards c) False c = c"
        using False by (simp add: moved_def)
      moreover have "cap_inv c"
        using reg [OF False] False True m(3) by (auto simp: cap_inv_def Let_def)
      ultimately show ?thesis
        using fs own rew by (intro exI [of _ ?fs] exI [of _ "c_rewards c"] exI [of _ False]) simp
    next
      case pos: False
      obtain fs1 where fs1: "swap_unstaked_to_deferred_payment m (\<lambda>_. False) ?fs = Inr (0, fs1)"
        "fund_inv fs1" "id_room 2 fs1" "few_items fs1 Waiting" "owned_funds fs1 n"
        "type_total fs1 Waiting = ?W" "type_total fs1 UnStaked = ?U - m" "type_total fs1 Active = ?A"
        "rewards_inv ?T ?st fs1 (c_rewards c) n" "\<forall>u. get_user_total_stake fs1 u = get_user_total_stake ?fs u \<and> stakeable fs1 u = stakeable ?fs u"
        using first [OF m(1)] by auto
      obtain fs2 rw us where run: "swap_waiting_to_active_compute_rewards env m (c\<lparr>c_funds := fs1\<rparr>) =
          Inr (c\<lparr>c_funds := fs2, c_rewards := rw\<rparr>)"
        and conv: "converts us (type_items fs1 Waiting) Waiting Active m fs1 fs2"
        and rew2: "rewards_inv ?T ?st fs2 rw n" "rs_sent rw = rs_sent (c_rewards c)"
        using swap_waiting_to_active_compute_rewards_run [of "c\<lparr>c_funds := fs1\<rparr>" m n env] fs1 n cap m(2) by auto
      have "use_waiting_to_replace_unstaked env c = Inr (moved fs2 rw False c)"
        using fs1(1) run False pos
        by (simp add: m_def [symmetric] use_waiting_to_replace_unstaked_def USER_STAKE_TOTALS_ID_def Let_def moved_def)
      moreover have "cap_inv (moved fs2 rw False c)"
        using convertsD(2,3) [OF conv] convertsD(4) [OF conv, of UnStaked] fs1(6-8) reg [OF False] m
        by (auto simp: cap_inv_def Let_def)
      ultimately show ?thesis
        using convertsD(1) [OF conv] converts_owned [OF conv fs1(5)] converts_wealth [OF conv types(3,4)] fs1(10) rew2
          converts_stakeable [OF conv]
        by (intro exI [of _ fs2] exI [of _ rw] exI [of _ False]) simp
    qed
  qed
qed

section \<open>Staking\<close>

lemma deposits_wealth:
  assumes d: "deposits u t x s s'" and "t \<in> set ALL_TYPES" and u: "u \<noteq> 0"
  shows "get_user_total_stake s' v = get_user_total_stake s v + (if v = u \<or> v = 0 then x else 0)"
  using assms(2) u
  by (cases "v = 0") (auto simp: get_user_total_stake_def depositsD(4) [OF d] depositsD(5) [OF d] ALL_TYPES_def)

lemma deposits_owned:
  assumes "deposits u t x s s'" and "owned_funds s n" and "1 \<le> u" "u \<le> m" "n \<le> m"
  shows "owned_funds s' m"
  unfolding owned_funds_def
proof (intro allI impI)
  fix v r
  assume "user_total s' v r \<noteq> 0"
  then have "v = u \<or> user_total s v r \<noteq> 0"
    using depositsD(5) [OF assms(1), of v r] by (auto split: if_splits)
  then show "1 \<le> v \<and> v \<le> m"
    using assms(2-) unfolding owned_funds_def by (meson order_trans)
qed

text \<open>The part of an endpoint after the funds were prepared: moving funds around restores the invariant.\<close>

lemma use_waiting_inv:
  assumes base: "base_inv c" and few: "few_items (c_funds c) Waiting" "few_items (c_funds c) UnStaked"
    and room: "id_room 4 (c_funds c)"
    and rew: "rewards_inv (cumulated_rewards env) (c_settings c) (c_funds c) (c_rewards c) (us_num_users (c_users c))"
    and boot: "bootstrap_mode (c_settings c) \<Longrightarrow> cumulated_rewards env = 0 \<and>
      type_total (c_funds c) Active \<le> total_delegation_cap (c_settings c)"
    and reg: "\<not> bootstrap_mode (c_settings c) \<Longrightarrow>
      type_total (c_funds c) Active + type_total (c_funds c) UnStaked = total_delegation_cap (c_settings c)"
  shows "\<exists>fs rw b. use_waiting_to_replace_unstaked env c = Inr (moved fs rw b c) \<and>
    contract_inv (cumulated_rewards env) (moved fs rw b c) \<and> rs_sent rw = rs_sent (c_rewards c) \<and>
    (\<forall>u. get_user_total_stake fs u = get_user_total_stake (c_funds c) u \<and> stakeable fs u = stakeable (c_funds c) u)"
proof -
  have fs: "fund_inv (c_funds c)" and own: "owned_funds (c_funds c) (us_num_users (c_users c))"
    and n: "1 \<le> us_num_users (c_users c)" and us: "user_inv (c_users c)"
    using base by (simp_all add: base_inv_def)
  obtain fs' rw b where r: "use_waiting_to_replace_unstaked env c = Inr (moved fs' rw b c)"
    "fund_inv fs'" "owned_funds fs' (us_num_users (c_users c))" "cap_inv (moved fs' rw b c)"
    "rewards_inv (cumulated_rewards env) (c_settings c) fs' rw (us_num_users (c_users c))"
    "rs_sent rw = rs_sent (c_rewards c)" "b \<longrightarrow> bootstrap_mode (c_settings c)"
    "\<forall>u. get_user_total_stake fs' u = get_user_total_stake (c_funds c) u \<and> stakeable fs' u = stakeable (c_funds c) u"
    using use_waiting_run [OF fs room few own n rew boot reg] by blast
  moreover have "contract_inv (cumulated_rewards env) (moved fs' rw b c)"
    using r us n boot by (simp add: contract_inv_def base_inv_def)
  ultimately show ?thesis
    by blast
qed

lemma process_stake_run:
  assumes inv: "contract_inv tot c" and env: "env_ok tot env c"
    and boot: "bootstrap_mode (c_settings c) \<Longrightarrow> 0 < total_delegation_cap (c_settings c)"
    and users: "Suc (us_num_users (c_users c)) < usize_max" and room: "id_room 8 (c_funds c)"
    and few: "type_items (c_funds c) Waiting < MAX_AFFECTED_USERS" "few_items (c_funds c) UnStaked"
  shows "\<exists>c'. process_stake env payment c = Inr (c', [Event (StakeEvent (caller env) payment)]) \<and>
    contract_inv (cumulated_rewards env) c' \<and> c_global_op c' = c_global_op c \<and> c_nodes c' = c_nodes c \<and>
    c_users c' = snd (get_or_create_user (caller env) (c_users c)) \<and> rs_sent (c_rewards c') = rs_sent (c_rewards c) \<and>
    (\<forall>v. get_user_total_stake (c_funds c') v = get_user_total_stake (c_funds c) v +
       (if v = us_user_id (c_users c') (caller env) \<or> v = 0 then payment else 0))"
proof -
  let ?T = "cumulated_rewards env" and ?a = "caller env" and ?n = "us_num_users (c_users c)"
  have inv': "contract_inv ?T c"
    by (rule contract_inv_arrive [OF inv env])
  have own: "owned_funds (c_funds c) ?n" and fs: "fund_inv (c_funds c)" and us: "user_inv (c_users c)" and n: "1 \<le> ?n"
    and rew: "rewards_inv ?T (c_settings c) (c_funds c) (c_rewards c) ?n" and cap: "cap_inv c"
    using inv' by (simp_all add: contract_inv_def base_inv_def)
  obtain u s where gc: "get_or_create_user ?a (c_users c) = (u, s)"
    by (cases "get_or_create_user ?a (c_users c)")
  have u: "us_user_id s ?a = u" "u \<noteq> 0"
    using get_or_create_user_id(1,2) [OF users, of ?a] gc by simp_all
  have s: "user_inv s" "?n \<le> us_num_users s" "us_num_users s \<le> Suc ?n"
    using user_registry.register_inv [OF us users, of ?a] num_users_mono [OF users, of ?a] gc by simp_all
  have le: "u \<le> us_num_users s"
    using s(1) u(1) by (auto simp: registry_inv_def)
  define fs1 where "fs1 = create_waiting (block_nonce env) u payment (c_funds c)"
  define c1 where "c1 = c\<lparr>c_users := s, c_funds := fs1\<rparr>"
  have dep: "deposits u Waiting payment (c_funds c) fs1"
    using increase_fund_balance_deposits [OF fs id_room_mono [OF room], of u "FdWaiting (block_nonce env)" payment]
    by (simp add: fs1_def create_waiting_def)
  have tot: "type_total fs1 Active = type_total (c_funds c) Active" "type_total fs1 UnStaked = type_total (c_funds c) UnStaked"
    by (simp_all add: depositsD(4) [OF dep])
  have own1: "owned_funds fs1 (us_num_users s)"
    using deposits_owned [OF dep own _ le s(2)] u(2) by simp
  have "rewards_inv ?T (c_settings c) (c_funds c) (c_rewards c) (us_num_users s)"
  proof (cases "us_num_users s = ?n")
    case False
    then have "us_num_users s = Suc ?n"
      using s by simp
    moreover have "user_total (c_funds c) (Suc ?n) Active = 0"
      using own unfolding owned_funds_def by (metis Suc_n_not_le_n)
    ultimately show ?thesis
      using rewards_inv_new_user [OF rew n] by simp
  qed (use rew in simp)
  then have rew1: "rewards_inv ?T (c_settings c) fs1 (c_rewards c) (us_num_users s)"
    by (rule rewards_inv_stake) (simp_all add: depositsD(4,5) [OF dep])
  have few1: "few_items fs1 Waiting" "few_items fs1 UnStaked" and room1: "id_room 4 fs1"
    using few depositsD(2) [OF dep] depositsD(3) [OF dep, of Waiting] depositsD(3) [OF dep, of UnStaked]
      id_room_step [of 4 "c_funds c" fs1] room
    by (simp_all add: few_items_def)
  have valid: "validate_delegation_cap_invariant c1 = Inr ()"
    using cap boot tot
    by (auto simp: validate_delegation_cap_invariant_def USER_STAKE_TOTALS_ID_def c1_def cap_inv_def Let_def split: if_splits)
  have base1: "base_inv c1"
    using depositsD(1) [OF dep] own1 s n by (auto simp: base_inv_def c1_def)
  have boot1: "cumulated_rewards env = 0 \<and> type_total (c_funds c1) Active \<le> total_delegation_cap (c_settings c1)"
    if "bootstrap_mode (c_settings c1)"
    using that inv' cap_inv_le [OF cap] tot by (simp add: c1_def contract_inv_def)
  have reg1: "type_total (c_funds c1) Active + type_total (c_funds c1) UnStaked = total_delegation_cap (c_settings c1)"
    if "\<not> bootstrap_mode (c_settings c1)"
    using that cap_inv_regular [OF cap] tot by (simp add: c1_def)
  have "few_items (c_funds c1) Waiting" "few_items (c_funds c1) UnStaked" "id_room 4 (c_funds c1)"
    "rewards_inv ?T (c_settings c1) (c_funds c1) (c_rewards c1) (us_num_users (c_users c1))"
    using few1 room1 rew1 by (simp_all add: c1_def)
  from use_waiting_inv [OF base1 this boot1 reg1]
  obtain fs2 rw b where run: "use_waiting_to_replace_unstaked env c1 = Inr (moved fs2 rw b c1)"
    and inv2: "contract_inv ?T (moved fs2 rw b c1)" and sent: "rs_sent rw = rs_sent (c_rewards c)"
    and wealth: "\<forall>v. get_user_total_stake fs2 v = get_user_total_stake fs1 v"
    by (auto simp: c1_def)
  have "process_stake env payment c = Inr (moved fs2 rw b c1, [Event (StakeEvent ?a payment)])"
    using run valid by (simp add: process_stake_def gc c1_def fs1_def)
  then show ?thesis
    using inv2 sent wealth deposits_wealth [OF dep _ u(2)] u gc
    by (auto simp: c1_def ALL_TYPES_def)
qed

section \<open>Unstaking\<close>

lemma unstake_run:
  assumes inv: "contract_inv tot c" and env: "env_ok tot env c"
    and guards: "not_paused env" "\<not> is_global_op_in_progress c" "us_user_id (c_users c) (caller env) = u" "u \<noteq> 0"
    and amount: "amount \<le> stakeable (c_funds c) u" "amount = stakeable (c_funds c) u \<or> min_stake (c_settings c) \<le> amount"
    and room: "id_room 16 (c_funds c)" and few: "few_items (c_funds c) Waiting"
      "type_items (c_funds c) UnStaked + type_items (c_funds c) Active \<le> MAX_AFFECTED_USERS"
  shows "(\<exists>c'. unstake_endpoint env amount c = Inr c' \<and> contract_inv (cumulated_rewards env) c' \<and>
      c_global_op c' = c_global_op c \<and> c_nodes c' = c_nodes c \<and> c_users c' = c_users c \<and>
      rs_sent (c_rewards c') = rs_sent (c_rewards c) \<and>
      stakeable (c_funds c') u + amount = stakeable (c_funds c) u \<and>
      (\<forall>v. get_user_total_stake (c_funds c') v = get_user_total_stake (c_funds c) v)) \<or>
    unstake_endpoint env amount c = Inl (ScPanic ''cannot have waiting + active stake less than minimum stake'')"
proof -
  let ?T = "cumulated_rewards env" and ?st = "c_settings c" and ?n = "us_num_users (c_users c)"
  have inv': "contract_inv ?T c"
    by (rule contract_inv_arrive [OF inv env])
  have own: "owned_funds (c_funds c) ?n" and fs: "fund_inv (c_funds c)" and us: "user_inv (c_users c)" and n: "1 \<le> ?n"
    and rew: "rewards_inv ?T ?st (c_funds c) (c_rewards c) ?n" and cap: "cap_inv c"
    using inv' by (simp_all add: contract_inv_def base_inv_def)
  have u: "u \<in> {1..?n}"
    using us guards(3,4) by (auto simp: registry_inv_def)
  have valid: "validate_unstake_amount c u amount = Inr ()"
    using amount guards(4) by (auto simp: validate_unstake_amount_def stakeable_def Let_def)
  define w where "w = min amount (user_total (c_funds c) u Waiting)"
  obtain fs1 where run1: "swap_user_waiting_to_withdraw_only u amount (c_funds c) = Inr (amount - w, fs1)"
    and conv1: "converts {u} (user_items (c_funds c) u Waiting) Waiting WithdrawOnly w (c_funds c) fs1"
    using user_waiting_to_withdraw_only.swap_left [OF fs id_room_mono [OF room] TrueI, of u amount]
    by (auto simp: w_def)
  have types: "Waiting \<in> set ALL_TYPES" "WithdrawOnly \<in> set ALL_TYPES" "Active \<in> set ALL_TYPES" "UnStaked \<in> set ALL_TYPES"
    by (simp_all add: ALL_TYPES_def)
  note own1 = converts_owned [OF conv1 own] and fs1 = convertsD(1) [OF conv1]
    and rew1 = rewards_inv_converts [OF conv1 _ _ rew, simplified]
  have tot1: "type_total fs1 Active = type_total (c_funds c) Active" "type_total fs1 UnStaked = type_total (c_funds c) UnStaked"
    "type_total fs1 Waiting \<le> type_total (c_funds c) Waiting" "user_total fs1 u Active = user_total (c_funds c) u Active"
    using convertsD(2) [OF conv1] convertsD(4,7) [OF conv1, of Active] convertsD(4) [OF conv1, of UnStaked] by auto
  have moved_w: "user_total fs1 u Waiting + w = user_total (c_funds c) u Waiting"
    by (rule converts_user_amount [OF conv1 fs])
  show ?thesis
  proof (cases "amount - w = 0")
    case True
    then have w: "w = amount"
      by (simp add: w_def)
    have "unstake_endpoint env amount c = Inr (c\<lparr>c_funds := fs1\<rparr>)"
      using guards valid run1 True by (simp add: unstake_endpoint_def)
    moreover have "contract_inv ?T (c\<lparr>c_funds := fs1\<rparr>)"
      using inv' fs1 own1 rew1 tot1 by (auto simp: contract_inv_def base_inv_def cap_inv_def Let_def split: if_splits)
    ultimately show ?thesis
      using moved_w tot1(4) converts_wealth [OF conv1 types(1,2)] by (auto simp: w stakeable_def)
  next
    case False
    then have r: "amount - w \<le> user_total fs1 u Active" and w: "w = user_total (c_funds c) u Waiting"
      using amount(1) tot1(4) by (auto simp: w_def stakeable_def)
    have cap1: "type_total fs1 Active \<le> total_delegation_cap ?st"
      using cap_inv_le [OF cap] tot1(1) by simp
    have owner: "OWNER_USER_ID \<in> {1..?n}"
      using n by (simp add: OWNER_USER_ID_def)
    obtain rw1 where rw1: "compute_one_user_reward ?T ?st fs1 OWNER_USER_ID (c_rewards c) = Inr rw1"
      "rewards_inv ?T ?st fs1 rw1 ?n" "rs_checkpoint rw1 = (rs_checkpoint (c_rewards c))(OWNER_USER_ID := ?T)"
      "rs_sent rw1 = rs_sent (c_rewards c)"
      by (rule compute_reward_run [OF fs1 cap1 rew1 owner])
    obtain rw2 where rw2: "compute_one_user_reward ?T ?st fs1 u rw1 = Inr rw2" "rewards_inv ?T ?st fs1 rw2 ?n"
      "rs_checkpoint rw2 = (rs_checkpoint rw1)(u := ?T)" "rs_sent rw2 = rs_sent rw1"
      by (rule compute_reward_run [OF fs1 cap1 rw1(2) u])
    have room1: "id_room 8 fs1"
      using id_room_step [of 8 "c_funds c" fs1] room convertsD(9) [OF conv1] by simp
    obtain fs2 where run2: "swap_user_active_to_unstaked (block_nonce env) u (amount - w) fs1 = Inr (0, fs2)"
      and conv2: "converts {u} (user_items fs1 u Active) Active UnStaked (amount - w) fs1 fs2"
      using user_active_to_unstaked.swap_all [OF fs1 id_room_mono [OF room1] TrueI r] by auto
    have few2: "few_items fs2 Waiting" "few_items fs2 UnStaked" and room2: "id_room 4 fs2"
      using few convertsD(10) [OF conv1, of Waiting] convertsD(10) [OF conv1, of UnStaked] convertsD(10) [OF conv1, of Active]
        convertsD(10) [OF conv2, of Waiting] convertsD(10) [OF conv2, of UnStaked] user_items_le [OF fs1, of u Active]
        id_room_step [of 4 fs1 fs2] room1 convertsD(9) [OF conv2]
      by (simp_all add: few_items_def)
    define c3 where "c3 = c\<lparr>c_rewards := rw2, c_funds := fs2\<rparr>"
    have sums: "type_total fs2 Active + type_total fs2 UnStaked = type_total fs1 Active + type_total fs1 UnStaked"
      "type_total fs2 Active \<le> type_total fs1 Active"
      using convertsD(2,3) [OF conv2] by simp_all
    have base3: "base_inv c3"
      using convertsD(1) [OF conv2] converts_owned [OF conv2 own1] us n by (simp add: c3_def base_inv_def)
    have "few_items (c_funds c3) Waiting" "few_items (c_funds c3) UnStaked" "id_room 4 (c_funds c3)"
      "rewards_inv ?T (c_settings c3) (c_funds c3) (c_rewards c3) (us_num_users (c_users c3))"
      using few2 room2 rewards_inv_converts_active [OF conv2 rw2(2)] rw1(3) rw2(3) by (simp_all add: c3_def)
    moreover have "?T = 0 \<and> type_total (c_funds c3) Active \<le> total_delegation_cap (c_settings c3)"
      if "bootstrap_mode (c_settings c3)"
      using that inv' sums(2) cap1 by (simp add: c3_def contract_inv_def)
    moreover have "type_total (c_funds c3) Active + type_total (c_funds c3) UnStaked = total_delegation_cap (c_settings c3)"
      if "\<not> bootstrap_mode (c_settings c3)"
      using that cap_inv_regular [OF cap] sums(1) tot1 by (simp add: c3_def)
    ultimately obtain fs4 rw b where run4: "use_waiting_to_replace_unstaked env c3 = Inr (moved fs4 rw b c3)"
      and inv4: "contract_inv ?T (moved fs4 rw b c3)" and sent: "rs_sent rw = rs_sent (c_rewards c)"
      and wealth: "\<forall>v. get_user_total_stake fs4 v = get_user_total_stake fs2 v \<and> stakeable fs4 v = stakeable fs2 v"
      using use_waiting_inv [OF base3, of env] rw1(4) rw2(4) by (auto simp: c3_def)
    have eq: "unstake_endpoint env amount c =
      bind_res (validate_user_minimum_stake (moved fs4 rw b c3) u) (\<lambda>_. Inr (moved fs4 rw b c3))"
      using guards valid run1 False rw1(1) rw2(1) run2 run4 by (simp add: unstake_endpoint_def c3_def Let_def)
    have "stakeable fs2 u + (amount - w) = stakeable fs1 u"
      using converts_user_amount [OF conv2 fs1] convertsD(7) [OF conv2, of Waiting u] by (simp add: stakeable_def)
    then have "stakeable fs4 u + amount = stakeable (c_funds c) u"
      using wealth moved_w tot1(4) by (simp add: stakeable_def w_def)
    then show ?thesis
      using eq inv4 sent wealth converts_wealth [OF conv1 types(1,2)] converts_wealth [OF conv2 types(3,4)]
      by (auto simp: validate_user_minimum_stake_def Let_def require_def c3_def)
  qed
qed

section \<open>Unbonding\<close>

lemma withdraws_wealth:
  assumes d: "withdraws u t x s s'" and "t \<in> set ALL_TYPES" and u: "u \<noteq> 0"
  shows "get_user_total_stake s' v + (if v = u \<or> v = 0 then x else 0) = get_user_total_stake s v"
proof (cases "v = 0")
  case True
  then show ?thesis
    using assms(2) withdrawsD(4) [OF d, of WithdrawOnly] withdrawsD(4) [OF d, of Waiting] withdrawsD(4) [OF d, of Active]
      withdrawsD(4) [OF d, of UnStaked] withdrawsD(4) [OF d, of DeferredPayment]
    by (auto simp: get_user_total_stake_def ALL_TYPES_def)
next
  case False
  then show ?thesis
    using assms(2) withdrawsD(5) [OF d, of v WithdrawOnly] withdrawsD(5) [OF d, of v Waiting]
      withdrawsD(5) [OF d, of v Active] withdrawsD(5) [OF d, of v UnStaked] withdrawsD(5) [OF d, of v DeferredPayment]
    by (auto simp: get_user_total_stake_def ALL_TYPES_def split: if_splits)
qed

lemma withdraws_owned:
  assumes "withdraws u t x s s'" and "owned_funds s n"
  shows "owned_funds s' n"
  using assms(2) withdrawsD(5) [OF assms(1)] unfolding owned_funds_def by (metis add_is_0)

text \<open>
  Unbonding touches deferred and withdrawable funds of the caller only; it needs nothing of the
  contract but a consistent fund storage, and is allowed at any time.
\<close>

lemma unbond_effect:
  assumes fs: "fund_inv (c_funds c)" and paused: "not_paused env"
    and u: "us_user_id (c_users c) (caller env) = u" "u \<noteq> 0" and room: "id_room 2 (c_funds c)"
  shows "\<exists>x fs. unbond_user env c =
      Inr (x, c\<lparr>c_funds := fs\<rparr>, if 0 < x then [DirectEgld (caller env) x] else []) \<and>
    fund_inv fs \<and> (\<forall>n. owned_funds (c_funds c) n \<longrightarrow> owned_funds fs n) \<and>
    (\<forall>r. r \<noteq> WithdrawOnly \<longrightarrow> r \<noteq> DeferredPayment \<longrightarrow> type_total fs r = type_total (c_funds c) r \<and>
       (\<forall>v. user_total fs v r = user_total (c_funds c) v r)) \<and>
    (\<forall>v. get_user_total_stake fs v + (if v = u \<or> v = 0 then x else 0) = get_user_total_stake (c_funds c) v) \<and>
    ((\<forall>p k. UNBOND_GASLIMIT \<le> gas_left env p k) \<longrightarrow> get_unbondable env c (caller env) = Inr x)"
proof -
  let ?nb = "n_blocks_before_unbond (c_settings c)"
  let ?low = "\<lambda>p k. gas_left env p k < UNBOND_GASLIMIT"
  obtain y fs1 where run1: "swap_eligible_deferred_to_withdraw (block_nonce env) u ?nb (?low 0) (c_funds c) = Inr (y, fs1)"
    and conv: "converts {u} (user_items (c_funds c) u DeferredPayment) DeferredPayment WithdrawOnly y (c_funds c) fs1"
    using swap_eligible_run [OF fs room] by blast
  obtain x fs2 where run2: "liquidate_all_withdraw_only u (?low 1) fs1 = Inr (x, fs2)"
    and wd: "withdraws u WithdrawOnly x fs1 fs2" and all: "(\<forall>k. \<not> ?low 1 k) \<longrightarrow> x = user_total fs1 u WithdrawOnly"
    using destroy_all_for_user_run [OF convertsD(1) [OF conv], of u WithdrawOnly "?low 1"]
    by (auto simp: liquidate_all_withdraw_only_def)
  have kept: "type_total fs2 r = type_total (c_funds c) r" "user_total fs2 v r = user_total (c_funds c) v r"
    if "r \<noteq> WithdrawOnly" "r \<noteq> DeferredPayment" for r v
    using that convertsD(4,7) [OF conv, of r] withdrawsD(4) [OF wd, of r] withdrawsD(5) [OF wd, of v r] by auto
  have wealth: "get_user_total_stake fs2 v + (if v = u \<or> v = 0 then x else 0) = get_user_total_stake (c_funds c) v" for v
    using withdraws_wealth [OF wd _ u(2), of v] converts_wealth [OF conv, of v] by (simp add: ALL_TYPES_def)
  have exact: "get_unbondable env c (caller env) = Inr x" if "\<forall>p k. UNBOND_GASLIMIT \<le> gas_left env p k"
  proof -
    have low: "?low p = (\<lambda>_. False)" for p
      using that by (auto simp: fun_eq_iff not_less)
    have "eligible_deferred_payment (block_nonce env) (c_funds c) u ?nb = Inr y"
      using swap_eligible_amount [OF fs room, of "block_nonce env" u ?nb] run1 by (simp add: low)
    moreover have "user_total fs1 u WithdrawOnly = user_total (c_funds c) u WithdrawOnly + y"
      using convertsD(6) [OF conv, of u] converts_user_amount [OF conv fs] by simp
    ultimately show ?thesis
      using all that u by (simp add: get_unbondable_def not_less)
  qed
  have "unbond_user env c = Inr (x, c\<lparr>c_funds := fs2\<rparr>, if 0 < x then [DirectEgld (caller env) x] else [])"
    using paused u run1 run2 by (simp add: unbond_user_def)
  then show ?thesis
    using withdrawsD(1) [OF wd] withdraws_owned [OF wd converts_owned [OF conv]] kept wealth exact by blast
qed

lemma unbond_run:
  assumes inv: "contract_inv tot c" and paused: "not_paused env"
    and u: "us_user_id (c_users c) (caller env) = u" "u \<noteq> 0" and room: "id_room 2 (c_funds c)"
  shows "\<exists>x fs. unbond_user env c =
      Inr (x, c\<lparr>c_funds := fs\<rparr>, if 0 < x then [DirectEgld (caller env) x] else []) \<and>
    contract_inv tot (c\<lparr>c_funds := fs\<rparr>) \<and>
    (\<forall>v. get_user_total_stake fs v + (if v = u \<or> v = 0 then x else 0) = get_user_total_stake (c_funds c) v) \<and>
    ((\<forall>p k. UNBOND_GASLIMIT \<le> gas_left env p k) \<longrightarrow> get_unbondable env c (caller env) = Inr x)"
proof -
  have fs: "fund_inv (c_funds c)"
    and rew: "rewards_inv tot (c_settings c) (c_funds c) (c_rewards c) (us_num_users (c_users c))"
    using inv by (simp_all add: contract_inv_def base_inv_def)
  obtain x fs2 where r: "unbond_user env c =
      Inr (x, c\<lparr>c_funds := fs2\<rparr>, if 0 < x then [DirectEgld (caller env) x] else [])"
    "fund_inv fs2" "\<forall>n. owned_funds (c_funds c) n \<longrightarrow> owned_funds fs2 n"
    "\<forall>r. r \<noteq> WithdrawOnly \<longrightarrow> r \<noteq> DeferredPayment \<longrightarrow> type_total fs2 r = type_total (c_funds c) r \<and>
       (\<forall>v. user_total fs2 v r = user_total (c_funds c) v r)"
    "\<forall>v. get_user_total_stake fs2 v + (if v = u \<or> v = 0 then x else 0) = get_user_total_stake (c_funds c) v"
    "(\<forall>p k. UNBOND_GASLIMIT \<le> gas_left env p k) \<longrightarrow> get_unbondable env c (caller env) = Inr x"
    using unbond_effect [OF fs paused u room] by blast
  have "rewards_inv tot (c_settings c) fs2 (c_rewards c) (us_num_users (c_users c))"
    by (rule rewards_inv_stake [OF rew]) (simp_all add: r(4))
  then have "contract_inv tot (c\<lparr>c_funds := fs2\<rparr>)"
    using inv r(2-4) by (simp add: contract_inv_def base_inv_def cap_inv_def)
  then show ?thesis
    using r(1,5,6) by blast
qed

section \<open>Claiming\<close>

lemma claim_rewards_run:
  assumes inv: "contract_inv tot c" and env: "env_ok tot env c"
    and guards: "not_paused env" "check_feature_on env ''claimRewards'' True = Inr ()" "\<not> is_global_op_in_progress c"
      "us_user_id (c_users c) (caller env) = u" "u \<noteq> 0"
  shows "\<exists>x rw. get_claimable_rewards (cumulated_rewards env) (c_settings c) (c_users c) (c_funds c) (c_rewards c) (caller env) = Inr x \<and>
    claim_rewards env c = Inr (c\<lparr>c_rewards := rw\<rparr>,
      if 0 < x then [Event (ClaimRewardsEvent (caller env) x), DirectEgld (caller env) x] else []) \<and>
    contract_inv (cumulated_rewards env) (c\<lparr>c_rewards := rw\<rparr>) \<and>
    rs_sent rw = rs_sent (c_rewards c) + x \<and> rs_unclaimed rw u = 0 \<and> rs_checkpoint rw u = cumulated_rewards env \<and>
    (\<forall>v. v \<noteq> u \<longrightarrow> rs_unclaimed rw v = rs_unclaimed (c_rewards c) v \<and> rs_checkpoint rw v = rs_checkpoint (c_rewards c) v)"
proof -
  let ?T = "cumulated_rewards env" and ?st = "c_settings c" and ?n = "us_num_users (c_users c)" and ?rw = "c_rewards c"
  have inv': "contract_inv ?T c"
    by (rule contract_inv_arrive [OF inv env])
  have fs: "fund_inv (c_funds c)" and us: "user_inv (c_users c)" and rew: "rewards_inv ?T ?st (c_funds c) ?rw ?n"
    and cap: "cap_inv c"
    using inv' by (simp_all add: contract_inv_def base_inv_def)
  have u: "u \<in> {1..?n}"
    using us guards(4,5) by (auto simp: registry_inv_def)
  have fee: "service_fee ?st \<le> PERCENTAGE_DENOMINATOR" and chk: "rs_checkpoint ?rw u \<le> ?T"
    using rew by (auto simp: rewards_inv_def)
  define x where "x = rs_unclaimed ?rw u + new_rewards ?st (c_funds c) u (?T - rs_checkpoint ?rw u)"
  have load: "load_updated_user_rewards ?T ?st (c_funds c) ?rw u = Inr \<lparr>reward_checkpoint = ?T, unclaimed_rewards = x\<rparr>"
    unfolding x_def by (rule load_updated_user_rewards_ok [OF fee guards(5) chk active_needs_cap [OF fs cap_inv_le [OF cap]]])
  define rw where "rw = ?rw\<lparr>rs_checkpoint := (rs_checkpoint ?rw)(u := ?T), rs_unclaimed := (rs_unclaimed ?rw)(u := 0),
    rs_sent := rs_sent ?rw + x\<rparr>"
  have run: "claim_rewards env c = Inr (c\<lparr>c_rewards := rw\<rparr>,
      if 0 < x then [Event (ClaimRewardsEvent (caller env) x), DirectEgld (caller env) x] else [])"
    using guards load
    by (auto simp: claim_rewards_def send_rewards_def store_user_reward_data_def rw_def Let_def
        intro!: contract.equality reward_storage.equality)
  have "reward_liability ?T ?st (c_funds c) rw ?n = reward_liability ?T ?st (c_funds c) ?rw ?n
      + new_rewards ?st (c_funds c) u (?T - rs_checkpoint ?rw u) - pending_rewards ?T ?st (c_funds c) ?rw u"
    using liability_update [OF u, of rw ?rw ?T ?st "c_funds c"]
    by (simp add: rw_def x_def pending_rewards_def)
  also have "\<dots> \<le> reward_liability ?T ?st (c_funds c) ?rw ?n"
    using new_rewards_le [OF fee, of "c_funds c" u "?T - rs_checkpoint ?rw u"] by (simp add: pending_rewards_def)
  finally have "rewards_inv ?T ?st (c_funds c) rw ?n"
    using rew by (auto simp: rewards_inv_def rw_def)
  then have "contract_inv ?T (c\<lparr>c_rewards := rw\<rparr>)"
    using inv' by (simp add: contract_inv_def base_inv_def cap_inv_def)
  moreover have "get_claimable_rewards ?T ?st (c_users c) (c_funds c) ?rw (caller env) = Inr x"
    using guards(4,5) load by (simp add: get_claimable_rewards_def)
  ultimately show ?thesis
    using run by (auto simp: rw_def)
qed

section \<open>Cleaning up dust\<close>

lemma dust_cleanup_waiting_list_run:
  assumes inv: "contract_inv tot c" and guards: "caller env = sc_owner env" "\<not> is_global_op_in_progress c"
    and room: "id_room 2 (c_funds c)" and chk: "checkpoint_ok (c_funds c) Waiting (c_dust_checkpoint c)"
  shows "\<exists>fs i. dust_cleanup_waiting_list env limit c = Inr (c\<lparr>c_funds := fs, c_dust_checkpoint := i\<rparr>) \<and>
    contract_inv tot (c\<lparr>c_funds := fs, c_dust_checkpoint := i\<rparr>) \<and> checkpoint_ok fs Waiting i \<and>
    (\<forall>v. get_user_total_stake fs v = get_user_total_stake (c_funds c) v) \<and>
    (c_dust_checkpoint c = 0 \<longrightarrow> (\<forall>k. \<not> gas_left env 0 k < DUST_GASLIMIT) \<longrightarrow>
      count_fund_items_by_type fs Waiting (\<lambda>it. balance it < limit) = Inr 0)"
proof -
  have fs: "fund_inv (c_funds c)" and own: "owned_funds (c_funds c) (us_num_users (c_users c))"
    and rew: "rewards_inv tot (c_settings c) (c_funds c) (c_rewards c) (us_num_users (c_users c))" and cap: "cap_inv c"
    using inv by (simp_all add: contract_inv_def base_inv_def)
  let ?ft = "\<lambda>(s :: fund_storage) x it. if balance it < limit then Inr (Some FdWithdrawOnly, x) else Inr (None, x)"
  let ?tr = "\<lambda>it. if balance it < limit then Some FdWithdrawOnly else None"
  have "\<exists>i x' s' us y. split_convert_max_by_type_with_checkpoint (c_dust_checkpoint c) Waiting Backwards ?ft
      (\<lambda>k. gas_left env 0 k < DUST_GASLIMIT) () (c_funds c) = Inr (i, x', s') \<and>
    converts us (type_items (c_funds c) Waiting) Waiting WithdrawOnly y (c_funds c) s' \<and> True \<and>
    checkpoint_ok s' Waiting i \<and> (c_dust_checkpoint c = 0 \<longrightarrow> (\<forall>k. \<not> gas_left env 0 k < DUST_GASLIMIT) \<longrightarrow>
      none_left s' Waiting (\<lambda>it. ?tr it \<noteq> None)) \<and>
    (\<forall>it. c_dust_checkpoint c \<noteq> 0 \<longrightarrow> fs_by_id (c_funds c) (c_dust_checkpoint c) = Some it \<longrightarrow> ?tr it \<noteq> None \<longrightarrow>
      \<not> gas_left env 0 0 < DUST_GASLIMIT \<longrightarrow> balance it \<le> y)"
    by (rule split_convert_checkpoint_run [OF fs room chk, where J = "\<lambda>_ _. True" and tr = ?tr])
      (auto split: if_splits)
  then obtain i x' fs' us y where
    run': "split_convert_max_by_type_with_checkpoint (c_dust_checkpoint c) Waiting Backwards ?ft
      (\<lambda>k. gas_left env 0 k < DUST_GASLIMIT) () (c_funds c) = Inr (i, x', fs')"
    and conv: "converts us (type_items (c_funds c) Waiting) Waiting WithdrawOnly y (c_funds c) fs'"
    and ok: "checkpoint_ok fs' Waiting i"
    and rest: "c_dust_checkpoint c = 0 \<longrightarrow> (\<forall>k. \<not> gas_left env 0 k < DUST_GASLIMIT) \<longrightarrow>
      none_left fs' Waiting (\<lambda>it. ?tr it \<noteq> None)"
    by (elim exE conjE) (rule that)
  have run: "split_convert_max_by_type_with_checkpoint (c_dust_checkpoint c) Waiting Backwards ?ft
      (\<lambda>k. gas_left env 0 k < DUST_GASLIMIT) () (c_funds c) = Inr (i, (), fs')"
    using run' by simp
  have tr: "(\<lambda>it :: fund_item. ?tr it \<noteq> None) = (\<lambda>it. balance it < limit)"
    by auto
  have none: "count_fund_items_by_type fs' Waiting (\<lambda>it. balance it < limit) = Inr 0"
    if "c_dust_checkpoint c = 0" "\<forall>k. \<not> gas_left env 0 k < DUST_GASLIMIT"
    by (rule count_none_left [OF convertsD(1) [OF conv] rest [unfolded tr, rule_format, OF that(1)]])
      (use that(2) in blast)
  have "dust_cleanup_waiting_list env limit c = Inr (c\<lparr>c_funds := fs', c_dust_checkpoint := i\<rparr>)"
  proof -
    have "swap_dust (c_dust_checkpoint c) limit Waiting (\<lambda>_ x _. Inr (Some FdWithdrawOnly, x))
        (\<lambda>k. gas_left env 0 k < DUST_GASLIMIT) () (c_funds c) = Inr (i, (), fs')"
      unfolding swap_dust_def by (rule run)
    then show ?thesis
      unfolding dust_cleanup_waiting_list_def only_owner_def by (simp only: guards require_True bind_res_Inr prod.case simp_thms)
  qed
  moreover have "contract_inv tot (c\<lparr>c_funds := fs', c_dust_checkpoint := i\<rparr>)"
    using inv convertsD(1) [OF conv] converts_owned [OF conv own] rewards_inv_converts [OF conv _ _ rew]
      convertsD(2) [OF conv] convertsD(4) [OF conv, of Active] convertsD(4) [OF conv, of UnStaked]
    by (auto simp: contract_inv_def base_inv_def cap_inv_def Let_def split: if_splits)
  ultimately show ?thesis
    using ok none converts_wealth [OF conv] by (intro exI [of _ fs'] exI [of _ i]) (simp add: ALL_TYPES_def)
qed

text \<open>
  A checkpoint in another list: the cleanup of the waiting list goes on there, and takes out of
  that list what it finds.
\<close>

lemma dust_cleanup_foreign_run:
  assumes fs: "fund_inv (c_funds c)" and guards: "caller env = sc_owner env" "\<not> is_global_op_in_progress c"
    and room: "id_room 2 (c_funds c)" and t: "t \<noteq> WithdrawOnly"
    and item: "c_dust_checkpoint c \<noteq> 0" "fs_by_id (c_funds c) (c_dust_checkpoint c) = Some it" "fund_type_of (fund_desc it) = t"
      "balance it < limit"
    and gas: "DUST_GASLIMIT \<le> gas_left env 0 0"
  shows "\<exists>fs i us y. dust_cleanup_waiting_list env limit c = Inr (c\<lparr>c_funds := fs, c_dust_checkpoint := i\<rparr>) \<and>
    converts us (type_items (c_funds c) t) t WithdrawOnly y (c_funds c) fs \<and> balance it \<le> y"
proof -
  let ?ft = "\<lambda>(s :: fund_storage) x it. if balance it < limit then Inr (Some FdWithdrawOnly, x) else Inr (None, x)"
  let ?tr = "\<lambda>it. if balance it < limit then Some FdWithdrawOnly else None"
  let ?intr = "\<lambda>k. gas_left env 0 k < DUST_GASLIMIT"
  have chk: "checkpoint_ok (c_funds c) t (c_dust_checkpoint c)"
    using item(2,3) by (simp add: checkpoint_ok_def)
  have "\<exists>i x' s' us y. split_convert_max_by_type_with_checkpoint (c_dust_checkpoint c) t Backwards ?ft
      ?intr () (c_funds c) = Inr (i, x', s') \<and>
    converts us (type_items (c_funds c) t) t WithdrawOnly y (c_funds c) s' \<and> True \<and>
    checkpoint_ok s' t i \<and> (c_dust_checkpoint c = 0 \<longrightarrow> (\<forall>k. \<not> ?intr k) \<longrightarrow>
      none_left s' t (\<lambda>it. ?tr it \<noteq> None)) \<and>
    (\<forall>it. c_dust_checkpoint c \<noteq> 0 \<longrightarrow> fs_by_id (c_funds c) (c_dust_checkpoint c) = Some it \<longrightarrow> ?tr it \<noteq> None \<longrightarrow>
      \<not> ?intr 0 \<longrightarrow> balance it \<le> y)"
    by (rule split_convert_checkpoint_run [OF fs room chk t, where J = "\<lambda>_ _. True" and tr = ?tr])
      (auto split: if_splits)
  then obtain i s' us y where
    run: "split_convert_max_by_type_with_checkpoint (c_dust_checkpoint c) t Backwards ?ft ?intr () (c_funds c) = Inr (i, (), s')"
    and conv: "converts us (type_items (c_funds c) t) t WithdrawOnly y (c_funds c) s'" and y: "balance it \<le> y"
    using item gas by (auto simp: not_less)
  have "swap_dust (c_dust_checkpoint c) limit Waiting (\<lambda>_ x _. Inr (Some FdWithdrawOnly, x)) ?intr () (c_funds c) = Inr (i, (), s')"
    using run item(1) by (simp only: swap_dust_def split_convert_max_by_type_with_checkpoint_def if_False)
  then have "dust_cleanup_waiting_list env limit c = Inr (c\<lparr>c_funds := s', c_dust_checkpoint := i\<rparr>)"
    unfolding dust_cleanup_waiting_list_def only_owner_def by (simp only: guards require_True bind_res_Inr prod.case simp_thms)
  then show ?thesis
    using conv y by blast
qed

lemma active_dust_run:
  assumes fs: "fund_inv fs" and room: "id_room 2 fs" and chk: "checkpoint_ok fs Active cur"
    and own: "owned_funds fs n" and rew: "rewards_inv T st fs rw n" and cap: "type_total fs Active \<le> total_delegation_cap st"
    and owner: "rs_checkpoint rw OWNER_USER_ID = T"
  shows "\<exists>i rw' fs' us y. swap_dust cur limit Active (active_dust_transform T st) intr rw fs = Inr (i, rw', fs') \<and>
    converts us (type_items fs Active) Active UnStaked y fs fs' \<and> rewards_inv T st fs' rw' n \<and>
    rs_sent rw' = rs_sent rw \<and> checkpoint_ok fs' Active i"
proof -
  define J where "J s r \<longleftrightarrow> owned_funds s n \<and> rewards_inv T st s r n \<and> type_total s Active \<le> total_delegation_cap st \<and>
    rs_checkpoint r OWNER_USER_ID = T \<and> rs_sent r = rs_sent rw" for s r
  define tr where "tr it = (if balance it < limit \<and> user_id it \<noteq> 0 then Some (FdUnStaked 0) else None)" for it :: fund_item
  let ?ft = "\<lambda>s x it. if balance it < limit then active_dust_transform T st s x it else Inr (None, x)"
  have act: "\<exists>x'. ?ft s x it = Inr (tr it, x') \<and>
      (case tr it of None \<Rightarrow> J s x'
       | Some d \<Rightarrow> \<forall>s'. converts {user_id it} 1 Active UnStaked (balance it) s s' \<longrightarrow> J s' x')"
    if it: "fund_inv s" "J s x" "0 < balance it" "balance it \<le> user_total s (user_id it) Active" for s x it
  proof -
    have u: "user_id it \<in> {1..n}"
    proof -
      have "user_total s (user_id it) Active \<noteq> 0"
        using it(3,4) by linarith
      then show ?thesis
        using it(2) unfolding J_def owned_funds_def by fastforce
    qed
    obtain x' where x': "compute_one_user_reward T st s (user_id it) x = Inr x'" "rewards_inv T st s x' n"
      "rs_checkpoint x' = (rs_checkpoint x)(user_id it := T)" "rs_sent x' = rs_sent x"
    proof (rule compute_reward_run [OF it(1) _ _ u])
      show "type_total s Active \<le> total_delegation_cap st" "rewards_inv T st s x n"
        using it(2) by (simp_all add: J_def)
    qed (rule that)
    have "J s' x'" if "converts {user_id it} 1 Active UnStaked (balance it) s s'" for s'
      using it(2) x' rewards_inv_converts_active [OF that x'(2)] converts_owned [OF that] convertsD(2) [OF that]
      by (auto simp: J_def)
    then show ?thesis
      using it(2) u x'(1) by (auto simp: tr_def active_dust_transform_def)
  qed
  have J: "J fs rw"
    using own rew cap owner by (simp add: J_def)
  have "\<exists>i x' s' us y. split_convert_max_by_type_with_checkpoint cur Active Backwards ?ft intr rw fs = Inr (i, x', s') \<and>
    converts us (type_items fs Active) Active UnStaked y fs s' \<and> J s' x' \<and> checkpoint_ok s' Active i \<and>
    (cur = 0 \<longrightarrow> (\<forall>k. \<not> intr k) \<longrightarrow> none_left s' Active (\<lambda>it. tr it \<noteq> None)) \<and>
    (\<forall>it. cur \<noteq> 0 \<longrightarrow> fs_by_id fs cur = Some it \<longrightarrow> tr it \<noteq> None \<longrightarrow> \<not> intr 0 \<longrightarrow> balance it \<le> y)"
  proof (rule split_convert_checkpoint_run [where J = J and tr = tr, OF fs room chk _ J])
    show "\<And>s x it. fund_inv s \<Longrightarrow> J s x \<Longrightarrow> fund_type_of (fund_desc it) = Active \<Longrightarrow> 0 < balance it \<Longrightarrow>
      balance it \<le> user_total s (user_id it) Active \<Longrightarrow>
      \<exists>x'. ?ft s x it = Inr (tr it, x') \<and>
        (case tr it of None \<Rightarrow> J s x'
         | Some d \<Rightarrow> \<forall>s'. converts {user_id it} 1 Active UnStaked (balance it) s s' \<longrightarrow> J s' x')"
      by (rule act)
  qed (auto simp: tr_def split: if_splits)
  then show ?thesis
    unfolding swap_dust_def J_def by blast
qed

lemma dust_cleanup_active_run:
  assumes inv: "contract_inv tot c" and env: "env_ok tot env c"
    and guards: "caller env = sc_owner env" "\<not> is_global_op_in_progress c"
    and room: "id_room 8 (c_funds c)" and chk: "checkpoint_ok (c_funds c) Active (c_dust_checkpoint c)"
    and few: "few_items (c_funds c) Waiting"
      "type_items (c_funds c) UnStaked + type_items (c_funds c) Active \<le> MAX_AFFECTED_USERS"
  shows "\<exists>c'. dust_cleanup_active env limit c = Inr c' \<and> contract_inv (cumulated_rewards env) c' \<and>
    c_global_op c' = c_global_op c \<and> c_nodes c' = c_nodes c \<and> c_users c' = c_users c \<and>
    rs_sent (c_rewards c') = rs_sent (c_rewards c) \<and>
    (\<forall>v. get_user_total_stake (c_funds c') v = get_user_total_stake (c_funds c) v)"
proof -
  let ?T = "cumulated_rewards env" and ?st = "c_settings c" and ?n = "us_num_users (c_users c)"
  have inv': "contract_inv ?T c"
    by (rule contract_inv_arrive [OF inv env])
  have own: "owned_funds (c_funds c) ?n" and fs: "fund_inv (c_funds c)" and us: "user_inv (c_users c)" and n: "1 \<le> ?n"
    and rew: "rewards_inv ?T ?st (c_funds c) (c_rewards c) ?n" and cap: "cap_inv c"
    using inv' by (simp_all add: contract_inv_def base_inv_def)
  have owner: "OWNER_USER_ID \<in> {1..?n}"
    using n by (simp add: OWNER_USER_ID_def)
  obtain rw1 where rw1: "compute_one_user_reward ?T ?st (c_funds c) OWNER_USER_ID (c_rewards c) = Inr rw1"
    "rewards_inv ?T ?st (c_funds c) rw1 ?n" "rs_checkpoint rw1 = (rs_checkpoint (c_rewards c))(OWNER_USER_ID := ?T)"
    "rs_sent rw1 = rs_sent (c_rewards c)"
    by (rule compute_reward_run [OF fs cap_inv_le [OF cap] rew owner])
  define reserved where "reserved = gas_left env 0 0 div 2 + DUST_GASLIMIT"
  obtain i rw2 fs2 us' y where run: "swap_dust (c_dust_checkpoint c) limit Active (active_dust_transform ?T ?st)
      (\<lambda>k. gas_left env 1 k < reserved) rw1 (c_funds c) = Inr (i, rw2, fs2)"
    and conv: "converts us' (type_items (c_funds c) Active) Active UnStaked y (c_funds c) fs2"
    and rew2: "rewards_inv ?T ?st fs2 rw2 ?n" "rs_sent rw2 = rs_sent rw1"
    using active_dust_run [OF fs id_room_mono [OF room] chk own rw1(2) cap_inv_le [OF cap]] rw1(3) by fastforce
  define c2 where "c2 = c\<lparr>c_funds := fs2, c_rewards := rw2, c_dust_checkpoint := i\<rparr>"
  have base2: "base_inv c2"
    using convertsD(1) [OF conv] converts_owned [OF conv own] us n by (simp add: c2_def base_inv_def)
  have "few_items (c_funds c2) Waiting" "few_items (c_funds c2) UnStaked" "id_room 4 (c_funds c2)"
    "rewards_inv ?T (c_settings c2) (c_funds c2) (c_rewards c2) (us_num_users (c_users c2))"
    using few convertsD(10) [OF conv, of Waiting] convertsD(10) [OF conv, of UnStaked]
      id_room_step [of 4 "c_funds c" fs2] room convertsD(9) [OF conv] rew2
    by (simp_all add: c2_def few_items_def)
  moreover have "?T = 0 \<and> type_total (c_funds c2) Active \<le> total_delegation_cap (c_settings c2)"
    if "bootstrap_mode (c_settings c2)"
    using that inv' convertsD(2) [OF conv] cap_inv_le [OF cap] by (simp add: c2_def contract_inv_def)
  moreover have "type_total (c_funds c2) Active + type_total (c_funds c2) UnStaked = total_delegation_cap (c_settings c2)"
    if "\<not> bootstrap_mode (c_settings c2)"
    using that cap_inv_regular [OF cap] convertsD(2,3) [OF conv] by (simp add: c2_def)
  ultimately obtain fs4 rw b where run4: "use_waiting_to_replace_unstaked env c2 = Inr (moved fs4 rw b c2)"
    and inv4: "contract_inv ?T (moved fs4 rw b c2)" and sent: "rs_sent rw = rs_sent (c_rewards c)"
    and wealth: "\<forall>v. get_user_total_stake fs4 v = get_user_total_stake fs2 v"
    using use_waiting_inv [OF base2, of env] rw1(4) rew2(2) by (auto simp: c2_def)
  have "dust_cleanup_active env limit c = Inr (moved fs4 rw b c2)"
    using guards rw1(1) run run4 by (simp add: dust_cleanup_active_def only_owner_def reserved_def c2_def Let_def)
  then show ?thesis
    using inv4 sent wealth converts_wealth [OF conv] by (auto simp: c2_def ALL_TYPES_def)
qed

text \<open>What all users can claim together.\<close>

lemma total_unclaimed_run:
  assumes "contract_inv tot c" and "env_ok tot env c"
  shows "\<exists>x. get_total_unclaimed_rewards (cumulated_rewards env) (c_settings c) (c_users c) (c_funds c) (c_rewards c) = Inr x \<and>
    x + rs_sent (c_rewards c) \<le> cumulated_rewards env"
proof -
  let ?T = "cumulated_rewards env" and ?st = "c_settings c" and ?fs = "c_funds c" and ?rw = "c_rewards c"
  let ?n = "us_num_users (c_users c)"
  let ?r = "\<lambda>u. rs_unclaimed ?rw u + new_rewards ?st ?fs u (?T - rs_checkpoint ?rw u)"
  have inv: "contract_inv ?T c"
    by (rule contract_inv_arrive [OF assms])
  have fs: "fund_inv ?fs" and rew: "rewards_inv ?T ?st ?fs ?rw ?n" and cap: "cap_inv c"
    using inv by (simp_all add: contract_inv_def base_inv_def)
  have "load_updated_user_rewards ?T ?st ?fs ?rw u = Inr \<lparr>reward_checkpoint = ?T, unclaimed_rewards = ?r u\<rparr>" if "u \<noteq> 0" for u
    using rew that by (intro load_updated_user_rewards_ok active_needs_cap [OF fs cap_inv_le [OF cap]])
      (auto simp: rewards_inv_def)
  then have loop: "get_total_unclaimed_rewards_loop ?T ?st ?fs ?rw ids z = Inr (z + (\<Sum>u\<leftarrow>ids. ?r u))"
    if "0 \<notin> set ids" for ids z
    using that by (induction ids arbitrary: z) auto
  have "get_total_unclaimed_rewards ?T ?st (c_users c) ?fs ?rw = Inr (\<Sum>u\<leftarrow>[1..<Suc ?n]. ?r u)"
    unfolding get_total_unclaimed_rewards_def by (subst loop) auto
  moreover have "(\<Sum>u\<leftarrow>[1..<Suc ?n]. ?r u) = (\<Sum>u=1..?n. ?r u)"
    by (simp add: sum_list_distinct_conv_sum_set atLeastLessThanSuc_atLeastAtMost del: upt_Suc)
  ultimately show ?thesis
    using rewards_inv_claimable [OF rew] by simp
qed

end
