(* ===== verification/Samples.thy ===== *)
theory Samples
  imports Stake_Invariants
begin

text \<open>
  Sample states on which the hypotheses of the properties are shown to hold: a contract
  with two users that left bootstrap mode with a full delegation cap, its fund storage laid
  out from a list of entries, and a call environment with plenty of gas.
\<close>

definition sample_owner :: address where
  "sample_owner = replicate 32 1"

definition sample_user :: address where
  "sample_user = replicate 32 2"

definition sample_entries :: abs_funds where
  "sample_entries = \<lparr>a_max = 5, a_entries =
     [\<lparr>eid = 1, edesc = FdActive, euser = 1, ebal = 60\<rparr>,
      \<lparr>eid = 2, edesc = FdActive, euser = 2, ebal = 40\<rparr>,
      \<lparr>eid = 3, edesc = FdWaiting 7, euser = 2, ebal = 5\<rparr>,
      \<lparr>eid = 5, edesc = FdDeferredPayment 3, euser = 2, ebal = 8\<rparr>]\<rparr>"

definition sample_funds :: fund_storage where
  "sample_funds = concrete sample_entries"

definition sample_users :: user_storage where
  "sample_users = \<lparr>us_user_id = (\<lambda>_. 0)(sample_owner := 1, sample_user := 2),
     us_user_address = (\<lambda>_. None)(1 := Some sample_owner, 2 := Some sample_user), us_num_users = 2\<rparr>"

definition sample_settings :: settings where
  "sample_settings = \<lparr>auction_addr = replicate 32 9, service_fee = 1000, total_delegation_cap = 100,
     bootstrap_mode = False, owner_min_stake_share = 500, n_blocks_before_unbond = 10, min_stake = 2\<rparr>"

definition sample_contract :: contract where
  "sample_contract = \<lparr>c_settings = sample_settings, c_users = sample_users, c_funds = sample_funds,
     c_rewards = reward_storage_empty, c_nodes = node_storage_empty, c_global_op = GlobalOpNone,
     c_dust_checkpoint = 0\<rparr>"

definition sample_env :: "address \<Rightarrow> sc_env" where
  "sample_env a = \<lparr>caller = a, sc_owner = sample_owner, block_nonce = 20, cumulated_rewards = 1000,
     sc_balance = 5000, gas_left = (\<lambda>_ _. 1000000000), not_paused = True, check_feature_on = (\<lambda>_ _. Inr ())\<rparr>"

lemma sample_wf: "wf_funds sample_entries"
  by (simp add: sample_entries_def wf_entries_def)

lemma sample_fund_inv: "fund_inv sample_funds"
  unfolding sample_funds_def by (rule fund_inv_concrete [OF sample_wf])

lemma sample_room: "n \<le> 16 \<Longrightarrow> id_room n sample_funds"
  by (rule id_room_mono [of 16]) (simp_all add: id_room_def sample_funds_def sample_entries_def usize_max_def)

lemma sample_items:
  "type_items sample_funds Waiting = 1" "type_items sample_funds UnStaked = 0" "type_items sample_funds Active = 2"
  unfolding sample_funds_def type_items_concrete [OF sample_wf]
  by (simp_all add: sample_entries_def of_type_def etype_def)

lemma sample_few: "few_items sample_funds Waiting" "few_items sample_funds UnStaked"
  by (simp_all add: few_items_def sample_items MAX_AFFECTED_USERS_def)

lemma sample_totals:
  "type_total sample_funds Waiting = 5" "type_total sample_funds UnStaked = 0" "type_total sample_funds Active = 100"
  "user_total sample_funds 2 Waiting = 5" "user_total sample_funds 2 Active = 40"
  "user_total sample_funds 2 DeferredPayment = 8" "user_total sample_funds 2 WithdrawOnly = 0"
  by (simp_all add: sample_funds_def sum_of_def sum_where_def sample_entries_def)

lemma sample_types:
  "type_total sample_funds WithdrawOnly = 0" "type_total sample_funds Waiting = 5" "type_total sample_funds Active = 100"
  "type_total sample_funds UnStaked = 0" "type_total sample_funds DeferredPayment = 8"
  by (simp_all add: sample_funds_def sum_of_def sum_where_def sample_entries_def)

lemma sample_owned: "owned_funds sample_funds 2"
proof -
  have "u = 1 \<or> u = 2" if "user_total sample_funds u t \<noteq> 0" for u t
  proof (rule ccontr)
    assume "\<not> (u = 1 \<or> u = 2)"
    then have "filter (of_user u t) (a_entries sample_entries) = []"
      by (simp add: sample_entries_def of_user_def)
    then show False
      using that by (simp add: sample_funds_def sum_of_user sum_where_def)
  qed
  then have "1 \<le> u \<and> u \<le> 2" if "user_total sample_funds u t \<noteq> 0" for u t
    using that by (metis le_refl one_le_numeral)
  then show ?thesis
    unfolding owned_funds_def by blast
qed

lemma sample_addresses: "sample_owner \<noteq> sample_user" "sample_user \<noteq> sample_owner"
  by (simp_all add: sample_owner_def sample_user_def)

lemma sample_user_inv: "user_inv sample_users"
  by (auto simp: registry_inv_def sample_users_def sample_addresses split: if_splits)

lemma sample_inv: "contract_inv 0 sample_contract"
proof -
  have "rewards_inv 0 sample_settings sample_funds reward_storage_empty 2"
    by (simp add: rewards_inv_def reward_liability_def pending_rewards_def reward_storage_empty_def
        sample_settings_def PERCENTAGE_DENOMINATOR_def)
  then show ?thesis
    using sample_fund_inv sample_owned sample_user_inv
    by (simp add: contract_inv_def base_inv_def cap_inv_def sample_contract_def sample_totals)
      (simp add: sample_settings_def sample_users_def)
qed

lemma sample_env_ok: "env_ok 0 (sample_env a) sample_contract"
  by (simp add: env_ok_def sample_env_def sample_contract_def sample_settings_def)

lemma sample_fields [simp]:
  "c_funds sample_contract = sample_funds" "c_users sample_contract = sample_users"
  "c_settings sample_contract = sample_settings" "c_global_op sample_contract = GlobalOpNone"
  "c_dust_checkpoint sample_contract = 0" "c_rewards sample_contract = reward_storage_empty"
  "us_user_id sample_users sample_owner = 1" "us_user_id sample_users sample_user = 2"
  "us_num_users sample_users = 2" "min_stake sample_settings = 2" "bootstrap_mode sample_settings = False"
  "caller (sample_env a) = a" "sc_owner (sample_env a) = sample_owner" "not_paused (sample_env a)"
  "cumulated_rewards (sample_env a) = 1000" "gas_left (sample_env a) p k = 1000000000"
  "check_feature_on (sample_env a) f b = Inr ()"
  "\<not> is_global_op_in_progress sample_contract"
  by (simp_all add: sample_contract_def sample_users_def sample_settings_def sample_env_def sample_addresses
      is_global_op_in_progress_def global_op_is_none_def)

end
