(* ===== verification/Stake_Properties.thy ===== *)
theory Stake_Properties
  imports Samples
begin

text \<open>
  The properties of the delegators' endpoints, each with a witness on the sample contract.
\<close>

section \<open>Staking\<close>

text \<open>
  (C4) Staking never gets stuck and keeps every invariant of the contract. In any state that
  satisfies \<open>contract_inv\<close>, a call of \<open>stake\<close> that meets the endpoint's own guards returns, logs
  the payment, and adds exactly the payment to the caller's stake and to the total stake and
  nothing to anybody else's; afterwards the fund lists are consistent, active and unstaked
  funds fill the cap (or the contract is still in bootstrap mode), waiting and unstaked
  funds do not coexist, and the rewards owed are covered.
\<close>

theorem stake_endpoint_correct:
  assumes "contract_inv tot c" and "env_ok tot env c" and "not_paused env" and "min_stake (c_settings c) \<le> payment"
    and "\<not> is_global_op_in_progress c"
    and "bootstrap_mode (c_settings c) \<Longrightarrow> 0 < total_delegation_cap (c_settings c)"
    and "Suc (us_num_users (c_users c)) < usize_max" and "id_room 8 (c_funds c)"
    and "type_items (c_funds c) Waiting < MAX_AFFECTED_USERS" and "few_items (c_funds c) UnStaked"
  shows "\<exists>c' u. stake_endpoint env payment c = Inr (c', [Event (StakeEvent (caller env) payment)]) \<and>
    contract_inv (cumulated_rewards env) c' \<and> u \<noteq> 0 \<and> us_user_id (c_users c') (caller env) = u \<and>
    get_user_total_stake (c_funds c') u = get_user_total_stake (c_funds c) u + payment \<and>
    get_total_stake (c_funds c') = get_total_stake (c_funds c) + payment \<and>
    (\<forall>v. v \<noteq> u \<longrightarrow> v \<noteq> 0 \<longrightarrow> get_user_total_stake (c_funds c') v = get_user_total_stake (c_funds c) v)"
proof -
  obtain c' where c': "process_stake env payment c = Inr (c', [Event (StakeEvent (caller env) payment)])"
    "contract_inv (cumulated_rewards env) c'" "c_users c' = snd (get_or_create_user (caller env) (c_users c))"
    "\<forall>v. get_user_total_stake (c_funds c') v = get_user_total_stake (c_funds c) v +
       (if v = us_user_id (c_users c') (caller env) \<or> v = 0 then payment else 0)"
    using process_stake_run [OF assms(1,2,6-10), of payment] by blast
  have "us_user_id (c_users c') (caller env) \<noteq> 0"
    using get_or_create_user_id(1,2) [OF assms(7), of "caller env"] c'(3) by simp
  moreover have "stake_endpoint env payment c = process_stake env payment c"
    using assms(3-5) by (simp add: stake_endpoint_def)
  ultimately show ?thesis
    using c' by (auto simp: get_total_stake_def USER_STAKE_TOTALS_ID_def)
qed

theorem stake_endpoint_correct_witness:
  "\<exists>c' u. stake_endpoint (sample_env sample_user) 7 sample_contract = Inr (c', [Event (StakeEvent sample_user 7)]) \<and>
    contract_inv 1000 c' \<and> u \<noteq> 0 \<and> us_user_id (c_users c') sample_user = u \<and>
    get_user_total_stake (c_funds c') u = get_user_total_stake sample_funds u + 7 \<and>
    get_total_stake (c_funds c') = get_total_stake sample_funds + 7 \<and>
    (\<forall>v. v \<noteq> u \<longrightarrow> v \<noteq> 0 \<longrightarrow> get_user_total_stake (c_funds c') v = get_user_total_stake sample_funds v)"
  using stake_endpoint_correct [OF sample_inv sample_env_ok, of sample_user 7] sample_room [of 8] sample_few sample_items
  by (simp add: usize_max_def MAX_AFFECTED_USERS_def)

section \<open>Unstaking and unbonding\<close>

text \<open>
  The minimum stake of a user is not enforced once the contract as a whole has enough active
  stake: the check adds the active stake of all users to the waiting stake of the user.
\<close>

lemma minimum_stake_reads_total:
  "min_stake (c_settings c) \<le> get_user_stake_of_type (c_funds c) USER_STAKE_TOTALS_ID Active \<Longrightarrow>
    validate_user_minimum_stake c u = Inr ()"
  by (simp add: validate_user_minimum_stake_def Let_def)

text \<open>
  (C5) Unstaking keeps every invariant of the contract and every user's stake. A call that asks for no
  more than the caller's waiting and active funds either returns in a state that satisfies
  \<open>contract_inv\<close>, in which exactly the amount is no longer waiting or active for the caller while
  nobody's total stake has changed, or it is rejected by the minimum-stake check; no other error
  can happen.
\<close>

theorem unstake_endpoint_correct:
  assumes "contract_inv tot c" and "env_ok tot env c" and "not_paused env" and "\<not> is_global_op_in_progress c"
    and "us_user_id (c_users c) (caller env) \<noteq> 0"
    and "amount \<le> get_unstakeable c (caller env)"
    and "amount = get_unstakeable c (caller env) \<or> min_stake (c_settings c) \<le> amount"
    and "id_room 16 (c_funds c)" and "few_items (c_funds c) Waiting"
    and "type_items (c_funds c) UnStaked + type_items (c_funds c) Active \<le> MAX_AFFECTED_USERS"
  shows "(\<exists>c'. unstake_endpoint env amount c = Inr c' \<and> contract_inv (cumulated_rewards env) c' \<and>
      get_unstakeable c' (caller env) + amount = get_unstakeable c (caller env) \<and>
      (\<forall>v. get_user_total_stake (c_funds c') v = get_user_total_stake (c_funds c) v)) \<or>
    unstake_endpoint env amount c = Inl (ScPanic ''cannot have waiting + active stake less than minimum stake'')"
proof -
  have eq: "get_unstakeable d (caller env) = stakeable (c_funds d) (us_user_id (c_users c) (caller env))"
    if "c_users d = c_users c" for d
    using assms(5) that by (simp add: get_unstakeable_def stakeable_def Let_def)
  show ?thesis
    using unstake_run [OF assms(1-4) refl assms(5) _ _ assms(8-10), of amount] assms(6,7) eq by fastforce
qed

theorem unstake_endpoint_correct_witness:
  "(\<exists>c'. unstake_endpoint (sample_env sample_user) 12 sample_contract = Inr c' \<and> contract_inv 1000 c' \<and>
      get_unstakeable c' sample_user + 12 = 45 \<and>
      (\<forall>v. get_user_total_stake (c_funds c') v = get_user_total_stake sample_funds v)) \<or>
    unstake_endpoint (sample_env sample_user) 12 sample_contract =
      Inl (ScPanic ''cannot have waiting + active stake less than minimum stake'')"
proof -
  have "get_unstakeable sample_contract sample_user = 45"
    by (simp add: get_unstakeable_def sample_totals)
  then show ?thesis
    using unstake_endpoint_correct [OF sample_inv sample_env_ok, of sample_user 12] sample_room [of 16] sample_few
      sample_items by (simp add: MAX_AFFECTED_USERS_def)
qed

text \<open>
  (C6) \<open>unBond\<close> pays out exactly what the view \<open>getUnBondable\<close> announces, and never more. In every state that
  satisfies the invariant the call of a registered user returns, keeps the invariant, sends the
  amount it reports to the caller and takes exactly that amount off the caller's and the total
  stake and off nobody else's; with enough gas the amount is the one the view gives.
\<close>

theorem unbond_pays_unbondable:
  assumes "contract_inv tot c" and "not_paused env" and "us_user_id (c_users c) (caller env) = u" and "u \<noteq> 0"
    and "id_room 2 (c_funds c)"
  shows "\<exists>x c'. unbond_user env c = Inr (x, c', if 0 < x then [DirectEgld (caller env) x] else []) \<and>
    contract_inv tot c' \<and> get_user_total_stake (c_funds c') u + x = get_user_total_stake (c_funds c) u \<and>
    get_total_stake (c_funds c') + x = get_total_stake (c_funds c) \<and>
    (\<forall>v. v \<noteq> u \<longrightarrow> v \<noteq> 0 \<longrightarrow> get_user_total_stake (c_funds c') v = get_user_total_stake (c_funds c) v) \<and>
    ((\<forall>p k. UNBOND_GASLIMIT \<le> gas_left env p k) \<longrightarrow> get_unbondable env c (caller env) = Inr x)"
proof -
  obtain x fs where r: "unbond_user env c = Inr (x, c\<lparr>c_funds := fs\<rparr>, if 0 < x then [DirectEgld (caller env) x] else [])"
    "contract_inv tot (c\<lparr>c_funds := fs\<rparr>)"
    "\<forall>v. get_user_total_stake fs v + (if v = u \<or> v = 0 then x else 0) = get_user_total_stake (c_funds c) v"
    "(\<forall>p k. UNBOND_GASLIMIT \<le> gas_left env p k) \<longrightarrow> get_unbondable env c (caller env) = Inr x"
    using unbond_run [OF assms] by blast
  have "get_user_total_stake fs u + x = get_user_total_stake (c_funds c) u"
    "get_user_total_stake fs 0 + x = get_user_total_stake (c_funds c) 0"
    using r(3) [rule_format, of u] r(3) [rule_format, of 0] by simp_all
  moreover have "get_user_total_stake fs v = get_user_total_stake (c_funds c) v" if "v \<noteq> u" "v \<noteq> 0" for v
    using r(3) [rule_format, of v] that by simp
  ultimately show ?thesis
    using r(1,2,4) by (intro exI [of _ x] exI [of _ "c\<lparr>c_funds := fs\<rparr>"]) (simp add: get_total_stake_def USER_STAKE_TOTALS_ID_def)
qed

theorem unbond_pays_unbondable_witness:
  "\<exists>x c'. unbond_user (sample_env sample_user) sample_contract =
      Inr (x, c', if 0 < x then [DirectEgld sample_user x] else []) \<and>
    contract_inv 0 c' \<and> get_user_total_stake (c_funds c') 2 + x = get_user_total_stake sample_funds 2 \<and>
    get_unbondable (sample_env sample_user) sample_contract sample_user = Inr x"
proof -
  have "UNBOND_GASLIMIT \<le> gas_left (sample_env sample_user) p k" for p k
    by (simp add: UNBOND_GASLIMIT_def)
  then show ?thesis
    using unbond_pays_unbondable [OF sample_inv, of "sample_env sample_user" 2] sample_room [of 2] by auto
qed

section \<open>Rewards\<close>

text \<open>
  (C7) Claiming pays what \<open>getClaimableRewards\<close> shows, once. The call of a registered user returns,
  keeps the invariant, sends exactly the claimable amount, adds it to the rewards sent, leaves the
  caller nothing to claim again at the same rewards total, and changes nobody else's record.
\<close>

theorem claim_rewards_correct:
  assumes "contract_inv tot c" and "env_ok tot env c" and "not_paused env"
    and "check_feature_on env ''claimRewards'' True = Inr ()" and "\<not> is_global_op_in_progress c"
    and "us_user_id (c_users c) (caller env) = u" and "u \<noteq> 0"
  shows "\<exists>x c'. get_claimable_rewards (cumulated_rewards env) (c_settings c) (c_users c) (c_funds c) (c_rewards c)
      (caller env) = Inr x \<and>
    claim_rewards env c = Inr (c',
      if 0 < x then [Event (ClaimRewardsEvent (caller env) x), DirectEgld (caller env) x] else []) \<and>
    contract_inv (cumulated_rewards env) c' \<and> rs_sent (c_rewards c') = rs_sent (c_rewards c) + x \<and>
    get_claimable_rewards (cumulated_rewards env) (c_settings c') (c_users c') (c_funds c') (c_rewards c')
      (caller env) = Inr 0 \<and>
    (\<forall>v. v \<noteq> u \<longrightarrow> load_user_reward_data (c_rewards c') v = load_user_reward_data (c_rewards c) v)"
proof -
  obtain x rw where r: "get_claimable_rewards (cumulated_rewards env) (c_settings c) (c_users c) (c_funds c) (c_rewards c)
      (caller env) = Inr x"
    "claim_rewards env c = Inr (c\<lparr>c_rewards := rw\<rparr>,
      if 0 < x then [Event (ClaimRewardsEvent (caller env) x), DirectEgld (caller env) x] else [])"
    "contract_inv (cumulated_rewards env) (c\<lparr>c_rewards := rw\<rparr>)" "rs_sent rw = rs_sent (c_rewards c) + x"
    "rs_unclaimed rw u = 0" "rs_checkpoint rw u = cumulated_rewards env"
    "\<forall>v. v \<noteq> u \<longrightarrow> rs_unclaimed rw v = rs_unclaimed (c_rewards c) v \<and> rs_checkpoint rw v = rs_checkpoint (c_rewards c) v"
    using claim_rewards_run [OF assms] by blast
  have "load_updated_user_rewards (cumulated_rewards env) (c_settings c) (c_funds c) rw u =
      Inr \<lparr>reward_checkpoint = cumulated_rewards env, unclaimed_rewards = 0\<rparr>"
    using r(5,6) by (simp add: load_updated_user_rewards_def load_user_reward_data_def)
  then show ?thesis
    using r assms(6,7)
    by (intro exI [of _ x] exI [of _ "c\<lparr>c_rewards := rw\<rparr>"]) (simp add: get_claimable_rewards_def load_user_reward_data_def)
qed

theorem claim_rewards_correct_witness:
  "\<exists>x c'. get_claimable_rewards 1000 sample_settings sample_users sample_funds reward_storage_empty sample_user = Inr x \<and>
    claim_rewards (sample_env sample_user) sample_contract = Inr (c',
      if 0 < x then [Event (ClaimRewardsEvent sample_user x), DirectEgld sample_user x] else []) \<and>
    contract_inv 1000 c'"
  using claim_rewards_correct [OF sample_inv sample_env_ok, of sample_user 2] by auto

text \<open>
  (C8) The contract never owes more rewards than it received: in every state that satisfies the invariant,
  the total of all users' claimable rewards, as computed by \<open>getTotalUnclaimedRewards\<close>, and the rewards
  already sent add up to at most the cumulated rewards.
\<close>

theorem rewards_solvent:
  assumes "contract_inv tot c" and "env_ok tot env c"
  shows "\<exists>x. get_total_unclaimed_rewards (cumulated_rewards env) (c_settings c) (c_users c) (c_funds c) (c_rewards c) = Inr x \<and>
    x + rs_sent (c_rewards c) \<le> cumulated_rewards env"
  by (rule total_unclaimed_run [OF assms])

theorem rewards_solvent_witness:
  "\<exists>x. get_total_unclaimed_rewards 1000 sample_settings sample_users sample_funds reward_storage_empty = Inr x \<and>
    x + rs_sent reward_storage_empty \<le> 1000"
  using rewards_solvent [OF sample_inv sample_env_ok, of sample_user] by simp

end
