(* ===== verification/Fund_Properties.thy ===== *)
theory Fund_Properties
  imports Samples
begin

text \<open>
  The properties of the fund storage: the operations refine the abstract entry list, the
  queries agree, conversions conserve every user's funds and consume the waiting list in
  order, and what goes wrong when a cleanup checkpoint has become stale.
\<close>

section \<open>Order of consumption\<close>

fun consume :: "nat \<Rightarrow> fund_entry list \<Rightarrow> fund_entry list" where
  "consume m [] = []"
| "consume m (e # es) =
     (if m = 0 then e # es else if ebal e \<le> m then consume (m - ebal e) es
      else e\<lparr>ebal := ebal e - m\<rparr> # es)"

context fund_chain
begin

lemma chain_take_exact:
  assumes wf: "wf_funds a" and c: "chain_of dir P (a_entries a) = pre @ e # rem"
  shows "chain_of dir P (a_entries (a_take e x a)) =
    (if ebal e \<le> x then pre @ rem else pre @ e\<lparr>ebal := ebal e - x\<rparr> # rem)"
proof -
  have d: "distinct (map eid (pre @ e # rem))"
    using distinct_chain_of [OF wf, of dir P] by (simp only: c)
  show ?thesis
    unfolding a_take_def a_remove_def a_set_balance_def
    using remove_entry_split [OF d] set_entry_balance_split [OF d]
    by (auto simp: filter_remove_entry filter_set_entry_balance c)
qed

lemma loop_chain:
  assumes "loop_ready dir P n rem a" and "chain_of dir P (a_entries a) = pre @ rem"
    and "leaves t tr" and "\<And>k. \<not> intr k" and all: "\<And>e. P e \<Longrightarrow> tr e \<noteq> None"
  shows "chain_of dir P (a_entries (loop_funds tr intr k (Some m) rem a)) = pre @ consume m rem"
  using assms(1,2)
proof (induction rem arbitrary: n k m a)
  case (Cons e rem)
  note h = ready_head [OF Cons.prems(1)]
  obtain n' where n: "n = Suc n'"
    using h(9) by blast
  obtain d where d: "tr e = Some d" "fund_type_of d \<noteq> t"
    using all [OF h(2)] assms(3) h(3) by (auto simp: leaves_def)
  have wf: "wf_funds a"
    using Cons.prems(1) by (simp add: loop_ready_def)
  show ?case
  proof (cases "m = 0")
    case False
    define x where "x = min m (ebal e)"
    have x: "0 < x" "taken (Some m) e = x" "left_over (Some m) e = Some (m - x)"
      using False h(5) by (auto simp: x_def taken_def left_over_def)
    let ?a = "a_convert d x e a"
    have ready: "loop_ready dir P n' rem ?a"
      using ready_convert [OF Cons.prems(1) [unfolded n] d(2) x(1)] .
    have chain: "chain_of dir P (a_entries ?a) = (if ebal e \<le> x then pre @ rem else pre @ e\<lparr>ebal := ebal e - x\<rparr> # rem)"
      unfolding a_convert_def chain_increase [OF wf_a_take [OF wf x(1)] d(2)] by (rule chain_take_exact [OF wf Cons.prems(2)])
    show ?thesis
    proof (cases "ebal e \<le> m")
      case True
      then have "x = ebal e"
        by (simp add: x_def)
      then show ?thesis
        using Cons.IH [OF ready, of "Suc k" "m - x"] chain False True assms(4) d(1) x by simp
    next
      case less: False
      then have "x = m"
        by (simp add: x_def)
      then show ?thesis
        using chain False less assms(4) d(1) x by (simp add: loop_result_stop)
    qed
  qed (use Cons.prems(2) in \<open>simp add: loop_result_stop\<close>)
qed simp

text \<open>A conversion without a limit leaves of the list the items it does not convert.\<close>

lemma loop_chain_filter:
  assumes "loop_ready dir P n rem a" and "chain_of dir P (a_entries a) = pre @ rem"
    and "leaves t tr" and "\<And>k. \<not> intr k"
  shows "chain_of dir P (a_entries (loop_funds tr intr k None rem a)) = pre @ filter (\<lambda>e. tr e = None) rem"
  using assms(1,2)
proof (induction rem arbitrary: n k pre a)
  case (Cons e rem)
  note h = ready_head [OF Cons.prems(1)]
  obtain n' where n: "n = Suc n'"
    using h(9) by blast
  have wf: "wf_funds a"
    using Cons.prems(1) by (simp add: loop_ready_def)
  show ?case
  proof (cases "tr e")
    case None
    then show ?thesis
      using Cons.IH [OF ready_skip [OF Cons.prems(1) [unfolded n]], of "pre @ [e]" "Suc k"] Cons.prems(2) assms(4) by simp
  next
    case (Some d)
    have d: "fund_type_of d \<noteq> t"
      using Some assms(3) h(3) by (auto simp: leaves_def)
    have "chain_of dir P (a_entries (a_convert d (ebal e) e a)) = pre @ rem"
      unfolding a_convert_def chain_increase [OF wf_a_take [OF wf h(5)] d]
      using chain_take_exact [OF wf Cons.prems(2), of "ebal e"] by simp
    then show ?thesis
      using Cons.IH [OF ready_convert [OF Cons.prems(1) [unfolded n] d h(5)], of pre "Suc k"] Some assms(4)
      by (simp add: taken_def left_over_def)
  qed
qed simp

end

lemma consume_sum: "sum_list (map ebal (consume m es)) = sum_list (map ebal es) - m"
  by (induction m es rule: consume.induct) auto

text \<open>The items of a type in list order, with user, description and balance.\<close>

definition list_items :: "fund_storage \<Rightarrow> fund_type \<Rightarrow> (nat \<times> fund_description \<times> nat) list res" where
  "list_items s t = foreach_fund_by_type s t Forwards (\<lambda>it acc. acc @ [(user_id it, fund_desc it, balance it)]) []"

fun consume_items :: "nat \<Rightarrow> (nat \<times> fund_description \<times> nat) list \<Rightarrow> (nat \<times> fund_description \<times> nat) list" where
  "consume_items m [] = []"
| "consume_items m ((u, d, b) # xs) =
     (if m = 0 then (u, d, b) # xs else if b \<le> m then consume_items (m - b) xs else (u, d, b - m) # xs)"

lemma fold_append: "fold (\<lambda>e acc. acc @ [f e]) es acc = acc @ map f es"
  by (induction es arbitrary: acc) auto

lemma list_items_concrete:
  "wf_funds a \<Longrightarrow> list_items (concrete a) t =
     Inr (map (\<lambda>e. (euser e, edesc e, ebal e)) (filter (of_type t) (a_entries a)))"
  by (simp add: list_items_def foreach_type_concrete fold_append)

lemma map_consume: "map (\<lambda>e. (euser e, edesc e, ebal e)) (consume m es) =
    consume_items m (map (\<lambda>e. (euser e, edesc e, ebal e)) es)"
  by (induction m es rule: consume.induct) auto

text \<open>
  (C17) The waiting list is served first come, first served: swapping an amount of waiting funds to
  active takes it from the front of the waiting list, whole items first and at most one item in
  part, and leaves the rest of the list as it was.
\<close>

theorem swap_waiting_to_active_fifo:
  assumes "fund_inv s" and "id_room 2 s" and "few_items s Waiting" and "list_items s Waiting = Inr items"
  shows "\<exists>us rest s'. swap_waiting_to_active m (\<lambda>_. False) s = Inr (us, rest, s') \<and>
    list_items s' Waiting = Inr (consume_items m items) \<and> rest = m - type_total s Waiting"
proof -
  from assms(1) obtain a where wf: "wf_funds a" and s: "s = concrete a"
    by (rule fund_invE)
  let ?tr = "\<lambda>e :: fund_entry. Some FdActive" and ?rem = "filter (of_type Waiting) (a_entries a)"
  have c: "chain_of Forwards (of_type Waiting) (a_entries a) = ?rem"
    by (simp add: chain_of_def)
  note ready = ready_start [OF wf assms(2) [unfolded s], of Forwards "of_type Waiting", unfolded c]
  have leaves: "leaves Waiting ?tr"
    by (simp add: leaves_def)
  obtain us mx x where r: "loop_result ?tr (\<lambda>_. False) 0 (Some m) ?rem = (us, mx, x)"
    by (metis prod_cases3)
  have len: "length ?rem \<le> MAX_AFFECTED_USERS"
    using assms(3) length_chain_type [OF wf, of Forwards Waiting] by (simp add: few_items_def s c)
  let ?a = "loop_funds ?tr (\<lambda>_. False) 0 (Some m) ?rem a"
  have "split_convert_max_by_type (Some m) Waiting Forwards (\<lambda>_. Some FdActive) (\<lambda>_. False) False s =
    Inr (affected_users_sort_dedup us, mx, concrete ?a)"
    using split_convert_by_type_loop_refines [OF ready leaves, of "\<lambda>_. Some FdActive" "[]" "\<lambda>_. False" 0 "Some m"]
      len by (simp add: split_convert_max_by_type_def s first_id_of_type_concrete c r)
  moreover have "filter (of_type Waiting) (a_entries ?a) = consume m ?rem"
    using type_chain.loop_chain [OF ready _ leaves, of "[]" "\<lambda>_. False" 0 m] c by (simp add: chain_of_def)
  moreover have "mx = Some (m - x)"
    using loop_result_bound [OF r] by simp
  moreover have "x = min m (type_total s Waiting)"
    using loop_result_amount [of "\<lambda>_. False" ?rem ?tr 0 "Some m"] r
    by (simp add: s sum_of_type sum_where_def)
  moreover have "wf_funds ?a"
    by (rule type_chain.loop_funds_wf [OF ready leaves])
  ultimately show ?thesis
    using assms(4) list_items_concrete [OF wf, of Waiting]
    by (simp add: swap_waiting_to_active_def rest_of_limit_def list_items_concrete map_consume s min_def)
qed

lemma sample_list_items: "list_items sample_funds Waiting = Inr [(2, FdWaiting 7, 5)]"
  unfolding sample_funds_def list_items_concrete [OF sample_wf]
  by (simp add: sample_entries_def of_type_def etype_def)

theorem swap_waiting_to_active_fifo_witness:
  "\<exists>us rest s'. swap_waiting_to_active 3 (\<lambda>_. False) sample_funds = Inr (us, rest, s') \<and>
    list_items s' Waiting = Inr [(2, FdWaiting 7, 2)] \<and> rest = 0"
  using swap_waiting_to_active_fifo [OF sample_fund_inv sample_room sample_few(1) sample_list_items, of 3]
  by (simp add: sample_totals)

section \<open>Refinement\<close>

text \<open>
  (C15) The linked storage refines the entry list. On the layout of a well-formed list of funds,
  creating a fund appends it, and deleting one removes it, whatever its position in the two doubly
  linked lists. Increasing a user's funds adds to the last fund of the user and type if funds of the
  type may be merged and this one has the same description, and appends a new fund otherwise;
  decreasing a fund takes off the amount, or removes the fund when nothing is left, and reports
  what was taken and what is left of the amount. The result, links, list heads and totals included,
  is the layout of the new list.
\<close>

theorem fund_storage_refines:
  assumes "wf_funds a" and "Suc (a_max a) < usize_max" and "0 < b" and "e \<in> set (a_entries a)"
  shows "create_fund u d b (concrete a) = concrete (a_append u d b a) \<and>
    (\<exists>it s'. delete_fund (fund_by_id (concrete a) (eid e)) (concrete a) = Inr (ebal e, it, s') \<and>
       set_fund_by_id (eid e) it s' = concrete (a_remove (eid e) a)) \<and>
    increase_fund_balance u d b (concrete a) = concrete (a_increase u d b a) \<and>
    (\<exists>it s'. decrease_fund_balance b (fund_by_id (concrete a) (eid e)) (concrete a) =
         Inr (min b (ebal e), b - min b (ebal e), it, s') \<and>
       set_fund_by_id (eid e) it s' =
         concrete (if ebal e \<le> b then a_remove (eid e) a else a_set_balance (eid e) (ebal e - b) a))"
proof -
  have "set_fund_by_id (eid e) (emptied (conc_item (a_entries a) e))
      (with_item (eid e) v (concrete (a_remove (eid e) a))) = concrete (a_remove (eid e) a)" for v
    by (simp add: set_fund_by_id_with_item with_item_same a_remove_def entry_at_remove)
  moreover have "\<exists>it s'. decrease_fund_balance b (conc_item (a_entries a) e) (concrete a) =
         Inr (min b (ebal e), b - min b (ebal e), it, s') \<and>
       set_fund_by_id (eid e) it s' = concrete (a_take e (min b (ebal e)) a)"
  proof -
    have "set_fund_by_id i it (with_item i v s) = set_fund_by_id i it s" for i it v s
      by (simp add: set_fund_by_id_with_item)
    then show ?thesis
      using decrease_fund_balance_take [OF assms(1,4,3)] by metis
  qed
  moreover have "a_take e (min b (ebal e)) a = (if ebal e \<le> b then a_remove (eid e) a else a_set_balance (eid e) (ebal e - b) a)"
    by (auto simp: a_take_def)
  ultimately show ?thesis
    using create_fund_concrete [OF assms(1,3,2)] delete_fund_concrete [OF assms(1,4)] increase_fund_balance_concrete [OF assms(1,2)]
    by (simp add: fund_by_id_concrete [OF assms(1,4)])
qed

theorem fund_storage_refines_witness:
  "create_fund 1 FdWithdrawOnly 9 (concrete sample_entries) = concrete (a_append 1 FdWithdrawOnly 9 sample_entries) \<and>
    (\<exists>it s'. delete_fund (fund_by_id (concrete sample_entries) 2) (concrete sample_entries) = Inr (40, it, s') \<and>
       set_fund_by_id 2 it s' = concrete (a_remove 2 sample_entries)) \<and>
    increase_fund_balance 2 (FdDeferredPayment 3) 9 (concrete sample_entries) = concrete (a_set_balance 5 17 sample_entries) \<and>
    (\<exists>it s'. decrease_fund_balance 9 (fund_by_id (concrete sample_entries) 2) (concrete sample_entries) = Inr (9, 0, it, s') \<and>
       set_fund_by_id 2 it s' = concrete (a_set_balance 2 31 sample_entries))"
proof -
  let ?e = "\<lparr>eid = 2, edesc = FdActive, euser = 2, ebal = 40\<rparr>"
  have "a_increase 2 (FdDeferredPayment 3) 9 sample_entries = a_set_balance 5 17 sample_entries"
    by (simp add: a_increase_def coalesces_def allow_coalesce_def sample_entries_def of_user_def etype_def Let_def)
  then show ?thesis
    using fund_storage_refines [OF sample_wf, of 9 ?e 1 FdWithdrawOnly] fund_storage_refines [OF sample_wf, of 9 ?e 2 "FdDeferredPayment 3"]
    by (simp add: sample_entries_def usize_max_def)
qed

section \<open>Conservation\<close>

text \<open>
  (C22) Conversions conserve funds. For any limit, direction, interrupt and any transformation of the
  funds of one type into another, the conversion by type returns; it moves some amount within the
  limit between the totals of the two types and leaves the totals of all other types alone; every
  user keeps the sum of both; users not in the returned list keep everything; the invariant holds
  again. The dry run returns the same users and the same rest of the limit and changes nothing.
\<close>

theorem split_convert_by_type_conserves:
  assumes "fund_inv s" and "id_room 2 s" and "few_items s t" and "swaps t t' g"
  shows "\<exists>us rest s' x.
    split_convert_max_by_type (Some m) t dir (\<lambda>it. g (fund_desc it)) intr False s = Inr (us, Some rest, s') \<and>
    split_convert_max_by_type (Some m) t dir (\<lambda>it. g (fund_desc it)) intr True s = Inr (us, Some rest, s) \<and>
    rest + x = m \<and> fund_inv s' \<and> type_total s' t + x = type_total s t \<and> type_total s' t' = type_total s t' + x \<and>
    (\<forall>r. r \<noteq> t \<longrightarrow> r \<noteq> t' \<longrightarrow> type_total s' r = type_total s r) \<and>
    (\<forall>u. user_total s' u t + user_total s' u t' = user_total s u t + user_total s u t') \<and>
    (\<forall>u r. u \<notin> set us \<longrightarrow> user_total s' u r = user_total s u r)"
proof -
  obtain us mx s' x where "split_convert_max_by_type (Some m) t dir (\<lambda>it. g (fund_desc it)) intr False s = Inr (us, mx, s')"
    "split_convert_max_by_type (Some m) t dir (\<lambda>it. g (fund_desc it)) intr True s = Inr (us, mx, s)"
    and c: "converts (set us) (type_items s t) t t' x s s'" and "x \<le> m" "mx = Some (m - x)"
    using split_convert_max_by_type_run [OF assms, of "Some m" dir intr] unfolding option.case by blast
  then show ?thesis
    using convertsD [OF c] by (intro exI [of _ us] exI [of _ "m - x"] exI [of _ s'] exI [of _ x]) simp
qed

theorem split_convert_by_type_conserves_witness:
  "\<exists>us rest s' x.
    split_convert_max_by_type (Some 3) Waiting Forwards (\<lambda>it. Some FdActive) (\<lambda>_. False) False sample_funds =
      Inr (us, Some rest, s') \<and> rest + x = 3 \<and> fund_inv s' \<and>
    type_total s' Waiting + x = 5 \<and> type_total s' Active = 100 + x"
  using split_convert_by_type_conserves [OF sample_fund_inv sample_room sample_few(1) swaps_into [of Waiting FdActive],
      of 3 Forwards "\<lambda>_. False"] sample_totals by auto

text \<open>
  (C23) The same for one user's funds, with the amount made exact: without interrupt and filter the
  conversion moves the smaller of the limit and what the user has of the type, only this user is
  touched, and the reported total is the amount moved.
\<close>

theorem split_convert_by_user_conserves:
  assumes "fund_inv s" and "id_room 2 s" and "swaps t t' g" and "\<forall>d. fund_type_of d = t \<longrightarrow> g d \<noteq> None"
  shows "\<exists>s'. split_convert_max_by_user (Some m) u t dir g (\<lambda>_. False) s =
      Inr (min m (user_total s u t), Some (m - min m (user_total s u t)), s') \<and> fund_inv s' \<and>
    user_total s' u t = user_total s u t - m \<and>
    user_total s' u t' = user_total s u t' + min m (user_total s u t) \<and>
    (\<forall>v r. v \<noteq> u \<longrightarrow> user_total s' v r = user_total s v r)"
proof -
  obtain s' where "split_convert_max_by_user (Some m) u t dir g (\<lambda>_. False) s =
      Inr (min m (user_total s u t), Some (m - min m (user_total s u t)), s')"
    and c: "converts {u} (user_items s u t) t t' (min m (user_total s u t)) s s'"
    using split_convert_max_by_user_run [OF assms(1-3), of "Some m" u dir "\<lambda>_. False"] assms(4) by auto
  then show ?thesis
    using convertsD(1) [OF c] convertsD(6) [OF c, of u] convertsD(8) [OF c] converts_user_amount [OF c assms(1)]
    by (intro exI [of _ s'] conjI) (auto simp: min_def split: if_splits)
qed

theorem split_convert_by_user_conserves_witness:
  "\<exists>s'. split_convert_max_by_user (Some 15) 2 Active Backwards (\<lambda>_. Some (FdUnStaked 20)) (\<lambda>_. False) sample_funds =
      Inr (15, Some 0, s') \<and> fund_inv s' \<and> user_total s' 2 Active = 25"
  using split_convert_by_user_conserves [OF sample_fund_inv sample_room swaps_into [of Active "FdUnStaked 20"], of 15 2 Backwards]
  by (auto simp: sample_totals)

section \<open>Queries\<close>

text \<open>
  (C30) All ways to add up funds agree. On a storage that satisfies the invariant, walking a type list or a
  user list with any filter gives the same sum as the brute-force pass over all ids ever used, and with no filter
  the total kept in the list head.
\<close>

theorem fund_queries_agree:
  assumes "fund_inv s"
  shows "query_sum_funds_by_type s t flt =
      Inr (query_sum_all_funds_brute_force s (\<lambda>u d. fund_type_of d = t \<and> flt u d)) \<and>
    query_sum_funds_by_user_type s u t flt' =
      Inr (query_sum_all_funds_brute_force s (\<lambda>v d. v = u \<and> fund_type_of d = t \<and> flt' d)) \<and>
    query_sum_funds_by_type s t (\<lambda>_ _. True) = Inr (total_balance (fund_list_by_type s t)) \<and>
    query_sum_funds_by_user_type s u t (\<lambda>_. True) = Inr (total_balance (fund_list_by_user s u t))"
proof -
  from assms obtain a where wf: "wf_funds a" and s: "s = concrete a"
    by (rule fund_invE)
  show ?thesis
    by (simp add: s query_by_type_concrete [OF wf] query_by_user_concrete [OF wf] brute_force_concrete [OF wf]
        sum_of_type sum_of_user)
qed

theorem fund_queries_agree_witness:
  "query_sum_funds_by_type sample_funds Active (\<lambda>u _. u = 2) =
      Inr (query_sum_all_funds_brute_force sample_funds (\<lambda>u d. fund_type_of d = Active \<and> u = 2)) \<and>
    query_sum_funds_by_type sample_funds Active (\<lambda>_ _. True) = Inr 100"
  using fund_queries_agree [OF sample_fund_inv, of Active "\<lambda>u _. u = 2"] sample_totals(3) by (simp add: type_total_def)

text \<open>
  The redundant totals under user id 0 are at all times the sums of all users' values, as the comment on
  \<open>USER_STAKE_TOTALS_ID\<close> demands, for every type and for the total stake.
\<close>

theorem stake_totals_are_sums:
  assumes "base_inv c"
  shows "get_user_stake_of_type (c_funds c) USER_STAKE_TOTALS_ID t =
      (\<Sum>u=1..us_num_users (c_users c). get_user_stake_of_type (c_funds c) u t) \<and>
    get_total_stake (c_funds c) = (\<Sum>u=1..us_num_users (c_users c). get_user_total_stake (c_funds c) u)"
proof -
  have one: "type_total (c_funds c) r = (\<Sum>u=1..us_num_users (c_users c). get_user_stake_of_type (c_funds c) u r)" for r
  proof -
    have "type_total (c_funds c) r = (\<Sum>u=1..us_num_users (c_users c). user_total (c_funds c) u r)"
      using assms by (intro type_total_sum_users) (auto simp: base_inv_def owned_funds_def)
    also have "\<dots> = (\<Sum>u=1..us_num_users (c_users c). get_user_stake_of_type (c_funds c) u r)"
      by (rule sum.cong) auto
    finally show ?thesis .
  qed
  have "get_total_stake (c_funds c) = type_total (c_funds c) WithdrawOnly + type_total (c_funds c) Waiting +
      type_total (c_funds c) Active + type_total (c_funds c) UnStaked + type_total (c_funds c) DeferredPayment"
    by (simp add: get_total_stake_def USER_STAKE_TOTALS_ID_def get_user_total_stake_def)
  then show ?thesis
    using one by (simp add: USER_STAKE_TOTALS_ID_def get_user_total_stake_def sum.distrib)
qed

theorem stake_totals_are_sums_witness:
  "get_user_stake_of_type sample_funds USER_STAKE_TOTALS_ID Active = (\<Sum>u=1..2. get_user_stake_of_type sample_funds u Active) \<and>
    get_total_stake sample_funds = (\<Sum>u=1..2. get_user_total_stake sample_funds u)"
proof -
  have "base_inv sample_contract"
    using sample_inv by (simp add: contract_inv_def)
  then show ?thesis
    using stake_totals_are_sums [of sample_contract Active] by simp
qed

text \<open>
  The list of a user's deferred payments shows every payment: its amounts add up to the user's deferred
  total.
\<close>

theorem deferred_payment_list_complete:
  assumes "fund_inv s" and "us_user_id us a = u" and "u \<noteq> 0"
  shows "\<exists>l. get_user_deferred_payment_list us s a = Inr l \<and>
    sum_list (map fst l) = get_user_stake_of_type s u DeferredPayment"
proof -
  from assms(1) obtain b where wf: "wf_funds b" and s: "s = concrete b"
    by (rule fund_invE)
  have "sum_list (map fst (map (\<lambda>e. (ebal e, created_of (edesc e))) es)) = sum_list (map ebal es)" for es
    by (simp add: comp_def)
  then show ?thesis
    using deferred_payment_list_concrete [OF wf, of us a] assms(2,3)
    by (simp add: s sum_of_user sum_where_def comp_def)
qed

theorem deferred_payment_list_complete_witness:
  "\<exists>l. get_user_deferred_payment_list sample_users sample_funds sample_user = Inr l \<and>
    sum_list (map fst l) = get_user_stake_of_type sample_funds 2 DeferredPayment"
  using deferred_payment_list_complete [OF sample_fund_inv, of sample_users sample_user 2] by simp

section \<open>Deferred payments\<close>

lemma swap_eligible_rest:
  assumes "wf_funds a" and "id_room 2 (concrete a)"
  obtains x b where "swap_eligible_deferred_to_withdraw nonce u n (\<lambda>_. False) (concrete a) = Inr (x, concrete b)" "wf_funds b"
    "filter (of_user u DeferredPayment) (a_entries b) =
       filter (\<lambda>e. deferred_to_withdraw nonce n (edesc e) = None) (filter (of_user u DeferredPayment) (a_entries a))"
proof -
  let ?tr = "\<lambda>e. deferred_to_withdraw nonce n (edesc e)" and ?rem = "filter (of_user u DeferredPayment) (a_entries a)"
  have c: "chain_of Forwards (of_user u DeferredPayment) (a_entries a) = ?rem"
    by (simp add: chain_of_def)
  note ready = ready_start [OF assms, of Forwards "of_user u DeferredPayment", unfolded c]
  note leaves = maps_type_leaves [OF swaps_maps_type [OF swaps_deferred]]
  let ?b = "loop_funds ?tr (\<lambda>_. False) 0 None ?rem a"
  obtain us mx x where r: "loop_result ?tr (\<lambda>_. False) 0 None ?rem = (us, mx, x)"
    by (metis prod_cases3)
  show thesis
  proof (rule that)
    show "swap_eligible_deferred_to_withdraw nonce u n (\<lambda>_. False) (concrete a) = Inr (x, concrete ?b)"
      using split_convert_by_user_loop_refines [OF ready leaves, where intr = "\<lambda>_. False" and k = 0 and mx = None and tot = 0]
      by (simp add: swap_eligible_deferred_to_withdraw_def split_convert_max_by_user_def first_id_of_user_type_concrete c r)
    show "wf_funds ?b"
      by (rule user_chain.loop_funds_wf [OF ready leaves])
    show "filter (of_user u DeferredPayment) (a_entries ?b) = filter (\<lambda>e. ?tr e = None) ?rem"
      using user_chain.loop_chain_filter [OF ready _ leaves, where pre = "[]" and intr = "\<lambda>_. False" and k = 0] c by (simp add: chain_of_def)
  qed
qed

text \<open>
  (C31) When deferred payments become claimable. Let \<open>l\<close> be the list of a user's deferred payments as
  \<^verbatim>\<open>getUserDeferredPaymentList\<close> reports it, with amount and creation block. What the view reports as
  eligible is the sum of the payments whose creation block plus the unbonding period, an addition
  of two 64-bit numbers that wraps, is at most the current block. Uninterrupted,
  \<open>swap_eligible_deferred_to_withdraw\<close> moves exactly these payments to what the user can withdraw,
  leaves the others of the list as they are and in order, and touches no other user. As long as
  no addition overflows, these are the payments made at least the unbonding period ago; with the
  largest unbonding period the addition wraps, and all payments of the past are released at once.
\<close>

theorem deferred_eligibility:
  assumes "fund_inv s" and "id_room 2 s" and "us_user_id us addr = u" and "u \<noteq> 0"
  shows "\<exists>l x s'. get_user_deferred_payment_list us s addr = Inr l \<and>
    x = sum_list (map fst (filter (\<lambda>(b, created). (unat created + unat n) mod 2 ^ 64 \<le> unat nonce) l)) \<and>
    eligible_deferred_payment nonce s u n = Inr x \<and>
    swap_eligible_deferred_to_withdraw nonce u n (\<lambda>_. False) s = Inr (x, s') \<and> fund_inv s' \<and>
    get_user_deferred_payment_list us s' addr =
      Inr (filter (\<lambda>(b, created). unat nonce < (unat created + unat n) mod 2 ^ 64) l) \<and>
    user_total s' u WithdrawOnly = user_total s u WithdrawOnly + x \<and>
    (\<forall>v r. v \<noteq> u \<longrightarrow> user_total s' v r = user_total s v r) \<and>
    ((\<forall>(b, created)\<in>set l. unat created + unat n < 2 ^ 64) \<longrightarrow>
      x = sum_list (map fst (filter (\<lambda>(b, created). unat created + unat n \<le> unat nonce) l))) \<and>
    (n = - 1 \<longrightarrow> (\<forall>(b, created)\<in>set l. 0 < created \<and> created \<le> nonce) \<longrightarrow> x = user_total s u DeferredPayment)"
proof -
  from assms(1) obtain a where wf: "wf_funds a" and s: "s = concrete a"
    by (rule fund_invE)
  let ?es = "filter (of_user u DeferredPayment) (a_entries a)" and ?f = "\<lambda>e. (ebal e, created_of (edesc e))"
  let ?due = "\<lambda>e. deferred_to_withdraw nonce n (edesc e) \<noteq> None"
  obtain x s' where swap: "swap_eligible_deferred_to_withdraw nonce u n (\<lambda>_. False) s = Inr (x, s')"
    "eligible_deferred_payment nonce s u n = Inr x"
    and conv: "converts {u} (user_items s u DeferredPayment) DeferredPayment WithdrawOnly x s s'"
    using swap_eligible_amount [OF assms(1,2)] by blast
  obtain b where b: "s' = concrete b" "wf_funds b"
    "filter (of_user u DeferredPayment) (a_entries b) = filter (\<lambda>e. \<not> ?due e) ?es"
    using swap_eligible_rest [OF wf assms(2) [unfolded s], of nonce u n] swap(1) unfolding s by (metis Pair_inject sum.inject(2))
  have x: "x = sum_list (map ebal (filter ?due ?es))"
    using swap(2) query_by_user_concrete [OF wf, of u DeferredPayment "\<lambda>d. deferred_to_withdraw nonce n d \<noteq> None"]
    by (simp add: eligible_is_convertible s sum_of_def sum_where_def of_user_def etype_def conj_ac)
  have l: "get_user_deferred_payment_list us s addr = Inr (map ?f ?es)"
    "get_user_deferred_payment_list us s' addr = Inr (map ?f (filter (\<lambda>e. \<not> ?due e) ?es))"
    using deferred_payment_list_concrete [OF wf, of us addr] deferred_payment_list_concrete [OF b(2), of us addr] assms(3,4) b(3)
    by (simp_all add: s b(1))
  have due: "?due e \<longleftrightarrow> (unat (created_of (edesc e)) + unat n) mod 2 ^ 64 \<le> unat nonce" if e: "e \<in> set ?es" for e
  proof -
    obtain created where "edesc e = FdDeferredPayment created"
      using e by (cases "edesc e") (auto simp: of_user_def etype_def)
    then show ?thesis
      by (simp add: created_of_def deferred_to_withdraw_def word_le_nat_alt unat_word_ariths)
  qed
  have filt: "filter (\<lambda>(b, created). P created) (map ?f es) = map ?f (filter (\<lambda>e. P (created_of (edesc e))) es)" for P es
    by (simp add: filter_map comp_def)
  have x_due: "x = sum_list (map ebal (filter (\<lambda>e. (unat (created_of (edesc e)) + unat n) mod 2 ^ 64 \<le> unat nonce) ?es))"
    unfolding x by (rule arg_cong [of _ _ "\<lambda>es. sum_list (map ebal es)"]) (rule filter_cong [OF refl due])
  have rest: "filter (\<lambda>e. \<not> ?due e) ?es =
      filter (\<lambda>e. unat nonce < (unat (created_of (edesc e)) + unat n) mod 2 ^ 64) ?es"
    by (rule filter_cong [OF refl]) (use due in \<open>simp add: not_le\<close>)
  have plain: "x = sum_list (map fst (filter (\<lambda>(b, created). unat created + unat n \<le> unat nonce) (map ?f ?es)))"
    if "\<forall>(b, created)\<in>set (map ?f ?es). unat created + unat n < 2 ^ 64"
  proof -
    have "filter (\<lambda>e. (unat (created_of (edesc e)) + unat n) mod 2 ^ 64 \<le> unat nonce) ?es =
        filter (\<lambda>e. unat (created_of (edesc e)) + unat n \<le> unat nonce) ?es"
      using that by (intro filter_cong) auto
    then show ?thesis
      using x_due by (simp only: filt map_map comp_def fst_conv)
  qed
  have wraps: "x = user_total s u DeferredPayment"
    if "n = - 1" "\<forall>(b, created)\<in>set (map ?f ?es). 0 < created \<and> created \<le> nonce"
  proof -
    have "?due e" if e: "e \<in> set ?es" for e
    proof -
      obtain created where d: "edesc e = FdDeferredPayment created"
        using e by (cases "edesc e") (auto simp: of_user_def etype_def)
      have "0 < created" "created \<le> nonce"
        using \<open>\<forall>(b, created)\<in>set (map ?f ?es). 0 < created \<and> created \<le> nonce\<close> e d by (auto simp: created_of_def)
      then have "created - 1 \<le> nonce"
        using word_sub_le [of 1 created] by (simp add: word_le_nat_alt word_less_nat_alt Suc_le_eq)
      then show ?thesis
        using \<open>n = - 1\<close> by (simp add: d deferred_to_withdraw_def)
    qed
    then have "filter ?due ?es = ?es"
      by (intro filter_True) blast
    then show ?thesis
      unfolding x by (simp add: s sum_of_user sum_where_def)
  qed
  have "sum_list (map ebal (filter (\<lambda>e. \<not> ?due e) es)) + sum_list (map ebal (filter ?due es)) = sum_list (map ebal es)" for es
    by (induction es) auto
  then have "user_total s' u DeferredPayment + x = user_total s u DeferredPayment"
    unfolding x s b(1) by (simp only: user_total_concrete sum_of_user sum_where_def b(3))
  then have moved: "user_total s' u WithdrawOnly = user_total s u WithdrawOnly + x"
    using convertsD(6) [OF conv, of u] by linarith
  show ?thesis
    unfolding l(1)
  proof (intro exI [of _ "map ?f ?es"] exI [of _ x] exI [of _ s'] conjI refl)
    show "x = sum_list (map fst (filter (\<lambda>(b, created). (unat created + unat n) mod 2 ^ 64 \<le> unat nonce) (map ?f ?es)))"
      using x_due by (simp only: filt map_map comp_def fst_conv)
    show "get_user_deferred_payment_list us s' addr =
        Inr (filter (\<lambda>(b, created). unat nonce < (unat created + unat n) mod 2 ^ 64) (map ?f ?es))"
      unfolding l(2) rest filt ..
  qed (use swap convertsD [OF conv] moved plain wraps in \<open>blast+\<close>)
qed

theorem deferred_eligibility_witness:
  "eligible_deferred_payment 20 sample_funds 2 10 = Inr 8 \<and> eligible_deferred_payment 12 sample_funds 2 10 = Inr 0"
proof -
  have "get_user_deferred_payment_list sample_users sample_funds sample_user = Inr [(8, 3)]"
    unfolding sample_funds_def using deferred_payment_list_concrete [OF sample_wf, of sample_users sample_user]
    by (simp add: sample_entries_def of_user_def etype_def created_of_def)
  then show ?thesis
    using deferred_eligibility [OF sample_fund_inv sample_room, of sample_users sample_user 2 10 20]
      deferred_eligibility [OF sample_fund_inv sample_room, of sample_users sample_user 2 10 12]
    by auto
qed

text \<open>
  The list of affected users is strictly increasing and holds exactly the users that were visited.
\<close>

theorem affected_users_sorted_distinct:
  "sorted_wrt (<) (affected_users_sort_dedup us) \<and> set (affected_users_sort_dedup us) = set us"
proof -
  have "sorted_wrt (<) (remdups_adj xs)" if "sorted xs" for xs :: "nat list"
    using that by (induction xs rule: remdups_adj.induct) (auto simp: less_le)
  then show ?thesis
    by (simp add: affected_users_sort_dedup_def)
qed

section \<open>Stale checkpoints\<close>

text \<open>An invariant storage has a first item in every list that has a total.\<close>

lemma fund_inv_first:
  assumes "fund_inv s" and "0 < total_balance (fund_list_by_type s t)"
  shows "list_first (fund_list_by_type s t) \<noteq> 0"
proof -
  from assms(1) obtain a where wf: "wf_funds a" and s: "s = concrete a"
    by (rule fund_invE)
  have "ids_where (of_type t) (a_entries a) \<noteq> []"
    using assms(2) by (auto simp: s ids_where_Nil sum_where_Nil)
  then show ?thesis
    using first_of_eq_0 [OF ids_where_nz [OF wf]] by (simp add: s)
qed

lemma delete_default_item:
  "delete_fund fund_item_default s = Inr (0, fund_item_default,
     set_fund_list_by_user 0 WithdrawOnly
       ((fund_list_by_user s 0 WithdrawOnly)\<lparr>list_first := 0, list_last := 0\<rparr>)
       (set_fund_list_by_type WithdrawOnly ((fund_list_by_type s WithdrawOnly)\<lparr>list_first := 0, list_last := 0\<rparr>) s))"
  by (simp add: delete_fund_def delete_fund_from_type_list_def delete_fund_from_user_list_def Let_def
      fund_item_default_def)

lemma swap_dust_stale:
  assumes cur: "cur \<noteq> 0" "fs_by_id s cur = None" and limit: "0 < limit" and go: "\<not> intr 0"
  shows "\<exists>s'. swap_dust cur limit Waiting (\<lambda>_ x _. Inr (Some FdWithdrawOnly, x)) intr () s = Inr (0, (), s') \<and>
    fund_list_by_type s' WithdrawOnly = (fund_list_by_type s WithdrawOnly)\<lparr>list_first := 0, list_last := 0\<rparr>"
proof -
  have item: "fund_by_id s cur = fund_item_default"
    using cur(2) by (simp add: fund_by_id_def)
  let ?s = "set_fund_list_by_user 0 WithdrawOnly
       ((fund_list_by_user s 0 WithdrawOnly)\<lparr>list_first := 0, list_last := 0\<rparr>)
       (set_fund_list_by_type WithdrawOnly ((fund_list_by_type s WithdrawOnly)\<lparr>list_first := 0, list_last := 0\<rparr>) s)"
  have stop: "split_convert_checkpoint_loop n Backwards ft intr k 0 x s' = Inr (0, x, s')" for n ft k x and s' :: fund_storage
    by (cases n) simp_all
  have "swap_dust cur limit Waiting (\<lambda>_ x _. Inr (Some FdWithdrawOnly, x)) intr () s =
    Inr (0, (), set_fund_by_id cur fund_item_default ?s)"
    using cur(1) go limit
    by (simp add: swap_dust_def split_convert_max_by_type_with_checkpoint_def loop_fuel_def item stop
        split_convert_individual_fund_def delete_default_item increase_fund_balance_def next_in_type_list_def Let_def)
  moreover have "fund_list_by_type (set_fund_by_id cur fund_item_default ?s) WithdrawOnly =
    (fund_list_by_type s WithdrawOnly)\<lparr>list_first := 0, list_last := 0\<rparr>"
    by (simp add: set_fund_by_id_with_item fund_list_by_type_def set_list_field funds_list_is_default_def
        funds_list_default_def)
  ultimately show ?thesis
    by blast
qed

text \<open>
  (C28) A stale checkpoint corrupts the storage. If the item at which a dust cleanup of the waiting list stopped
  is deleted before the cleanup continues, the call does not recognise it: it reads the empty item, takes it for
  dust of type \<open>WithdrawOnly\<close> and deletes it, which cuts the list of all \<open>WithdrawOnly\<close> funds off from
  its head while their total stays. The invariant of the fund storage is broken.
\<close>

theorem stale_dust_checkpoint_corrupts:
  assumes "fund_inv (c_funds c)" and "caller env = sc_owner env" and "\<not> is_global_op_in_progress c"
    and "c_dust_checkpoint c \<noteq> 0" and "fs_by_id (c_funds c) (c_dust_checkpoint c) = None"
    and "0 < type_total (c_funds c) WithdrawOnly" and "0 < dust_limit" and "DUST_GASLIMIT \<le> gas_left env 0 0"
  shows "\<exists>c'. dust_cleanup_waiting_list env dust_limit c = Inr c' \<and> c_dust_checkpoint c' = 0 \<and>
    list_first (fund_list_by_type (c_funds c') WithdrawOnly) = 0 \<and>
    type_total (c_funds c') WithdrawOnly = type_total (c_funds c) WithdrawOnly \<and> \<not> fund_inv (c_funds c')"
proof -
  obtain fs where run: "swap_dust (c_dust_checkpoint c) dust_limit Waiting (\<lambda>_ x _. Inr (Some FdWithdrawOnly, x))
      (\<lambda>k. gas_left env 0 k < DUST_GASLIMIT) () (c_funds c) = Inr (0, (), fs)"
    and l: "fund_list_by_type fs WithdrawOnly = (fund_list_by_type (c_funds c) WithdrawOnly)\<lparr>list_first := 0, list_last := 0\<rparr>"
    using swap_dust_stale [OF assms(4,5,7), of "\<lambda>k. gas_left env 0 k < DUST_GASLIMIT"] assms(8) by (auto simp: not_less)
  have "dust_cleanup_waiting_list env dust_limit c = Inr (c\<lparr>c_funds := fs, c_dust_checkpoint := 0\<rparr>)"
    unfolding dust_cleanup_waiting_list_def only_owner_def
    by (simp only: assms(2,3) run require_True bind_res_Inr prod.case simp_thms)
  moreover have "\<not> fund_inv fs"
    using fund_inv_first [of fs WithdrawOnly] assms(6) by (auto simp: l type_total_def)
  ultimately show ?thesis
    by (simp add: l type_total_def)
qed

definition stale_contract :: contract where
  "stale_contract = sample_contract\<lparr>c_dust_checkpoint := 4,
     c_funds := concrete \<lparr>a_max = 5, a_entries = [\<lparr>eid = 5, edesc = FdWithdrawOnly, euser = 2, ebal = 8\<rparr>]\<rparr>\<rparr>"

theorem stale_dust_checkpoint_corrupts_witness:
  "\<exists>c'. dust_cleanup_waiting_list (sample_env sample_owner) 3 stale_contract = Inr c' \<and> c_dust_checkpoint c' = 0 \<and>
    list_first (fund_list_by_type (c_funds c') WithdrawOnly) = 0 \<and>
    type_total (c_funds c') WithdrawOnly = 8 \<and> \<not> fund_inv (c_funds c')"
proof -
  have "fund_inv (c_funds stale_contract)"
    by (simp add: stale_contract_def) (rule fund_inv_concrete, simp add: wf_entries_def)
  moreover have "\<not> is_global_op_in_progress stale_contract" "c_dust_checkpoint stale_contract = 4"
    "fs_by_id (c_funds stale_contract) 4 = None" "type_total (c_funds stale_contract) WithdrawOnly = 8"
    by (simp_all add: stale_contract_def is_global_op_in_progress_def global_op_is_none_def entry_at_def
        sum_of_def sum_where_def)
  moreover have "DUST_GASLIMIT \<le> gas_left (sample_env sample_owner) 0 0"
    by (simp add: DUST_GASLIMIT_def)
  ultimately show ?thesis
    using stale_dust_checkpoint_corrupts [of stale_contract "sample_env sample_owner" 3] by simp
qed

end
