(* ===== verification/View_Properties.thy ===== *)
theory View_Properties
  imports Samples
begin

text \<open>
  The views on the stake: the getters, the breakdowns and the full lists agree with each other
  and with the totals.
\<close>

section \<open>Full lists\<close>

lemma waiting_desc: "fund_type_of d = Waiting \<Longrightarrow> d = FdWaiting (created_of d)"
  by (cases d) (simp_all add: created_of_def)

lemma active_desc: "fund_type_of d = Active \<Longrightarrow> d = FdActive"
  by (cases d) simp_all

lemma waiting_fold:
  assumes "\<And>e. e \<in> set es \<Longrightarrow> etype e = Waiting \<and> us_user_address us (euser e) = Some (adr (euser e))"
  shows "fold (\<lambda>e result. case fund_desc (conc_item xs e) of
       FdWaiting created \<Rightarrow> bind_res result (\<lambda>r. bind_res (get_user_address missing us (user_id (conc_item xs e))) (\<lambda>a.
         Inr (r @ [(a, balance (conc_item xs e), created)])))
     | _ \<Rightarrow> result) es (Inr acc) = Inr (acc @ map (\<lambda>e. (adr (euser e), ebal e, created_of (edesc e))) es)"
  using assms
proof (induction es arbitrary: acc)
  case (Cons e es)
  have "edesc e = FdWaiting (created_of (edesc e))"
    using Cons.prems [of e] by (intro waiting_desc) (simp add: etype_def)
  then obtain c where c: "edesc e = FdWaiting c" "created_of (edesc e) = c"
    by metis
  show ?case
    using Cons c by (simp add: get_user_address_def)
qed simp

lemma active_fold:
  assumes "\<And>e. e \<in> set es \<Longrightarrow> etype e = Active"
  shows "fold (\<lambda>e result. case fund_desc (conc_item xs e) of
       FdActive \<Rightarrow> bind_res result (\<lambda>r.
         if is_empty_user_address us (user_id (conc_item xs e)) then Inr (r @ [(zero_address, balance (conc_item xs e))])
         else bind_res (get_user_address missing us (user_id (conc_item xs e))) (\<lambda>a. Inr (r @ [(a, balance (conc_item xs e))])))
     | _ \<Rightarrow> result) es (Inr acc) =
    Inr (acc @ map (\<lambda>e. (case us_user_address us (euser e) of None \<Rightarrow> zero_address | Some a \<Rightarrow> a, ebal e)) es)"
  using assms
proof (induction es arbitrary: acc)
  case (Cons e es)
  have "edesc e = FdActive"
    using Cons.prems [of e] by (intro active_desc) (simp add: etype_def)
  then show ?case
    using Cons by (auto simp: get_user_address_def is_empty_user_address_def split: option.splits)
qed simp

lemma sum_where_filter: "sum_where P es = (\<Sum>e\<leftarrow>es. if P e then ebal e else 0)"
  by (induction es) (simp_all add: sum_where_def)

lemma sum_list_filter: "(\<Sum>x\<leftarrow>filter P xs. f x) = (\<Sum>x\<leftarrow>xs. if P x then f x else (0 :: nat))"
  by (induction xs) simp_all

text \<open>
  (C38) The full waiting list shows every waiting fund. When each user with waiting funds has a registered
  address, the view returns; its amounts add up to the total waiting stake, and those listed for an
  address add up to the waiting stake the getter reports for that address. The full active list
  needs no addresses: it always returns and adds up to the total active stake.
\<close>

theorem full_lists_complete:
  assumes "base_inv c"
    and "\<forall>u\<in>{1..us_num_users (c_users c)}. get_user_stake_of_type (c_funds c) u Waiting \<noteq> 0 \<longrightarrow>
      us_user_address (c_users c) u \<noteq> None"
  shows "(\<exists>w. get_full_waiting_list missing (c_users c) (c_funds c) = Inr w \<and>
      (\<Sum>(a, x, created)\<leftarrow>w. x) = get_total_waiting_stake (c_funds c) \<and>
      (\<forall>a. (\<Sum>(b, x, created)\<leftarrow>w. if b = a then x else 0) = get_user_waiting_stake (c_users c) (c_funds c) a)) \<and>
    (\<exists>l. get_full_active_list missing (c_users c) (c_funds c) = Inr l \<and>
      (\<Sum>(a, x)\<leftarrow>l. x) = get_total_active_stake (c_funds c))"
proof -
  let ?us = "c_users c"
  have inv: "fund_inv (c_funds c)" "user_inv ?us" "owned_funds (c_funds c) (us_num_users ?us)"
    using assms(1) by (simp_all add: base_inv_def)
  from inv(1) obtain b where wf: "wf_funds b" and s: "c_funds c = concrete b"
    by (rule fund_invE)
  let ?w = "filter (of_type Waiting) (a_entries b)" and ?l = "filter (of_type Active) (a_entries b)"
  define name where "name e = (case us_user_address ?us (euser e) of None \<Rightarrow> zero_address | Some a \<Rightarrow> a)" for e :: fund_entry
  define adr where "adr u = the (us_user_address ?us u)" for u
  have adr: "us_user_address ?us (euser e) = Some (adr (euser e))" "euser e \<noteq> 0" if e: "e \<in> set ?w" for e
  proof -
    have "0 < ebal e" "ebal e \<le> user_total (c_funds c) (euser e) Waiting"
      using wf_pos [OF wf, of e] e sum_where_ge [of e "a_entries b" "of_user (euser e) Waiting"]
      by (auto simp: s sum_of_user of_user_def of_type_def)
    then have "user_total (c_funds c) (euser e) Waiting \<noteq> 0"
      by simp
    then show "us_user_address ?us (euser e) = Some (adr (euser e))" "euser e \<noteq> 0"
      using assms(2) inv(3) by (fastforce simp: owned_funds_def adr_def)+
  qed
  have who: "adr (euser e) = a \<longleftrightarrow> us_user_id ?us a = euser e" if "e \<in> set ?w" for e a
    using inv(2) adr [OF that] unfolding registry_inv_def by metis
  let ?r = "map (\<lambda>e. (adr (euser e), ebal e, created_of (edesc e))) ?w"
  have "get_full_waiting_list missing ?us (c_funds c) = Inr ?r"
    unfolding get_full_waiting_list_def s foreach_type_concrete [OF wf]
    using waiting_fold [where es = ?w and us = ?us and adr = adr and xs = "a_entries b" and missing = missing and acc = "[]"] adr by (auto simp: of_type_def)
  moreover have "(\<Sum>(a, x, created)\<leftarrow>?r. x) = get_total_waiting_stake (c_funds c)"
    by (simp add: comp_def get_total_waiting_stake_def USER_STAKE_TOTALS_ID_def s sum_of_type sum_where_def)
  moreover have "\<forall>a. (\<Sum>(d, x, created)\<leftarrow>?r. if d = a then x else 0) = get_user_waiting_stake ?us (c_funds c) a"
  proof
    fix a
    let ?u = "us_user_id ?us a"
    have "(\<Sum>(d, x, created)\<leftarrow>?r. if d = a then x else 0) = (\<Sum>e\<leftarrow>?w. if euser e = ?u \<and> ?u \<noteq> 0 then ebal e else 0)"
    proof -
      have "(if adr (euser e) = a then ebal e else 0) = (if euser e = ?u \<and> ?u \<noteq> 0 then ebal e else 0)" if "e \<in> set ?w" for e
        using who [OF that, of a] adr(2) [OF that] by auto
      then have eq: "map (\<lambda>e. if adr (euser e) = a then ebal e else 0) ?w =
          map (\<lambda>e. if euser e = ?u \<and> ?u \<noteq> 0 then ebal e else 0) ?w"
        by (rule map_cong [OF refl])
      show ?thesis
        by (simp only: map_map comp_def prod.case eq)
    qed
    also have "\<dots> = (if ?u = 0 then 0 else sum_where (of_user ?u Waiting) (a_entries b))"
      by (auto simp: sum_where_filter sum_list_filter of_user_def of_type_def intro!: arg_cong [of _ _ sum_list] map_cong)
    finally show "(\<Sum>(d, x, created)\<leftarrow>?r. if d = a then x else 0) = get_user_waiting_stake ?us (c_funds c) a"
      by (simp add: get_user_waiting_stake_def get_user_stake_of_type_by_address_def Let_def s sum_of_user)
  qed
  moreover have "get_full_active_list missing ?us (c_funds c) = Inr (map (\<lambda>e. (name e, ebal e)) ?l)"
    unfolding get_full_active_list_def s foreach_type_concrete [OF wf]
    using active_fold [where es = ?l and us = ?us and xs = "a_entries b" and missing = missing and acc = "[]"] by (auto simp: of_type_def name_def)
  moreover have "(\<Sum>(a, x)\<leftarrow>map (\<lambda>e. (name e, ebal e)) ?l. x) = get_total_active_stake (c_funds c)"
    by (simp add: comp_def get_total_active_stake_def USER_STAKE_TOTALS_ID_def s sum_of_type sum_where_def)
  ultimately show ?thesis
    by blast
qed

lemma sample_base: "base_inv sample_contract"
  using sample_inv by (simp add: contract_inv_def)

lemma sample_registered: "u \<in> {1..2} \<Longrightarrow> us_user_address sample_users u \<noteq> None"
  by (auto simp: sample_users_def)

theorem full_lists_complete_witness:
  "\<exists>w. get_full_waiting_list (Inl ArrayVecFull) sample_users sample_funds = Inr w \<and> (\<Sum>(a, x, created)\<leftarrow>w. x) = 5"
proof -
  have "\<forall>u\<in>{1..us_num_users (c_users sample_contract)}. get_user_stake_of_type (c_funds sample_contract) u Waiting \<noteq> 0 \<longrightarrow>
      us_user_address (c_users sample_contract) u \<noteq> None"
    by (auto simp: sample_users_def)
  from full_lists_complete [OF sample_base this, of "Inl ArrayVecFull"] show ?thesis
    by (auto simp: get_total_waiting_stake_def USER_STAKE_TOTALS_ID_def sample_totals)
qed

section \<open>Getters and breakdowns\<close>

text \<open>
  All views on the stake of an address agree: the breakdown by type lists the values of the five
  getters, the total stake is their sum, for the address and for the whole contract; an address
  that is not registered has none.
\<close>

theorem stake_views_agree:
  "get_user_stake_by_type_endpoint us s a =
     (get_user_withdraw_only_stake us s a, get_user_waiting_stake us s a, get_user_active_stake us s a,
      get_user_unstaked_stake us s a, get_user_deferred_payment_stake us s a) \<and>
   get_user_total_stake_endpoint us s a =
     get_user_withdraw_only_stake us s a + get_user_waiting_stake us s a + get_user_active_stake us s a +
      get_user_unstaked_stake us s a + get_user_deferred_payment_stake us s a \<and>
   get_total_stake_by_type_endpoint s =
     (get_total_withdraw_only_stake s, get_total_waiting_stake s, get_total_active_stake s,
      get_total_unstaked_stake s, get_total_deferred_payment_stake s) \<and>
   get_total_stake s = get_total_withdraw_only_stake s + get_total_waiting_stake s + get_total_active_stake s +
      get_total_unstaked_stake s + get_total_deferred_payment_stake s \<and>
   (us_user_id us a \<noteq> 0 \<or> get_user_total_stake_endpoint us s a = 0)"
  by (simp add: get_user_stake_by_type_endpoint_def get_user_stake_by_type_def get_user_total_stake_endpoint_def
      get_user_total_stake_def get_total_stake_by_type_endpoint_def get_total_stake_def Let_def
      get_user_withdraw_only_stake_def get_user_waiting_stake_def get_user_active_stake_def get_user_unstaked_stake_def
      get_user_deferred_payment_stake_def get_user_stake_of_type_by_address_def
      get_total_withdraw_only_stake_def get_total_waiting_stake_def get_total_active_stake_def
      get_total_unstaked_stake_def get_total_deferred_payment_stake_def)

lemma get_all_user_stake_loop:
  assumes "\<And>u. u \<in> set ids \<Longrightarrow> us_user_address us u = Some (adr u)"
  shows "get_all_user_stake_by_type_loop missing us s ids = Inr (map (\<lambda>u. (adr u, get_user_stake_by_type s u)) ids)"
  using assms by (induction ids) (auto simp: get_user_address_def)

lemma owned_sum:
  assumes "base_inv c"
  shows "get_user_stake_of_type (c_funds c) 0 t = (\<Sum>u\<leftarrow>[1..<Suc (us_num_users (c_users c))]. get_user_stake_of_type (c_funds c) u t)"
proof -
  have "type_total (c_funds c) t = (\<Sum>u=1..us_num_users (c_users c). user_total (c_funds c) u t)"
    using assms by (intro type_total_sum_users) (auto simp: base_inv_def owned_funds_def)
  also have "\<dots> = (\<Sum>u=1..us_num_users (c_users c). get_user_stake_of_type (c_funds c) u t)"
    by (rule sum.cong) auto
  finally show ?thesis
    by (simp add: sum_list_distinct_conv_sum_set atLeastLessThanSuc_atLeastAtMost del: upt_Suc)
qed

text \<open>
  The view over all users. When every user has an address it returns one line per user in the order of
  their ids, and its columns add up to the contract's totals by type.
\<close>

theorem all_users_view_complete:
  assumes "base_inv c" and "\<forall>u\<in>{1..us_num_users (c_users c)}. us_user_address (c_users c) u \<noteq> None"
  shows "\<exists>l. get_all_user_stake_by_type missing (c_users c) (c_funds c) = Inr l \<and>
    map (\<lambda>(a, _). us_user_id (c_users c) a) l = [1..<Suc (us_num_users (c_users c))] \<and>
    (\<forall>(a, b)\<in>set l. b = get_user_stake_by_type_endpoint (c_users c) (c_funds c) a) \<and>
    get_total_stake_by_type_endpoint (c_funds c) =
      ((\<Sum>(a, w, _)\<leftarrow>l. w), (\<Sum>(a, _, w, _)\<leftarrow>l. w), (\<Sum>(a, _, _, w, _)\<leftarrow>l. w),
       (\<Sum>(a, _, _, _, w, _)\<leftarrow>l. w), (\<Sum>(a, _, _, _, _, w)\<leftarrow>l. w))"
proof -
  let ?us = "c_users c" and ?ids = "[1..<Suc (us_num_users (c_users c))]"
  define adr where "adr u = the (us_user_address ?us u)" for u
  have adr: "us_user_address ?us u = Some (adr u)" if "u \<in> set ?ids" for u
    using assms(2) that by (auto simp: adr_def)
  have id: "us_user_id ?us (adr u) = u" "u \<noteq> 0" if "u \<in> set ?ids" for u
    using assms(1) adr [OF that] unfolding base_inv_def registry_inv_def by blast+
  let ?l = "map (\<lambda>u. (adr u, get_user_stake_by_type (c_funds c) u)) ?ids"
  have "get_all_user_stake_by_type missing ?us (c_funds c) = Inr ?l"
    unfolding get_all_user_stake_by_type_def by (rule get_all_user_stake_loop [OF adr])
  moreover have "map (\<lambda>(a, _). us_user_id ?us a) ?l = ?ids"
  proof -
    have "map (\<lambda>u. us_user_id ?us (adr u)) ?ids = ?ids"
      by (rule map_idI) (rule id(1))
    then show ?thesis
      by (simp only: map_map comp_def prod.case)
  qed
  moreover have "\<forall>(a, b)\<in>set ?l. b = get_user_stake_by_type_endpoint ?us (c_funds c) a"
  proof -
    have "get_user_stake_by_type_endpoint ?us (c_funds c) (adr u) = get_user_stake_by_type (c_funds c) u" if "u \<in> set ?ids" for u
      using id(2) [OF that] by (simp add: get_user_stake_by_type_endpoint_def Let_def id(1) [OF that])
    then show ?thesis
      by (simp del: upt_Suc set_upt)
  qed
  moreover have "get_total_stake_by_type_endpoint (c_funds c) =
      ((\<Sum>(a, w, _)\<leftarrow>?l. w), (\<Sum>(a, _, w, _)\<leftarrow>?l. w), (\<Sum>(a, _, _, w, _)\<leftarrow>?l. w),
       (\<Sum>(a, _, _, _, w, _)\<leftarrow>?l. w), (\<Sum>(a, _, _, _, _, w)\<leftarrow>?l. w))"
    by (simp only: get_total_stake_by_type_endpoint_def get_user_stake_by_type_def USER_STAKE_TOTALS_ID_def
        map_map comp_def prod.case owned_sum [OF assms(1)])
  ultimately show ?thesis
    by blast
qed

theorem all_users_view_complete_witness:
  "\<exists>l. get_all_user_stake_by_type (Inl ArrayVecFull) sample_users sample_funds = Inr l \<and>
    map (\<lambda>(a, _). us_user_id sample_users a) l = [1, 2]"
proof -
  have two: "us_num_users sample_users = 2" "[1..<Suc 2] = [1, 2]"
    by (simp_all add: sample_users_def upt_conv_Cons)
  have "\<forall>u\<in>{1..us_num_users (c_users sample_contract)}. us_user_address (c_users sample_contract) u \<noteq> None"
    using sample_registered by (simp add: two(1) Ball_def)
  from all_users_view_complete [OF sample_base this, of "Inl ArrayVecFull"] obtain l where
    "get_all_user_stake_by_type (Inl ArrayVecFull) sample_users sample_funds = Inr l"
    "map (\<lambda>(a, _). us_user_id sample_users a) l = [1, 2]"
    unfolding two sample_fields by (elim exE conjE)
  then show ?thesis
    by (intro exI [of _ l] conjI)
qed

end
