(* ===== verification/Fund_Progress.thy ===== *)
theory Fund_Progress
  imports Fund_Transf
begin

text \<open>
  How far an interrupted swap gets: every item it visits leaves the source type for good, except
  the last one when the limit ends inside it, and creates at most one item. So a swap that is not
  interrupted at once leaves fewer items to swap, and repeated calls need ids for at most the
  items that were there at the start.
\<close>

section \<open>Counting items in a loop\<close>

definition entries_of :: "fund_type \<Rightarrow> abs_funds \<Rightarrow> nat" where
  "entries_of t a = length (filter (of_type t) (a_entries a))"

lemma type_items_entries: "wf_funds a \<Longrightarrow> type_items (concrete a) t = entries_of t a"
  by (simp add: type_items_concrete entries_of_def)

lemma entries_of_increase:
  "entries_of r (a_increase u d x a) \<le> entries_of r a + (if r = fund_type_of d then 1 else 0)"
  unfolding entries_of_def by (rule items_increase)

lemma entries_of_take_all:
  assumes "wf_funds a" and "e \<in> set (a_entries a)"
  shows "Suc (entries_of (etype e) (a_take e (ebal e) a)) = entries_of (etype e) a"
proof -
  let ?es = "filter (of_type (etype e)) (a_entries a)"
  have d: "distinct ?es"
    using wf_distinct [OF assms(1)] by (simp add: distinct_map)
  have "filter (of_type (etype e)) (remove_entry (eid e) (a_entries a)) = filter (\<lambda>f. e \<noteq> f) ?es"
    unfolding remove_entry_def filter_filter
    by (rule filter_cong) (use wf_distinct [OF assms(1)] assms(2) in \<open>auto simp: distinct_map inj_on_def\<close>)
  also have "\<dots> = remove1 e ?es"
    by (simp add: distinct_remove1_removeAll [OF d] removeAll_filter_not_eq)
  finally have removed: "filter (of_type (etype e)) (remove_entry (eid e) (a_entries a)) = remove1 e ?es" .
  have "e \<in> set ?es"
    using assms(2) by (simp add: of_type_def)
  then have "Suc (length (remove1 e ?es)) = length ?es"
    using length_pos_if_in_set [of e ?es] by (simp add: length_remove1)
  then show ?thesis
    using removed by (simp add: entries_of_def a_take_def a_remove_def)
qed

lemma entries_of_take: "entries_of r (a_take e x a) \<le> entries_of r a"
  unfolding entries_of_def by (rule items_take)

text \<open>One conversion: a whole item leaves its type, and at most one item and one id are new.\<close>

lemma convert_counts:
  assumes "wf_funds a" and "e \<in> set (a_entries a)" and "etype e = t" and "fund_type_of d \<noteq> t" and "fund_type_of d = t'"
  shows "entries_of t (a_convert d x e a) + (if x = ebal e then 1 else 0) \<le> entries_of t a"
    "entries_of t' (a_convert d x e a) \<le> Suc (entries_of t' a)" "a_max (a_convert d x e a) \<le> Suc (a_max a)"
proof -
  have "entries_of t (a_convert d x e a) \<le> entries_of t (a_take e x a)"
    using entries_of_increase [of t "euser e" d x] assms(4) by (simp add: a_convert_def)
  then show "entries_of t (a_convert d x e a) + (if x = ebal e then 1 else 0) \<le> entries_of t a"
    using entries_of_take [of t e x a] entries_of_take_all [OF assms(1,2)] assms(3) by auto
  show "entries_of t' (a_convert d x e a) \<le> Suc (entries_of t' a)"
    using entries_of_increase [of t' "euser e" d x "a_take e x a"] entries_of_take [of t' e x a] assms(5)
    by (simp add: a_convert_def)
qed (rule a_max_convert)

lemma loop_result_none_left [simp]: "loop_result tr intr k (Some 0) es = ([], Some 0, 0)"
  by (cases es) simp_all

lemma taken_part: "mx \<noteq> Some 0 \<Longrightarrow> taken mx e \<noteq> ebal e \<Longrightarrow> left_over mx e = Some 0"
  by (auto simp: taken_def left_over_def min_def split: option.splits if_splits)

text \<open>The last item may be split when the limit is used up.\<close>

definition split_item :: "nat option \<Rightarrow> nat option \<Rightarrow> nat" where
  "split_item mx r = (if r = Some 0 \<and> mx \<noteq> Some 0 then 1 else 0)"

definition left_after ::
  "(fund_entry \<Rightarrow> fund_description option) \<Rightarrow> (nat \<Rightarrow> bool) \<Rightarrow> nat \<Rightarrow> nat option \<Rightarrow> fund_entry list \<Rightarrow> nat option"
where
  "left_after tr intr k mx es = fst (snd (loop_result tr intr k mx es))"

context fund_chain
begin

lemma loop_counts:
  assumes "loop_ready dir P n rem a" and maps: "maps_type t t' tr"
  shows "entries_of t (loop_funds tr intr k mx rem a) + a_max (loop_funds tr intr k mx rem a) \<le>
      entries_of t a + a_max a + split_item mx (left_after tr intr k mx rem) \<and>
    entries_of t (loop_funds tr intr k mx rem a) + entries_of t' (loop_funds tr intr k mx rem a) \<le>
      entries_of t a + entries_of t' a + split_item mx (left_after tr intr k mx rem) \<and>
    entries_of t (loop_funds tr intr k mx rem a) \<le> entries_of t a"
  using assms(1) maps_type_leaves [OF maps]
proof (induction n k mx rem a rule: loop_induct [where intr = intr])
  case (stop n k mx rem a)
  then show ?case
    by (cases rem) auto
next
  case (skip n k mx e rem a)
  then show ?case
    by (simp add: left_after_def case_prod_unfold Let_def)
next
  case (convert n k mx e d rem a)
  have wf: "wf_funds a"
    using convert.hyps(1) by (simp add: loop_ready_def)
  note h = ready_head [OF convert.hyps(1)]
  have into: "fund_type_of d = t'"
    using maps h(3) convert.hyps(4) by (simp add: maps_type_def)
  note c = convert_counts [OF wf h(1,3) convert.hyps(5) into, of "taken mx e"]
  have fin: "left_after tr intr k mx (e # rem) = left_after tr intr (Suc k) (left_over mx e) rem"
    "left_over mx e = Some 0 \<Longrightarrow> left_after tr intr (Suc k) (left_over mx e) rem = Some 0"
    using convert.hyps by (auto simp: left_after_def case_prod_unfold Let_def)
  show ?case
  proof (cases "taken mx e = ebal e")
    case True
    then show ?thesis
      using c convert.IH convert.hyps fin by (auto simp: split_item_def split: if_splits)
  next
    case False
    then show ?thesis
      using c convert.IH convert.hyps fin taken_part [OF convert.hyps(3) False] by (auto simp: split_item_def split: if_splits)
  qed
qed

lemma loop_progress:
  assumes ready: "loop_ready dir P n (e # rem) a" and maps: "maps_type t t' tr"
    and go: "\<not> intr k" "mx \<noteq> Some 0" "tr e = Some d"
    and left: "left_after tr intr k mx (e # rem) \<noteq> Some 0"
  shows "entries_of t (loop_funds tr intr k mx (e # rem) a) < entries_of t a"
proof -
  note h = ready_head [OF ready]
  have wf: "wf_funds a"
    using ready by (simp add: loop_ready_def)
  have d: "fund_type_of d \<noteq> t"
    using maps_type_leaves [OF maps] h(3) go(3) by (auto simp: leaves_def)
  have all: "taken mx e = ebal e"
  proof (rule ccontr)
    assume "taken mx e \<noteq> ebal e"
    then show False
      using left go taken_part [OF go(2)] by (simp add: left_after_def case_prod_unfold Let_def)
  qed
  obtain n' where n: "n = Suc n'"
    using h(9) by blast
  have pos: "0 < taken mx e"
    using h(5) all by simp
  have ready': "loop_ready dir P n' rem (a_convert d (taken mx e) e a)"
    by (rule ready_convert [OF ready [unfolded n] d pos])
  have "entries_of t (loop_funds tr intr k mx (e # rem) a) \<le> entries_of t (a_convert d (taken mx e) e a)"
    using loop_counts [OF ready' maps] go by simp
  then show ?thesis
    using convert_counts(1) [OF wf h(1,3) d refl, of "taken mx e"] all by simp
qed

end

section \<open>Counting items in the storage\<close>

text \<open>
  What a swap of at most \<open>m\<close> from type \<open>t\<close> into \<open>t'\<close>, of which \<open>r\<close> is left, does to the numbers of items
  and to the last id; and that it gets on, when \<open>go\<close> says that it is not interrupted at once.
\<close>

definition counts_kept :: "fund_type \<Rightarrow> fund_type \<Rightarrow> nat \<Rightarrow> nat \<Rightarrow> bool \<Rightarrow> fund_storage \<Rightarrow> fund_storage \<Rightarrow> bool" where
  "counts_kept t t' m r go s s' \<longleftrightarrow>
     type_items s' t + fs_max_id s' \<le> type_items s t + fs_max_id s + (if r = 0 then 1 else 0) \<and>
     type_items s' t + type_items s' t' \<le> type_items s t + type_items s t' + (if r = 0 then 1 else 0) \<and>
     (\<forall>q. q \<noteq> t' \<longrightarrow> type_items s' q \<le> type_items s q) \<and>
     (go \<longrightarrow> 0 < r \<longrightarrow> m \<le> type_total s t \<longrightarrow> type_items s' t < type_items s t)"

lemma split_convert_counts:
  assumes inv: "fund_inv s" and room: "id_room 2 s" and few: "few_items s t" and g: "swaps t t' g"
    and all: "\<And>d. fund_type_of d = t \<Longrightarrow> g d \<noteq> None"
    and run: "split_convert_max_by_type (Some m) t dir (\<lambda>it. g (fund_desc it)) intr False s = Inr (us, Some r, s')"
  shows "counts_kept t t' m r (\<not> intr 0) s s'"
proof -
  from inv obtain a where wf: "wf_funds a" and s: "s = concrete a"
    by (rule fund_invE)
  let ?tr = "\<lambda>e. g (edesc e)" and ?rem = "chain_of dir (of_type t) (a_entries a)"
  let ?a' = "loop_funds ?tr intr 0 (Some m) ?rem a"
  note ready = ready_start [OF wf room [unfolded s], of dir "of_type t"]
  note maps = swaps_maps_type [OF g] and leaves = maps_type_leaves [OF swaps_maps_type [OF g]]
  have len: "length ?rem \<le> MAX_AFFECTED_USERS"
    using few s length_chain_type [OF wf] by (simp add: few_items_def)
  obtain us' mx' x where r: "loop_result ?tr intr 0 (Some m) ?rem = (us', mx', x)"
    by (metis prod_cases3)
  have "split_convert_max_by_type (Some m) t dir (\<lambda>it. g (fund_desc it)) intr False s =
    Inr (affected_users_sort_dedup us', mx', concrete ?a')"
    using split_convert_by_type_loop_refines [OF ready leaves, of "\<lambda>it. g (fund_desc it)" "[]" intr 0 "Some m"]
      len by (simp add: split_convert_max_by_type_def s first_id_of_type_concrete r)
  then have s': "s' = concrete ?a'" and left: "left_after ?tr intr 0 (Some m) ?rem = Some r"
    using run r by (simp_all add: left_after_def)
  have wf': "wf_funds ?a'"
    by (rule type_chain.loop_funds_wf [OF ready leaves])
  have one: "split_item (Some m) (Some r) \<le> (if r = 0 then 1 else 0)"
    by (simp add: split_item_def)
  note counts = type_chain.loop_counts [OF ready maps, where intr = intr and k = 0 and mx = "Some m", unfolded left]
  note items = type_items_entries [OF wf] type_items_entries [OF wf']
  have "entries_of t ?a' < entries_of t a" if go: "\<not> intr 0" "0 < r" "m \<le> type_total s t"
  proof -
    have m: "Some m \<noteq> Some 0"
      using left go(2) loop_result_bound [OF r] r by (auto simp: left_after_def)
    have "type_total s t = sum_list (map ebal ?rem)"
      by (simp add: s sum_list_chain sum_of_type)
    then obtain e es where rem: "?rem = e # es"
      using go(3) m by (cases ?rem) auto
    then have "of_type t e"
      by (metis list.set_intros(1) mem_Collect_eq set_chain_of)
    then obtain d where "?tr e = Some d"
      using all [of "edesc e"] by (auto simp: of_type_def etype_def)
    then show ?thesis
      using type_chain.loop_progress [where intr = intr and k = 0, OF ready [unfolded rem] maps go(1) m]
        left go(2) rem by simp
  qed
  moreover have "entries_of q ?a' \<le> entries_of q a" if "q \<noteq> t'" for q
  proof -
    have "fund_type_of d = t'" if "of_type t e" "?tr e = Some d" for e d
      using maps that by (simp add: maps_type_def of_type_def)
    then show ?thesis
      using type_chain.loop_items [OF ready leaves, of t' q intr 0 "Some m"] that by (simp add: entries_of_def)
  qed
  ultimately show ?thesis
    unfolding counts_kept_def using counts one by (auto simp: s' s items)
qed

lemma swap_waiting_to_active_counts:
  assumes "fund_inv s" and "id_room 2 s" and "few_items s Waiting"
    and "swap_waiting_to_active m intr s = Inr (us, r, s')"
  shows "counts_kept Waiting Active m r (\<not> intr 0) s s'"
proof -
  obtain us' mx where run: "split_convert_max_by_type (Some m) Waiting Forwards (\<lambda>_. Some FdActive) intr False s = Inr (us', mx, s')"
    "r = rest_of_limit m mx"
    using assms(4) by (auto simp: swap_waiting_to_active_def bind_res_eq_Inr)
  then have "mx = Some r"
    using split_convert_max_by_type_run [OF assms(1-3) swaps_into [of Waiting FdActive, simplified], of "Some m" Forwards intr]
    by (auto simp: rest_of_limit_def)
  then show ?thesis
    using split_convert_counts [OF assms(1-3) swaps_into [of Waiting FdActive, simplified], where intr = intr] run(1) by simp
qed

lemma swap_unstaked_to_deferred_counts:
  assumes "fund_inv s" and "id_room 2 s" and "few_items s UnStaked"
    and "swap_unstaked_to_deferred_payment m intr s = Inr (r, s')"
  shows "counts_kept UnStaked DeferredPayment m r (\<not> intr 0) s s'"
proof -
  let ?g = "\<lambda>d. case d of FdUnStaked created \<Rightarrow> Some (FdDeferredPayment created) | _ \<Rightarrow> None"
  obtain us' mx where run: "split_convert_max_by_type (Some m) UnStaked Forwards (\<lambda>it. ?g (fund_desc it)) intr False s = Inr (us', mx, s')"
    "r = rest_of_limit m mx"
    using assms(4) by (auto simp: swap_unstaked_to_deferred_payment_def bind_res_eq_Inr)
  then have mx: "mx = Some r"
    using split_convert_max_by_type_run [OF assms(1-3) swaps_unstaked, of "Some m" Forwards intr]
    by (auto simp: rest_of_limit_def)
  have "fund_type_of d = UnStaked \<Longrightarrow> ?g d \<noteq> None" for d
    by (cases d) auto
  then show ?thesis
    using split_convert_counts [OF assms(1-3) swaps_unstaked, where intr = intr] run(1) mx by simp
qed

lemma swap_active_to_deferred_counts:
  assumes "fund_inv s" and "id_room 2 s" and "few_items s Active"
    and "swap_active_to_deferred_payment nonce m intr s = Inr (r, s')"
  shows "counts_kept Active DeferredPayment m r (\<not> intr 0) s s'"
proof -
  obtain us' mx where run: "split_convert_max_by_type (Some m) Active Backwards (\<lambda>_. Some (FdDeferredPayment nonce)) intr False s = Inr (us', mx, s')"
    "r = rest_of_limit m mx"
    using assms(4) by (auto simp: swap_active_to_deferred_payment_def bind_res_eq_Inr)
  then have "mx = Some r"
    using split_convert_max_by_type_run [OF assms(1-3) swaps_into [of Active "FdDeferredPayment nonce", simplified], of "Some m" Backwards intr]
    by (auto simp: rest_of_limit_def)
  then show ?thesis
    using split_convert_counts [OF assms(1-3) swaps_into [of Active "FdDeferredPayment nonce", simplified], where intr = intr] run(1)
    by simp
qed

end
