(* ===== verification/Reset_Checkpoint.thy ===== *)
theory Reset_Checkpoint
  imports User_Stake
begin

text \<open>
  The long operations that may run out of gas and continue in a later call
  (\<^verbatim>\<open>latest/src/reset_checkpoint_endpoints.rs\<close>): computing the rewards of all users, changing
  the delegation cap and changing the service fee. The gas counter is read by three loops of
  one call at most once each: the loop over the users is loop 0, the three swaps are the
  loops 1, 2 and 3 of the call.
\<close>

section \<open>Computing the rewards of all users\<close>

definition STOP_AT_GASLIMIT :: u64 where
  "STOP_AT_GASLIMIT = 100000000"

definition stop_at_gaslimit :: "sc_env \<Rightarrow> nat \<Rightarrow> nat \<Rightarrow> bool" where
  "stop_at_gaslimit env p k \<longleftrightarrow> gas_left env p k < STOP_AT_GASLIMIT"

text \<open>
  The loop. It returns whether it was interrupted. \<open>last_id\<close> is below the number of users
  when it grows, so the sum does not leave \<^verbatim>\<open>usize\<close>.
\<close>

function compute_all_rewards_loop ::
  "sc_env \<Rightarrow> nat \<Rightarrow> nat \<Rightarrow> compute_all_rewards_data \<Rightarrow> contract
     \<Rightarrow> (bool \<times> compute_all_rewards_data \<times> contract) res"
where
  "compute_all_rewards_loop env num_nodes k data c =
     (if last_id data < num_nodes then
        if stop_at_gaslimit env 0 k then Inr (True, data, c)
        else
          let current_user_id = last_id data + 1 in
          bind_res (load_updated_user_rewards (cumulated_rewards env) (c_settings c) (c_funds c) (c_rewards c)
                      current_user_id) (\<lambda>user_data.
          compute_all_rewards_loop env num_nodes (Suc k)
            (data\<lparr>sum_unclaimed := sum_unclaimed data + unclaimed_rewards user_data, last_id := current_user_id\<rparr>)
            (c\<lparr>c_rewards := store_user_reward_data current_user_id user_data (c_rewards c)\<rparr>))
      else Inr (False, data, c))"
  by pat_completeness auto
termination
  by (relation "measure (\<lambda>(env, n, k, data, c). n - last_id data)") auto

definition compute_all_rewards ::
  "sc_env \<Rightarrow> compute_all_rewards_data \<Rightarrow> contract \<Rightarrow> (compute_all_rewards_data option \<times> contract) res"
where
  "compute_all_rewards env data c =
     (let curr_rewards_checkpoint = cumulated_rewards env;
          data0 = (if rewards_checkpoint data \<noteq> curr_rewards_checkpoint
                   then data\<lparr>last_id := 0, sum_unclaimed := 0, rewards_checkpoint := curr_rewards_checkpoint\<rparr>
                   else data) in
      bind_res (compute_all_rewards_loop env (us_num_users (c_users c)) 0 data0 c) (\<lambda>(interrupted, data1, c1).
      if interrupted then Inr (Some data1, c1)
      else
        bind_res (biguint_sub (cumulated_rewards env) (sum_unclaimed data1)) (\<lambda>rest.
        bind_res (biguint_sub rest (rs_sent (c_rewards c1))) (\<lambda>remainder.
        if 0 < remainder then
          let node_unclaimed = rs_unclaimed (c_rewards c1) OWNER_USER_ID + remainder in
          Inr (None, c1\<lparr>c_rewards := (c_rewards c1)
            \<lparr>rs_unclaimed := (rs_unclaimed (c_rewards c1))(OWNER_USER_ID := node_unclaimed)\<rparr>\<rparr>)
        else Inr (None, c1)))))"

section \<open>Steps of an operation\<close>

type_synonym step_result = "operation_completion_status \<times> global_op_checkpoint \<times> contract"

definition continue_modify_total_delegation_cap_step ::
  "sc_env \<Rightarrow> modify_total_delegation_cap_data \<Rightarrow> contract \<Rightarrow> step_result res"
where
  "continue_modify_total_delegation_cap_step env mdcap_data c =
     (case cap_step mdcap_data of
        ComputeAllRewards car_data \<Rightarrow>
          bind_res (compute_all_rewards env car_data c) (\<lambda>(more, c1).
          case more of
            Some more_computation \<Rightarrow>
              Inr (InterruptedBeforeOutOfGas,
                   ModifyTotalDelegationCap (mdcap_data\<lparr>cap_step := ComputeAllRewards more_computation\<rparr>), c1)
          | None \<Rightarrow>
              Inr (Completed, ModifyTotalDelegationCap (mdcap_data\<lparr>cap_step := SwapWaitingToActive\<rparr>), c1))
      | SwapWaitingToActive \<Rightarrow>
          bind_res (swap_waiting_to_active (remaining_swap_waiting_to_active mdcap_data) (stop_at_gaslimit env 1)
                      (c_funds c)) (\<lambda>(_, remaining, fs).
          let mdcap_data1 = mdcap_data\<lparr>remaining_swap_waiting_to_active := remaining\<rparr>; c1 = c\<lparr>c_funds := fs\<rparr> in
          if 0 < remaining then Inr (InterruptedBeforeOutOfGas, ModifyTotalDelegationCap mdcap_data1, c1)
          else Inr (Completed,
                 ModifyTotalDelegationCap (mdcap_data1\<lparr>cap_step := SwapUnstakedToDeferredPayment\<rparr>), c1))
      | SwapUnstakedToDeferredPayment \<Rightarrow>
          bind_res (swap_unstaked_to_deferred_payment (remaining_swap_unstaked_to_def_p mdcap_data)
                      (stop_at_gaslimit env 2) (c_funds c)) (\<lambda>(remaining, fs).
          let mdcap_data1 = mdcap_data\<lparr>remaining_swap_unstaked_to_def_p := remaining\<rparr>; c1 = c\<lparr>c_funds := fs\<rparr> in
          if 0 < remaining then Inr (InterruptedBeforeOutOfGas, ModifyTotalDelegationCap mdcap_data1, c1)
          else Inr (Completed,
                 ModifyTotalDelegationCap (mdcap_data1\<lparr>cap_step := SwapActiveToDeferredPayment\<rparr>), c1))
      | SwapActiveToDeferredPayment \<Rightarrow>
          bind_res (swap_active_to_deferred_payment (block_nonce env) (remaining_swap_active_to_def_p mdcap_data)
                      (stop_at_gaslimit env 3) (c_funds c)) (\<lambda>(remaining, fs).
          let mdcap_data1 = mdcap_data\<lparr>remaining_swap_active_to_def_p := remaining\<rparr>; c1 = c\<lparr>c_funds := fs\<rparr> in
          if 0 < remaining then Inr (InterruptedBeforeOutOfGas, ModifyTotalDelegationCap mdcap_data1, c1)
          else Inr (Completed, GlobalOpNone,
                 c1\<lparr>c_settings := (c_settings c1)\<lparr>total_delegation_cap := new_delegation_cap mdcap_data1\<rparr>\<rparr>)))"

definition continue_global_operation_step ::
  "sc_env \<Rightarrow> global_op_checkpoint \<Rightarrow> contract \<Rightarrow> step_result res"
where
  "continue_global_operation_step env orc c =
     (case orc of
        GlobalOpNone \<Rightarrow> Inr (Completed, orc, c)
      | ModifyTotalDelegationCap mdcap_data \<Rightarrow> continue_modify_total_delegation_cap_step env mdcap_data c
      | ChangeServiceFee new_service_fee compute_rewards_data \<Rightarrow>
          bind_res (compute_all_rewards env compute_rewards_data c) (\<lambda>(more, c1).
          case more of
            Some more_computation \<Rightarrow>
              Inr (InterruptedBeforeOutOfGas, ChangeServiceFee new_service_fee more_computation, c1)
          | None \<Rightarrow>
              Inr (Completed, GlobalOpNone,
                   c1\<lparr>c_settings := (c_settings c1)\<lparr>service_fee := new_service_fee\<rparr>\<rparr>)))"

text \<open>A step that completes leads to a later stage of the operation.\<close>

fun steps_left :: "global_op_checkpoint \<Rightarrow> nat" where
  "steps_left GlobalOpNone = 0"
| "steps_left (ChangeServiceFee f data) = 1"
| "steps_left (ModifyTotalDelegationCap data) =
     (case cap_step data of ComputeAllRewards _ \<Rightarrow> 4 | SwapWaitingToActive \<Rightarrow> 3
      | SwapUnstakedToDeferredPayment \<Rightarrow> 2 | SwapActiveToDeferredPayment \<Rightarrow> 1)"

lemma cap_step_left:
  "continue_modify_total_delegation_cap_step env data c = Inr (Completed, orc', c') \<Longrightarrow>
     steps_left orc' < steps_left (ModifyTotalDelegationCap data)"
  by (auto simp: continue_modify_total_delegation_cap_step_def bind_res_eq_Inr Let_def
      split: modify_delegation_cap_step.splits option.splits if_splits)

lemma step_left:
  assumes "continue_global_operation_step env orc c = Inr (Completed, orc', c')" and "orc \<noteq> GlobalOpNone"
  shows "steps_left orc' < steps_left orc"
proof (cases orc)
  case (ModifyTotalDelegationCap data)
  then show ?thesis
    using assms cap_step_left [of env data c] by (simp add: continue_global_operation_step_def)
qed (use assms in \<open>auto simp: continue_global_operation_step_def bind_res_eq_Inr split: option.splits\<close>)

function continue_global_operation_loop ::
  "sc_env \<Rightarrow> global_op_checkpoint \<Rightarrow> contract \<Rightarrow> step_result res"
where
  "continue_global_operation_loop env orc c =
     (if global_op_is_none orc then Inr (Completed, orc, c)
      else
        bind_res (continue_global_operation_step env orc c) (\<lambda>(new_status, new_orc, c1).
        case new_status of
          Completed \<Rightarrow> continue_global_operation_loop env new_orc c1
        | InterruptedBeforeOutOfGas \<Rightarrow> Inr (new_status, new_orc, c1)))"
  by pat_completeness auto
termination
  by (relation "measure (\<lambda>(env, orc, c). steps_left orc)")
    (auto intro!: step_left simp: global_op_is_none_def simp del: steps_left.simps)

definition continue_global_operation ::
  "sc_env \<Rightarrow> global_op_checkpoint \<Rightarrow> contract \<Rightarrow> (operation_completion_status \<times> contract) res"
where
  "continue_global_operation env orc c =
     bind_res (continue_global_operation_loop env orc c) (\<lambda>(status, orc', c1).
       Inr (status, c1\<lparr>c_global_op := orc'\<rparr>))"

section \<open>Endpoints\<close>

definition continue_global_operation_endpoint ::
  "sc_env \<Rightarrow> contract \<Rightarrow> (operation_completion_status \<times> contract) res"
where
  "continue_global_operation_endpoint env c =
     bind_res (check_feature_on env ''continueGlobalOperation'' True) (\<lambda>_.
       continue_global_operation env (c_global_op c) c)"

text \<open>
  \<^verbatim>\<open>modifyTotalDelegationCap\<close>. The previous cap is the available stake when bootstrap mode
  ends here, the stored cap otherwise.
\<close>

definition modify_total_delegation_cap ::
  "sc_env \<Rightarrow> nat \<Rightarrow> contract \<Rightarrow> (operation_completion_status \<times> contract) res"
where
  "modify_total_delegation_cap env new_total_cap c =
     only_owner env
     (require (\<not> is_global_op_in_progress c) ''cannot modify total delegation cap when last is in progress''
     (let total_waiting = get_user_stake_of_type (c_funds c) USER_STAKE_TOTALS_ID Waiting;
          total_active = get_user_stake_of_type (c_funds c) USER_STAKE_TOTALS_ID Active;
          total_unstaked = get_user_stake_of_type (c_funds c) USER_STAKE_TOTALS_ID UnStaked;
          max_available = total_active + total_waiting + total_unstaked;
          compare_caps = (\<lambda>previous_total_cap c1.
            if new_total_cap = previous_total_cap then Inr (Completed, c1)
            else if previous_total_cap < new_total_cap then
              require (total_unstaked = 0) ''no unstaked funds should be present when increasing delegation cap''
              (bind_res (biguint_sub new_total_cap previous_total_cap) (\<lambda>swap_amount.
               continue_global_operation env
                 (ModifyTotalDelegationCap
                    \<lparr>new_delegation_cap = new_total_cap, remaining_swap_waiting_to_active = swap_amount,
                     remaining_swap_active_to_def_p = 0, remaining_swap_unstaked_to_def_p = 0,
                     cap_step = ComputeAllRewards (compute_all_rewards_data_new (cumulated_rewards env))\<rparr>) c1))
            else
              bind_res (biguint_sub previous_total_cap new_total_cap) (\<lambda>swap_amount.
              bind_res (total_unprotected (sc_balance env) (cumulated_rewards env) (c_funds c1) (c_rewards c1))
                (\<lambda>unprotected.
              require (swap_amount \<le> unprotected)
                ''not enough funds in contract to pay those who are forced unstaked''
              (bind_res
                 (if swap_amount \<le> total_unstaked then Inr (0, swap_amount)
                  else bind_res (biguint_sub swap_amount total_unstaked) (\<lambda>x. Inr (x, total_unstaked)))
                 (\<lambda>(swap_active_to_def_p, swap_unstaked_to_def_p).
               continue_global_operation env
                 (ModifyTotalDelegationCap
                    \<lparr>new_delegation_cap = new_total_cap, remaining_swap_waiting_to_active = 0,
                     remaining_swap_active_to_def_p = swap_active_to_def_p,
                     remaining_swap_unstaked_to_def_p = swap_unstaked_to_def_p,
                     cap_step = ComputeAllRewards (compute_all_rewards_data_new (cumulated_rewards env))\<rparr>) c1)))))
      in
      if bootstrap_mode (c_settings c) then
        if max_available < new_total_cap then
          Inr (Completed, c\<lparr>c_settings := (c_settings c)\<lparr>total_delegation_cap := new_total_cap\<rparr>\<rparr>)
        else compare_caps max_available (c\<lparr>c_settings := (c_settings c)\<lparr>bootstrap_mode := False\<rparr>\<rparr>)
      else
        require (new_total_cap \<le> max_available)
          ''new delegation cap must be less or equal to total active + waiting''
          (compare_caps (total_delegation_cap (c_settings c)) c)))"

text \<open>\<^verbatim>\<open>setServiceFee\<close>. Unlike the setters of the settings it does not ask for the owner.\<close>

definition set_service_fee_endpoint ::
  "sc_env \<Rightarrow> nat \<Rightarrow> contract \<Rightarrow> (operation_completion_status \<times> contract) res"
where
  "set_service_fee_endpoint env service_fee_per_10000 c =
     require (service_fee_per_10000 \<le> PERCENTAGE_DENOMINATOR) ''service fee out of range''
     (require (\<not> is_global_op_in_progress c) ''global checkpoint is in progress''
     (let new_service_fee = service_fee_per_10000 in
      if service_fee (c_settings c) = new_service_fee then Inr (Completed, c)
      else if bootstrap_mode (c_settings c) then
        Inr (Completed, c\<lparr>c_settings := (c_settings c)\<lparr>service_fee := new_service_fee\<rparr>\<rparr>)
      else
        continue_global_operation env
          (ChangeServiceFee new_service_fee (compute_all_rewards_data_new (cumulated_rewards env))) c))"

declare compute_all_rewards_loop.simps [simp del]
declare continue_global_operation_loop.simps [simp del]

end
