(* ===== verification/Reset_Invariants.thy ===== *)
theory Reset_Invariants
  imports Reset_Checkpoint Stake_Invariants
begin

text \<open>
  The invariant of the contract while a long operation is under way, and its preservation:
  computing the rewards of all users leaves them settled, to the last unit; the swaps of a
  change of the cap keep the plan of the operation; when the operation is complete the
  invariant of the contract holds again, with the new cap or the new fee.
\<close>

section \<open>Computing the rewards of all users\<close>

definition computed_upto :: "nat \<Rightarrow> reward_storage \<Rightarrow> compute_all_rewards_data \<Rightarrow> bool" where
  "computed_upto n rw data \<longleftrightarrow> last_id data \<le> n \<and>
     (\<forall>u\<in>{1..last_id data}. rs_checkpoint rw u = rewards_checkpoint data) \<and>
     sum_unclaimed data = (\<Sum>u=1..last_id data. rs_unclaimed rw u)"

definition settled :: "nat \<Rightarrow> reward_storage \<Rightarrow> nat \<Rightarrow> bool" where
  "settled tot rw n \<longleftrightarrow> (\<forall>u\<in>{1..n}. rs_checkpoint rw u = tot) \<and> (\<forall>u. rs_checkpoint rw u \<le> tot) \<and>
     (\<forall>u. n < u \<longrightarrow> rs_unclaimed rw u = 0) \<and> (\<Sum>u=1..n. rs_unclaimed rw u) + rs_sent rw = tot"

lemma settled_rewards_inv:
  assumes s: "settled tot rw n" and fee: "service_fee st \<le> PERCENTAGE_DENOMINATOR" and fs: "fund_inv fs"
    and own: "owned_funds fs n" and cap: "type_total fs Active \<le> total_delegation_cap st" and le: "tot \<le> tot'"
  shows "rewards_inv tot' st fs rw n"
proof -
  have "(\<Sum>u=1..n. pending_rewards tot st fs rw u) = 0"
    using s by (intro sum.neutral) (auto simp: settled_def pending_rewards_def)
  moreover have "real (rs_sent rw) + (\<Sum>u=1..n. real (rs_unclaimed rw u)) = real tot"
    using s by (simp add: settled_def flip: of_nat_sum of_nat_add)
  ultimately have "rewards_inv tot st fs rw n"
    using s fee by (simp add: rewards_inv_def reward_liability_def settled_def)
  then show ?thesis
    using rewards_inv_arrive [OF _ le fs _ cap] own by (auto simp: owned_funds_def)
qed

lemma compute_all_rewards_loop_run:
  assumes "fund_inv (c_funds c)" and "type_total (c_funds c) Active \<le> total_delegation_cap (c_settings c)"
    and "rewards_inv (cumulated_rewards env) (c_settings c) (c_funds c) (c_rewards c) n"
    and "computed_upto n (c_rewards c) data" and "rewards_checkpoint data = cumulated_rewards env"
  shows "\<exists>b data' rw. compute_all_rewards_loop env n k data c = Inr (b, data', c\<lparr>c_rewards := rw\<rparr>) \<and>
    rewards_inv (cumulated_rewards env) (c_settings c) (c_funds c) rw n \<and> computed_upto n rw data' \<and>
    rewards_checkpoint data' = cumulated_rewards env \<and> rs_sent rw = rs_sent (c_rewards c) \<and>
    last_id data \<le> last_id data' \<and> (b \<or> last_id data' = n) \<and>
    (b \<longrightarrow> (\<exists>j. stop_at_gaslimit env 0 j)) \<and>
    (last_id data < n \<longrightarrow> \<not> stop_at_gaslimit env 0 k \<longrightarrow> last_id data < last_id data')"
  using assms
proof (induction env n k data c rule: compute_all_rewards_loop.induct)
  case (1 env n k data c)
  let ?T = "cumulated_rewards env" and ?u = "Suc (last_id data)"
  consider "n \<le> last_id data" | "last_id data < n" "stop_at_gaslimit env 0 k"
    | "last_id data < n" "\<not> stop_at_gaslimit env 0 k"
    by linarith
  then show ?case
  proof cases
    case 3
    obtain rw where rw: "compute_one_user_reward ?T (c_settings c) (c_funds c) ?u (c_rewards c) = Inr rw"
      "rewards_inv ?T (c_settings c) (c_funds c) rw n" "rs_checkpoint rw = (rs_checkpoint (c_rewards c))(?u := ?T)"
      "rs_sent rw = rs_sent (c_rewards c)"
      using compute_reward_run [OF "1.prems"(1-3), of ?u] 3(1) by auto
    then obtain ud where ud: "load_updated_user_rewards ?T (c_settings c) (c_funds c) (c_rewards c) ?u = Inr ud"
      "rw = store_user_reward_data ?u ud (c_rewards c)"
      by (auto simp: compute_one_user_reward_def bind_res_eq_Inr)
    let ?d = "data\<lparr>sum_unclaimed := sum_unclaimed data + unclaimed_rewards ud, last_id := ?u\<rparr>"
    have "(\<Sum>u=1..last_id data. rs_unclaimed rw u) = (\<Sum>u=1..last_id data. rs_unclaimed (c_rewards c) u)"
      by (rule sum.cong) (auto simp: ud(2))
    then have upto: "computed_upto n rw ?d"
      using "1.prems"(4,5) 3(1) rw(3) by (auto simp: computed_upto_def ud(2))
    have "compute_all_rewards_loop env n k data c = compute_all_rewards_loop env n (Suc k) ?d (c\<lparr>c_rewards := rw\<rparr>)"
      using 3 ud by (subst compute_all_rewards_loop.simps) simp
    moreover have "last_id data < last_id ?d"
      by simp
    moreover note "1.IH" [OF 3 refl, simplified, OF ud(1), folded ud(2), simplified, OF "1.prems"(1,2) rw(2)]
    ultimately show ?thesis
      using upto rw(4) "1.prems"(5) by fastforce
  qed (use "1.prems" in \<open>auto simp: compute_all_rewards_loop.simps [of env n k data c] computed_upto_def
      intro!: exI [of _ "c_rewards c"]\<close>)
qed

lemma sum_add_at:
  fixes f :: "nat \<Rightarrow> nat"
  assumes "finite A" and "i \<in> A"
  shows "(\<Sum>u\<in>A. (f(i := f i + d)) u) = (\<Sum>u\<in>A. f u) + d"
  using assms by (simp add: sum.remove [of A i])

lemma give_remainder_settled:
  assumes "rewards_inv tot st fs rw n" and "\<forall>u\<in>{1..n}. rs_checkpoint rw u = tot" and n: "1 \<le> n"
  defines "s \<equiv> \<Sum>u=1..n. rs_unclaimed rw u"
  shows "s + rs_sent rw \<le> tot"
    and "settled tot (rw\<lparr>rs_unclaimed := (rs_unclaimed rw)
           (OWNER_USER_ID := rs_unclaimed rw OWNER_USER_ID + (tot - s - rs_sent rw))\<rparr>) n"
proof -
  have "(\<Sum>u=1..n. pending_rewards tot st fs rw u) = 0"
    using assms(2) by (intro sum.neutral) (auto simp: pending_rewards_def)
  then have "real (s + rs_sent rw) \<le> real tot"
    using assms(1) by (simp add: rewards_inv_def reward_liability_def s_def)
  then show le: "s + rs_sent rw \<le> tot"
    by (simp only: of_nat_le_iff)
  let ?f = "(rs_unclaimed rw)(OWNER_USER_ID := rs_unclaimed rw OWNER_USER_ID + (tot - s - rs_sent rw))"
  have "(\<Sum>u=1..n. ?f u) = s + (tot - s - rs_sent rw)"
    unfolding s_def by (rule sum_add_at) (use n in \<open>simp_all add: OWNER_USER_ID_def\<close>)
  then show "settled tot (rw\<lparr>rs_unclaimed := ?f\<rparr>) n"
    using assms(1,2) n le by (auto simp: settled_def rewards_inv_def OWNER_USER_ID_def)
qed

lemma compute_all_rewards_run:
  assumes fs: "fund_inv (c_funds c)" and cap: "type_total (c_funds c) Active \<le> total_delegation_cap (c_settings c)"
    and rew: "rewards_inv (cumulated_rewards env) (c_settings c) (c_funds c) (c_rewards c) n"
    and n: "us_num_users (c_users c) = n" "1 \<le> n" and upto: "computed_upto n (c_rewards c) data"
  shows "\<exists>more rw. compute_all_rewards env data c = Inr (more, c\<lparr>c_rewards := rw\<rparr>) \<and>
    rs_sent rw = rs_sent (c_rewards c) \<and>
    (case more of
       None \<Rightarrow> settled (cumulated_rewards env) rw n
     | Some data' \<Rightarrow> computed_upto n rw data' \<and> rewards_checkpoint data' = cumulated_rewards env \<and>
         rewards_inv (cumulated_rewards env) (c_settings c) (c_funds c) rw n \<and>
         (\<exists>j. stop_at_gaslimit env 0 j) \<and>
         (rewards_checkpoint data = cumulated_rewards env \<longrightarrow> \<not> stop_at_gaslimit env 0 0 \<longrightarrow>
            last_id data < n \<longrightarrow> last_id data < last_id data'))"
proof -
  let ?T = "cumulated_rewards env"
  define data0 where "data0 = (if rewards_checkpoint data \<noteq> ?T
    then data\<lparr>last_id := 0, sum_unclaimed := 0, rewards_checkpoint := ?T\<rparr> else data)"
  have "computed_upto n (c_rewards c) data0" "rewards_checkpoint data0 = ?T"
    using upto by (auto simp: data0_def computed_upto_def)
  from compute_all_rewards_loop_run [OF fs cap rew this, of 0]
  obtain b data' rw where r: "compute_all_rewards_loop env n 0 data0 c = Inr (b, data', c\<lparr>c_rewards := rw\<rparr>)"
    "rewards_inv ?T (c_settings c) (c_funds c) rw n" "computed_upto n rw data'" "rewards_checkpoint data' = ?T"
    "rs_sent rw = rs_sent (c_rewards c)" "b \<or> last_id data' = n" "b \<longrightarrow> (\<exists>j. stop_at_gaslimit env 0 j)"
    "last_id data0 < n \<longrightarrow> \<not> stop_at_gaslimit env 0 0 \<longrightarrow> last_id data0 < last_id data'"
    by auto
  note start = compute_all_rewards_def Let_def data0_def [symmetric] n(1) r(1)
  show ?thesis
  proof (cases b)
    case True
    then have "compute_all_rewards env data c = Inr (Some data', c\<lparr>c_rewards := rw\<rparr>)"
      by (simp add: start)
    moreover have "rewards_checkpoint data = ?T \<Longrightarrow> data0 = data"
      by (simp add: data0_def)
    ultimately show ?thesis
      using r True by auto
  next
    case False
    have sum: "sum_unclaimed data' = (\<Sum>u=1..n. rs_unclaimed rw u)" and all: "\<forall>u\<in>{1..n}. rs_checkpoint rw u = ?T"
      using r(3,4,6) False by (auto simp: computed_upto_def)
    note rest = give_remainder_settled [OF r(2) all n(2), folded sum]
    define rw' where "rw' = rw\<lparr>rs_unclaimed := (rs_unclaimed rw)
      (OWNER_USER_ID := rs_unclaimed rw OWNER_USER_ID + (?T - sum_unclaimed data' - rs_sent rw))\<rparr>"
    have "compute_all_rewards env data c = Inr (None, c\<lparr>c_rewards := rw'\<rparr>)"
      using rest(1) False by (auto simp: start rw'_def)
    then show ?thesis
      using rest(2) r(5) by (auto simp: rw'_def)
  qed
qed

section \<open>The invariant of an operation under way\<close>

text \<open>
  The plan of a change of the cap: what is active and unstaked now and what is still to be
  swapped in or out give the new cap, and every swap finds enough funds.
\<close>

definition cap_plan :: "modify_total_delegation_cap_data \<Rightarrow> fund_storage \<Rightarrow> bool" where
  "cap_plan d fs \<longleftrightarrow>
     type_total fs Active + type_total fs UnStaked + remaining_swap_waiting_to_active d =
       new_delegation_cap d + remaining_swap_active_to_def_p d + remaining_swap_unstaked_to_def_p d \<and>
     remaining_swap_waiting_to_active d \<le> type_total fs Waiting \<and>
     remaining_swap_unstaked_to_def_p d \<le> type_total fs UnStaked \<and>
     remaining_swap_active_to_def_p d \<le> type_total fs Active \<and>
     (type_total fs Waiting = 0 \<or> type_total fs UnStaked = 0)"

definition cap_stage :: "modify_total_delegation_cap_data \<Rightarrow> bool" where
  "cap_stage d \<longleftrightarrow> (case cap_step d of
     SwapUnstakedToDeferredPayment \<Rightarrow> remaining_swap_waiting_to_active d = 0
   | SwapActiveToDeferredPayment \<Rightarrow> remaining_swap_waiting_to_active d = 0 \<and> remaining_swap_unstaked_to_def_p d = 0
   | _ \<Rightarrow> True)"

definition op_rewards :: "nat \<Rightarrow> compute_all_rewards_data \<Rightarrow> contract \<Rightarrow> bool" where
  "op_rewards tot data c \<longleftrightarrow> type_total (c_funds c) Active \<le> total_delegation_cap (c_settings c) \<and>
     rewards_inv tot (c_settings c) (c_funds c) (c_rewards c) (us_num_users (c_users c)) \<and>
     computed_upto (us_num_users (c_users c)) (c_rewards c) data"

definition op_settled :: "nat \<Rightarrow> contract \<Rightarrow> bool" where
  "op_settled tot c \<longleftrightarrow> (\<exists>tot0\<le>tot. settled tot0 (c_rewards c) (us_num_users (c_users c)))"

fun op_state_inv :: "nat \<Rightarrow> global_op_checkpoint \<Rightarrow> contract \<Rightarrow> bool" where
  "op_state_inv tot GlobalOpNone c \<longleftrightarrow> cap_inv c \<and>
     rewards_inv tot (c_settings c) (c_funds c) (c_rewards c) (us_num_users (c_users c))"
| "op_state_inv tot (ChangeServiceFee f data) c \<longleftrightarrow>
     f \<le> PERCENTAGE_DENOMINATOR \<and> cap_inv c \<and> op_rewards tot data c"
| "op_state_inv tot (ModifyTotalDelegationCap d) c \<longleftrightarrow>
     service_fee (c_settings c) \<le> PERCENTAGE_DENOMINATOR \<and> cap_plan d (c_funds c) \<and> cap_stage d \<and>
     (case cap_step d of ComputeAllRewards data \<Rightarrow> op_rewards tot data c | _ \<Rightarrow> op_settled tot c)"

definition op_inv :: "nat \<Rightarrow> global_op_checkpoint \<Rightarrow> contract \<Rightarrow> bool" where
  "op_inv tot orc c \<longleftrightarrow> base_inv c \<and> \<not> bootstrap_mode (c_settings c) \<and> op_state_inv tot orc c"

text \<open>The settings an operation aims at, and what none of its steps touches.\<close>

fun op_target :: "global_op_checkpoint \<Rightarrow> settings \<Rightarrow> settings" where
  "op_target GlobalOpNone st = st"
| "op_target (ChangeServiceFee f data) st = st\<lparr>service_fee := f\<rparr>"
| "op_target (ModifyTotalDelegationCap d) st = st\<lparr>total_delegation_cap := new_delegation_cap d\<rparr>"

text \<open>What an operation still has to take from the waiting list.\<close>

fun op_left :: "global_op_checkpoint \<Rightarrow> nat" where
  "op_left (ModifyTotalDelegationCap d) = remaining_swap_waiting_to_active d"
| "op_left _ = 0"

definition op_keeps :: "global_op_checkpoint \<Rightarrow> contract \<Rightarrow> global_op_checkpoint \<Rightarrow> contract \<Rightarrow> bool" where
  "op_keeps orc c orc' c' \<longleftrightarrow> op_target orc' (c_settings c') = op_target orc (c_settings c) \<and>
     c_users c' = c_users c \<and> c_nodes c' = c_nodes c \<and> c_dust_checkpoint c' = c_dust_checkpoint c \<and>
     rs_sent (c_rewards c') = rs_sent (c_rewards c) \<and> op_left orc' \<le> op_left orc \<and>
     (\<forall>v. get_user_total_stake (c_funds c') v = get_user_total_stake (c_funds c) v)"

text \<open>What the swaps that are still to come need: room for ids, and few enough items.\<close>

fun op_few :: "global_op_checkpoint \<Rightarrow> fund_storage \<Rightarrow> bool" where
  "op_few (ModifyTotalDelegationCap d) fs \<longleftrightarrow> (case cap_step d of
     SwapUnstakedToDeferredPayment \<Rightarrow> few_items fs UnStaked \<and> few_items fs Active
   | SwapActiveToDeferredPayment \<Rightarrow> few_items fs Active
   | _ \<Rightarrow> few_items fs UnStaked \<and> type_items fs Waiting + type_items fs Active \<le> MAX_AFFECTED_USERS)"
| "op_few _ fs \<longleftrightarrow> True"

definition op_ready :: "global_op_checkpoint \<Rightarrow> fund_storage \<Rightarrow> bool" where
  "op_ready orc fs \<longleftrightarrow> id_room (2 ^ steps_left orc) fs \<and> op_few orc fs"

lemma op_keeps_trans: "op_keeps orc c orc1 c1 \<Longrightarrow> op_keeps orc1 c1 orc2 c2 \<Longrightarrow> op_keeps orc c orc2 c2"
  by (auto simp: op_keeps_def)

lemma op_target_simps [simp]:
  "bootstrap_mode (op_target orc st) = bootstrap_mode st" "op_target GlobalOpNone = (\<lambda>st. st)"
  by (cases orc) (simp_all add: fun_eq_iff)

lemma op_inv_none: "op_inv tot GlobalOpNone c \<longleftrightarrow> contract_inv tot c \<and> \<not> bootstrap_mode (c_settings c)"
  by (auto simp: op_inv_def contract_inv_def)

lemma op_rewards_arrive:
  assumes "base_inv c" and "op_rewards tot data c" and "tot \<le> tot'"
  shows "op_rewards tot' data c"
proof -
  have "user_total (c_funds c) u Active \<noteq> 0 \<Longrightarrow> 1 \<le> u \<and> u \<le> us_num_users (c_users c)" for u
    using assms(1) unfolding base_inv_def owned_funds_def by blast
  then show ?thesis
    using assms rewards_inv_arrive [of tot "c_settings c" "c_funds c" "c_rewards c" "us_num_users (c_users c)" tot']
    by (simp add: op_rewards_def base_inv_def)
qed

lemma op_rewards_compute:
  assumes "base_inv c" and "op_rewards tot data c" and "tot \<le> cumulated_rewards env"
  shows "\<exists>more rw. compute_all_rewards env data c = Inr (more, c\<lparr>c_rewards := rw\<rparr>) \<and>
    rs_sent rw = rs_sent (c_rewards c) \<and>
    (case more of None \<Rightarrow> settled (cumulated_rewards env) rw (us_num_users (c_users c))
     | Some data' \<Rightarrow> op_rewards (cumulated_rewards env) data' (c\<lparr>c_rewards := rw\<rparr>) \<and>
         (\<exists>j. stop_at_gaslimit env 0 j))"
proof -
  have "op_rewards (cumulated_rewards env) data c"
    by (rule op_rewards_arrive [OF assms])
  then obtain more rw where "compute_all_rewards env data c = Inr (more, c\<lparr>c_rewards := rw\<rparr>)"
    "rs_sent rw = rs_sent (c_rewards c)"
    "case more of None \<Rightarrow> settled (cumulated_rewards env) rw (us_num_users (c_users c))
     | Some data' \<Rightarrow> computed_upto (us_num_users (c_users c)) rw data' \<and> rewards_checkpoint data' = cumulated_rewards env \<and>
         rewards_inv (cumulated_rewards env) (c_settings c) (c_funds c) rw (us_num_users (c_users c)) \<and>
         (\<exists>j. stop_at_gaslimit env 0 j) \<and>
         (rewards_checkpoint data = cumulated_rewards env \<longrightarrow> \<not> stop_at_gaslimit env 0 0 \<longrightarrow>
            last_id data < us_num_users (c_users c) \<longrightarrow> last_id data < last_id data')"
    using compute_all_rewards_run [of c env "us_num_users (c_users c)" data] assms(1)
    unfolding op_rewards_def base_inv_def by blast
  then show ?thesis
    using \<open>op_rewards (cumulated_rewards env) data c\<close> by (auto simp: op_rewards_def split: option.splits)
qed

section \<open>Steps\<close>

text \<open>What a step establishes.\<close>

definition step_ok :: "sc_env \<Rightarrow> global_op_checkpoint \<Rightarrow> contract \<Rightarrow> step_result \<Rightarrow> bool" where
  "step_ok env orc c r \<longleftrightarrow> (case r of (status, orc', c') \<Rightarrow>
     op_inv (cumulated_rewards env) orc' c' \<and> op_keeps orc c orc' c' \<and>
     (case status of Completed \<Rightarrow> op_ready orc' (c_funds c')
      | InterruptedBeforeOutOfGas \<Rightarrow> orc' \<noteq> GlobalOpNone \<and> (\<exists>p j. stop_at_gaslimit env p j)))"

lemma op_settled_mono: "op_settled tot c \<Longrightarrow> tot \<le> tot' \<Longrightarrow> op_settled tot' c"
  unfolding op_settled_def using le_trans by blast

lemma base_inv_converts:
  assumes "base_inv c" and "converts us n t t' x (c_funds c) fs"
  shows "base_inv (c\<lparr>c_funds := fs\<rparr>)"
  using assms convertsD(1) [OF assms(2)] converts_owned [OF assms(2)] by (simp add: base_inv_def)

lemma converts_few:
  assumes "converts us n t t' x s s'" and "few_items s r" and "r \<noteq> t'"
  shows "few_items s' r"
  using convertsD(10) [OF assms(1), of r] assms(2,3) by (simp add: few_items_def)

lemma converts_room:
  assumes "converts us n t t' x s s'" and "id_room (2 * m) s"
  shows "id_room m s'"
  using assms by (auto simp: converts_def intro: id_room_step)

lemma compute_step_ok:
  assumes inv: "op_inv tot (ModifyTotalDelegationCap d) c" and le: "tot \<le> cumulated_rewards env"
    and ready: "op_ready (ModifyTotalDelegationCap d) (c_funds c)" and step: "cap_step d = ComputeAllRewards data"
  shows "\<exists>r. continue_modify_total_delegation_cap_step env d c = Inr r \<and> step_ok env (ModifyTotalDelegationCap d) c r"
proof -
  have base: "base_inv c" and rew: "op_rewards tot data c" and plan: "cap_plan d (c_funds c)"
    and fee: "service_fee (c_settings c) \<le> PERCENTAGE_DENOMINATOR" and boot: "\<not> bootstrap_mode (c_settings c)"
    using inv step by (simp_all add: op_inv_def)
  obtain more rw where r: "compute_all_rewards env data c = Inr (more, c\<lparr>c_rewards := rw\<rparr>)"
    "rs_sent rw = rs_sent (c_rewards c)"
    "case more of None \<Rightarrow> settled (cumulated_rewards env) rw (us_num_users (c_users c))
     | Some data' \<Rightarrow> op_rewards (cumulated_rewards env) data' (c\<lparr>c_rewards := rw\<rparr>) \<and> (\<exists>j. stop_at_gaslimit env 0 j)"
    using op_rewards_compute [OF base rew le] by blast
  have room: "id_room 8 (c_funds c)"
    using ready step by (auto simp: op_ready_def intro: id_room_mono [of 16])
  show ?thesis
  proof (cases more)
    case None
    then show ?thesis
      using r base plan fee boot ready step room
      by (auto simp: continue_modify_total_delegation_cap_step_def step_ok_def op_inv_def base_inv_def op_keeps_def
          op_ready_def cap_plan_def cap_stage_def op_settled_def)
  next
    case (Some data')
    then show ?thesis
      using r base plan fee boot step
      by (auto simp: continue_modify_total_delegation_cap_step_def step_ok_def op_inv_def base_inv_def op_keeps_def
          cap_plan_def cap_stage_def)
  qed
qed

lemma cap_plan_step [simp]: "cap_plan (d\<lparr>cap_step := s\<rparr>) fs = cap_plan d fs"
  by (simp add: cap_plan_def)

lemma op_settled_funds [simp]: "op_settled tot (c\<lparr>c_funds := fs\<rparr>) = op_settled tot c"
  by (simp add: op_settled_def)

lemma all_types:
  "WithdrawOnly \<in> set ALL_TYPES" "Waiting \<in> set ALL_TYPES" "Active \<in> set ALL_TYPES" "UnStaked \<in> set ALL_TYPES"
  "DeferredPayment \<in> set ALL_TYPES"
  by (simp_all add: ALL_TYPES_def)

lemmas swap_step_simps = continue_modify_total_delegation_cap_step_def step_ok_def op_inv_def op_keeps_def op_ready_def
  cap_stage_def Let_def

text \<open>What every swap of a change of the cap keeps.\<close>

lemma converts_keeps:
  assumes "base_inv c" and "converts us n t t' x (c_funds c) fs" and "id_room (2 * m) (c_funds c)"
    and "t \<in> set ALL_TYPES" "t' \<in> set ALL_TYPES" "t \<noteq> t'"
  shows "base_inv (c\<lparr>c_funds := fs\<rparr>)" "id_room m fs"
    "get_user_total_stake fs v = get_user_total_stake (c_funds c) v"
  using base_inv_converts [OF assms(1,2)] converts_room [OF assms(2,3)] converts_wealth [OF assms(2,4-6)] by auto

lemma waiting_step_ok:
  assumes inv: "op_inv tot (ModifyTotalDelegationCap d) c" and le: "tot \<le> cumulated_rewards env"
    and ready: "op_ready (ModifyTotalDelegationCap d) (c_funds c)" and step: "cap_step d = SwapWaitingToActive"
  shows "\<exists>r. continue_modify_total_delegation_cap_step env d c = Inr r \<and> step_ok env (ModifyTotalDelegationCap d) c r"
proof -
  let ?fs = "c_funds c" and ?m = "remaining_swap_waiting_to_active d"
  have base: "base_inv c" and plan: "cap_plan d ?fs" and set: "op_settled (cumulated_rewards env) c"
    and fee: "service_fee (c_settings c) \<le> PERCENTAGE_DENOMINATOR" and boot: "\<not> bootstrap_mode (c_settings c)"
    using inv step op_settled_mono [OF _ le] by (simp_all add: op_inv_def)
  have fs: "fund_inv ?fs" and room: "id_room 8 ?fs" and few: "few_items ?fs Waiting" "few_items ?fs UnStaked"
    "type_items ?fs Waiting + type_items ?fs Active \<le> MAX_AFFECTED_USERS"
    using base ready step by (simp_all add: base_inv_def op_ready_def few_items_def)
  obtain us x fs' where r: "swap_waiting_to_active ?m (stop_at_gaslimit env 1) ?fs = Inr (us, ?m - x, fs')" "x \<le> ?m"
    "converts (set us) (type_items ?fs Waiting) Waiting Active x ?fs fs'"
    "(\<forall>k. \<not> stop_at_gaslimit env 1 k) \<longrightarrow> x = min ?m (type_total ?fs Waiting)"
    using swap_waiting_to_active_run [OF fs id_room_mono [OF room] few(1), of ?m "stop_at_gaslimit env 1"] by auto
  have totals: "type_total fs' Waiting + x = type_total ?fs Waiting" "type_total fs' Active = type_total ?fs Active + x"
    "type_total fs' UnStaked = type_total ?fs UnStaked"
    using convertsD(2,3) [OF r(3)] convertsD(4) [OF r(3), of UnStaked] by simp_all
  have plan': "cap_plan (d\<lparr>remaining_swap_waiting_to_active := ?m - x\<rparr>) fs'"
    using plan r(2) totals by (auto simp: cap_plan_def)
  have stop: "\<exists>p j. stop_at_gaslimit env p j" if "x < ?m"
    using that r(4) plan by (auto simp: cap_plan_def)
  have few': "few_items fs' UnStaked" "few_items fs' Active"
    using converts_few [OF r(3) few(2)] convertsD(10) [OF r(3), of Active] few(3) by (simp_all add: few_items_def)
  show ?thesis
    using r(1) step plan' converts_keeps [OF base r(3), of 4] room few' all_types set fee boot stop
    by (auto simp: swap_step_simps)
qed

lemma unstaked_step_ok:
  assumes inv: "op_inv tot (ModifyTotalDelegationCap d) c" and le: "tot \<le> cumulated_rewards env"
    and ready: "op_ready (ModifyTotalDelegationCap d) (c_funds c)" and step: "cap_step d = SwapUnstakedToDeferredPayment"
  shows "\<exists>r. continue_modify_total_delegation_cap_step env d c = Inr r \<and> step_ok env (ModifyTotalDelegationCap d) c r"
proof -
  let ?fs = "c_funds c" and ?m = "remaining_swap_unstaked_to_def_p d"
  have base: "base_inv c" and plan: "cap_plan d ?fs" and set: "op_settled (cumulated_rewards env) c"
    and fee: "service_fee (c_settings c) \<le> PERCENTAGE_DENOMINATOR" and boot: "\<not> bootstrap_mode (c_settings c)"
    and rw: "remaining_swap_waiting_to_active d = 0"
    using inv step op_settled_mono [OF _ le] by (simp_all add: op_inv_def cap_stage_def)
  have fs: "fund_inv ?fs" and room: "id_room 4 ?fs" and few: "few_items ?fs UnStaked" "few_items ?fs Active"
    using base ready step by (simp_all add: base_inv_def op_ready_def few_items_def)
  obtain x fs' where r: "swap_unstaked_to_deferred_payment ?m (stop_at_gaslimit env 2) ?fs = Inr (?m - x, fs')" "x \<le> ?m"
    "converts UNIV (type_items ?fs UnStaked) UnStaked DeferredPayment x ?fs fs'"
    "(\<forall>k. \<not> stop_at_gaslimit env 2 k) \<longrightarrow> x = min ?m (type_total ?fs UnStaked)"
    using unstaked_to_deferred.swap_run [OF fs id_room_mono [OF room] few(1), of ?m "stop_at_gaslimit env 2"] by auto
  have totals: "type_total fs' UnStaked + x = type_total ?fs UnStaked"
    "type_total fs' Active = type_total ?fs Active" "type_total fs' Waiting = type_total ?fs Waiting"
    using convertsD(2) [OF r(3)] convertsD(4) [OF r(3)] by simp_all
  have plan': "cap_plan (d\<lparr>remaining_swap_unstaked_to_def_p := ?m - x\<rparr>) fs'"
    using plan r(2) totals by (auto simp: cap_plan_def)
  have stop: "\<exists>p j. stop_at_gaslimit env p j" if "x < ?m"
    using that r(4) plan by (auto simp: cap_plan_def)
  show ?thesis
    using r(1) step plan' converts_keeps [OF base r(3), of 2] room all_types converts_few [OF r(3) few(2)] set fee boot stop rw
    by (auto simp: swap_step_simps)
qed

lemma active_step_ok:
  assumes inv: "op_inv tot (ModifyTotalDelegationCap d) c" and le: "tot \<le> cumulated_rewards env"
    and ready: "op_ready (ModifyTotalDelegationCap d) (c_funds c)" and step: "cap_step d = SwapActiveToDeferredPayment"
  shows "\<exists>r. continue_modify_total_delegation_cap_step env d c = Inr r \<and> step_ok env (ModifyTotalDelegationCap d) c r"
proof -
  let ?fs = "c_funds c" and ?m = "remaining_swap_active_to_def_p d" and ?n = "us_num_users (c_users c)"
  have base: "base_inv c" and plan: "cap_plan d ?fs" and set: "op_settled (cumulated_rewards env) c"
    and fee: "service_fee (c_settings c) \<le> PERCENTAGE_DENOMINATOR" and boot: "\<not> bootstrap_mode (c_settings c)"
    and rest: "remaining_swap_waiting_to_active d = 0" "remaining_swap_unstaked_to_def_p d = 0"
    using inv step op_settled_mono [OF _ le] by (simp_all add: op_inv_def cap_stage_def)
  have fs: "fund_inv ?fs" and room: "id_room 2 ?fs" and few: "few_items ?fs Active"
    using base ready step by (simp_all add: base_inv_def op_ready_def)
  obtain x fs' where r: "swap_active_to_deferred_payment (block_nonce env) ?m (stop_at_gaslimit env 3) ?fs = Inr (?m - x, fs')"
    "x \<le> ?m" "converts UNIV (type_items ?fs Active) Active DeferredPayment x ?fs fs'"
    "(\<forall>k. \<not> stop_at_gaslimit env 3 k) \<longrightarrow> x = min ?m (type_total ?fs Active)"
    using active_to_deferred.swap_run [OF fs room few, of "block_nonce env" ?m "stop_at_gaslimit env 3"] by auto
  have totals: "type_total fs' Active + x = type_total ?fs Active"
    "type_total fs' UnStaked = type_total ?fs UnStaked" "type_total fs' Waiting = type_total ?fs Waiting"
    using convertsD(2) [OF r(3)] convertsD(4) [OF r(3)] by simp_all
  have plan': "cap_plan (d\<lparr>remaining_swap_active_to_def_p := ?m - x\<rparr>) fs'"
    using plan r(2) totals by (auto simp: cap_plan_def)
  have stop: "\<exists>p j. stop_at_gaslimit env p j" if "x < ?m"
    using that r(4) plan by (auto simp: cap_plan_def)
  note keeps = converts_keeps [OF base r(3), of 1, unfolded mult_1_right, OF room all_types(3,5), simplified]
  let ?st = "(c_settings c)\<lparr>total_delegation_cap := new_delegation_cap d\<rparr>"
  have cap: "x = ?m \<Longrightarrow> cap_inv (c\<lparr>c_funds := fs', c_settings := ?st\<rparr>)"
    using plan' rest boot by (auto simp: cap_plan_def cap_inv_def)
  have rewards: "rewards_inv (cumulated_rewards env) ?st fs' (c_rewards c) ?n" if "x = ?m"
  proof -
    have own: "owned_funds fs' ?n" and fs': "fund_inv fs'"
      using keeps(1) by (simp_all add: base_inv_def)
    have le': "type_total fs' Active \<le> new_delegation_cap d"
      using plan' rest that by (simp add: cap_plan_def)
    obtain tot0 where "tot0 \<le> cumulated_rewards env" "settled tot0 (c_rewards c) ?n"
      using set by (auto simp: op_settled_def)
    then show ?thesis
      using settled_rewards_inv [OF _ _ fs' own, of tot0 "c_rewards c" ?st "cumulated_rewards env"] fee le' by simp
  qed
  show ?thesis
    using r(1,2) step plan' keeps cap rewards rest set fee boot stop
    by (auto simp: swap_step_simps base_inv_def)
qed

lemma cap_step_ok:
  assumes "op_inv tot (ModifyTotalDelegationCap d) c" and "tot \<le> cumulated_rewards env"
    and "op_ready (ModifyTotalDelegationCap d) (c_funds c)"
  shows "\<exists>r. continue_modify_total_delegation_cap_step env d c = Inr r \<and> step_ok env (ModifyTotalDelegationCap d) c r"
  by (cases "cap_step d")
    (blast intro: compute_step_ok waiting_step_ok unstaked_step_ok active_step_ok assms)+

lemma fee_step_ok:
  assumes inv: "op_inv tot (ChangeServiceFee f data) c" and le: "tot \<le> cumulated_rewards env"
    and ready: "op_ready (ChangeServiceFee f data) (c_funds c)"
  shows "\<exists>r. continue_global_operation_step env (ChangeServiceFee f data) c = Inr r \<and>
    step_ok env (ChangeServiceFee f data) c r"
proof -
  let ?n = "us_num_users (c_users c)" and ?T = "cumulated_rewards env" and ?st = "(c_settings c)\<lparr>service_fee := f\<rparr>"
  have base: "base_inv c" and rew: "op_rewards tot data c" and cap: "cap_inv c" and f: "f \<le> PERCENTAGE_DENOMINATOR"
    and boot: "\<not> bootstrap_mode (c_settings c)"
    using inv by (simp_all add: op_inv_def)
  obtain more rw where r: "compute_all_rewards env data c = Inr (more, c\<lparr>c_rewards := rw\<rparr>)"
    "rs_sent rw = rs_sent (c_rewards c)"
    "case more of None \<Rightarrow> settled ?T rw ?n
     | Some data' \<Rightarrow> op_rewards ?T data' (c\<lparr>c_rewards := rw\<rparr>) \<and> (\<exists>j. stop_at_gaslimit env 0 j)"
    using op_rewards_compute [OF base rew le] by blast
  show ?thesis
  proof (cases more)
    case None
    have "rewards_inv ?T ?st (c_funds c) rw ?n"
      using None r(3) base f cap_inv_le [OF cap] by (intro settled_rewards_inv) (auto simp: base_inv_def)
    moreover have "cap_inv (c\<lparr>c_rewards := rw, c_settings := ?st\<rparr>)"
      using cap by (simp add: cap_inv_def)
    moreover have "id_room 1 (c_funds c)"
      using ready by (auto simp: op_ready_def intro: id_room_mono [of 2])
    ultimately show ?thesis
      using None r(1,2) base boot
      by (auto simp: continue_global_operation_step_def step_ok_def op_inv_def op_keeps_def base_inv_def op_ready_def)
  next
    case (Some data')
    then show ?thesis
      using r base boot cap f
      by (auto simp: continue_global_operation_step_def step_ok_def op_inv_def op_keeps_def base_inv_def cap_inv_def)
  qed
qed

lemma operation_step_ok:
  assumes "op_inv tot orc c" and "tot \<le> cumulated_rewards env" and "op_ready orc (c_funds c)" and "orc \<noteq> GlobalOpNone"
  shows "\<exists>r. continue_global_operation_step env orc c = Inr r \<and> step_ok env orc c r"
proof (cases orc)
  case (ModifyTotalDelegationCap d)
  then show ?thesis
    using cap_step_ok assms by (simp add: continue_global_operation_step_def)
qed (use fee_step_ok assms in auto)

text \<open>The loop returns, and what the last step established holds of the whole.\<close>

lemma operation_loop_ok:
  assumes "op_inv tot orc c" and "tot \<le> cumulated_rewards env" and "op_ready orc (c_funds c)" and "orc \<noteq> GlobalOpNone"
  shows "\<exists>r. continue_global_operation_loop env orc c = Inr r \<and> step_ok env orc c r \<and>
    (fst r = Completed \<longrightarrow> fst (snd r) = GlobalOpNone)"
  using assms
proof (induction env orc c arbitrary: tot rule: continue_global_operation_loop.induct)
  case (1 env orc c)
  have none: "\<not> global_op_is_none orc"
    using "1.prems"(4) by (cases orc) (simp_all add: global_op_is_none_def)
  obtain status orc1 c1 where s: "continue_global_operation_step env orc c = Inr (status, orc1, c1)"
    "step_ok env orc c (status, orc1, c1)"
    using operation_step_ok [OF "1.prems"] by auto
  note loop = continue_global_operation_loop.simps [of env orc c]
  show ?case
  proof (cases status)
    case InterruptedBeforeOutOfGas
    then show ?thesis
      using s none by (simp add: loop)
  next
    case Completed
    have c1: "op_inv (cumulated_rewards env) orc1 c1" "op_keeps orc c orc1 c1" "op_ready orc1 (c_funds c1)"
      using s(2) Completed by (simp_all add: step_ok_def)
    have eq: "continue_global_operation_loop env orc c = continue_global_operation_loop env orc1 c1"
      using s(1) none Completed by (simp add: loop)
    show ?thesis
    proof (cases "orc1 = GlobalOpNone")
      case True
      then show ?thesis
        using s(2) Completed
        by (simp add: eq continue_global_operation_loop.simps [of env GlobalOpNone] global_op_is_none_def)
    next
      case False
      obtain r where r: "continue_global_operation_loop env orc1 c1 = Inr r" "step_ok env orc1 c1 r"
        "fst r = Completed \<longrightarrow> fst (snd r) = GlobalOpNone"
        using "1.IH" [OF none s(1) refl refl Completed c1(1) order_refl c1(3) False] by blast
      then have "step_ok env orc c r"
        using op_keeps_trans [OF c1(2)] by (auto simp: step_ok_def)
      then show ?thesis
        using r eq by simp
    qed
  qed
qed

text \<open>The operation as a call sees it.\<close>

lemma continue_operation_ok:
  assumes "op_inv tot orc c" and "tot \<le> cumulated_rewards env" and "op_ready orc (c_funds c)" and "orc \<noteq> GlobalOpNone"
  shows "\<exists>status c'. continue_global_operation env orc c = Inr (status, c') \<and>
    op_inv (cumulated_rewards env) (c_global_op c') c' \<and> op_keeps orc c (c_global_op c') c' \<and>
    (status = Completed \<longleftrightarrow> c_global_op c' = GlobalOpNone) \<and>
    ((\<forall>p k. \<not> stop_at_gaslimit env p k) \<longrightarrow> status = Completed)"
proof -
  obtain status orc' c1 where r: "continue_global_operation_loop env orc c = Inr (status, orc', c1)"
    "step_ok env orc c (status, orc', c1)" "status = Completed \<longrightarrow> orc' = GlobalOpNone"
    using operation_loop_ok [OF assms] by auto
  have store: "op_inv tot' x (c1\<lparr>c_global_op := y\<rparr>) = op_inv tot' x c1"
    "op_keeps x z x' (c1\<lparr>c_global_op := y\<rparr>) = op_keeps x z x' c1" for tot' x x' y z
    by (cases x; simp add: op_inv_def base_inv_def cap_inv_def op_rewards_def op_settled_def op_keeps_def
        split: modify_delegation_cap_step.splits)+
  show ?thesis
    using r by (cases status) (auto simp: continue_global_operation_def store step_ok_def)
qed

end
