(* ===== verification/Reset_Operations.thy ===== *)
theory Reset_Operations
  imports Reset_Invariants
begin

text \<open>
  The effect of the endpoints that start or continue a long operation, from the lemmas on its
  single steps: each returns, and leaves the invariant of the operation that is then under way.
\<close>

section \<open>Between transactions\<close>

text \<open>The invariant of the contract at every moment, operations under way included.\<close>

definition global_inv :: "nat \<Rightarrow> contract \<Rightarrow> bool" where
  "global_inv tot c \<longleftrightarrow>
     (if is_global_op_in_progress c then op_inv tot (c_global_op c) c else contract_inv tot c)"

lemma global_inv_op: "op_inv tot (c_global_op c) c \<Longrightarrow> global_inv tot c"
  by (auto simp: global_inv_def is_global_op_in_progress_iff op_inv_none)

lemma start_change_cap:
  assumes "base_inv c" and "\<not> bootstrap_mode (c_settings c)" and "cap_plan d (c_funds c)"
    and "type_total (c_funds c) Active \<le> total_delegation_cap (c_settings c)"
    and "rewards_inv tot (c_settings c) (c_funds c) (c_rewards c) (us_num_users (c_users c))"
    and "cap_step d = ComputeAllRewards (compute_all_rewards_data_new tot)"
  shows "op_inv tot (ModifyTotalDelegationCap d) c"
  using assms
  by (simp add: op_inv_def op_rewards_def cap_stage_def computed_upto_def compute_all_rewards_data_new_def rewards_inv_def)

text \<open>From the plan to the result.\<close>

lemma change_cap_run:
  assumes "op_inv tot (ModifyTotalDelegationCap d) c" and "tot \<le> cumulated_rewards env"
    and "op_ready (ModifyTotalDelegationCap d) (c_funds c)"
  shows "\<exists>status c'. continue_global_operation env (ModifyTotalDelegationCap d) c = Inr (status, c') \<and>
    global_inv (cumulated_rewards env) c' \<and>
    (status = Completed \<longrightarrow> \<not> is_global_op_in_progress c' \<and> total_delegation_cap (c_settings c') = new_delegation_cap d) \<and>
    ((\<forall>p k. \<not> stop_at_gaslimit env p k) \<longrightarrow> status = Completed) \<and>
    op_keeps (ModifyTotalDelegationCap d) c (c_global_op c') c'"
proof -
  obtain status c' where r: "continue_global_operation env (ModifyTotalDelegationCap d) c = Inr (status, c')"
    "op_inv (cumulated_rewards env) (c_global_op c') c'" "op_keeps (ModifyTotalDelegationCap d) c (c_global_op c') c'"
    "status = Completed \<longleftrightarrow> c_global_op c' = GlobalOpNone"
    "(\<forall>p k. \<not> stop_at_gaslimit env p k) \<longrightarrow> status = Completed"
    using continue_operation_ok [OF assms] by auto
  moreover have "global_inv (cumulated_rewards env) c'"
    by (rule global_inv_op [OF r(2)])
  ultimately show ?thesis
    by (auto simp: op_keeps_def is_global_op_in_progress_iff)
qed

lemma change_cap_ready:
  assumes "id_room 16 fs" and "few_items fs UnStaked" and "type_items fs Waiting + type_items fs Active \<le> MAX_AFFECTED_USERS"
    and "cap_step d = ComputeAllRewards data"
  shows "op_ready (ModifyTotalDelegationCap d) fs"
  using assms by (simp add: op_ready_def)

section \<open>Endpoints\<close>

lemma modify_cap_regular_run:
  assumes "contract_inv tot c" and "env_ok tot env c" and "caller env = sc_owner env"
    and "\<not> is_global_op_in_progress c" and "\<not> bootstrap_mode (c_settings c)"
    and "new_cap \<le> get_user_stake_of_type (c_funds c) USER_STAKE_TOTALS_ID Active +
      get_user_stake_of_type (c_funds c) USER_STAKE_TOTALS_ID Waiting +
      get_user_stake_of_type (c_funds c) USER_STAKE_TOTALS_ID UnStaked"
    and "total_delegation_cap (c_settings c) < new_cap \<Longrightarrow>
      get_user_stake_of_type (c_funds c) USER_STAKE_TOTALS_ID UnStaked = 0"
    and "new_cap < total_delegation_cap (c_settings c) \<Longrightarrow>
      \<exists>x. total_unprotected (sc_balance env) (cumulated_rewards env) (c_funds c) (c_rewards c) = Inr x \<and>
        total_delegation_cap (c_settings c) - new_cap \<le> x"
    and "id_room 16 (c_funds c)" and "few_items (c_funds c) UnStaked"
    and "type_items (c_funds c) Waiting + type_items (c_funds c) Active \<le> MAX_AFFECTED_USERS"
  shows "\<exists>status c'. modify_total_delegation_cap env new_cap c = Inr (status, c') \<and>
    global_inv (cumulated_rewards env) c' \<and>
    (status = Completed \<longrightarrow> \<not> is_global_op_in_progress c' \<and> total_delegation_cap (c_settings c') = new_cap) \<and>
    ((\<forall>p k. \<not> stop_at_gaslimit env p k) \<longrightarrow> status = Completed) \<and>
    op_target (c_global_op c') (c_settings c') = (c_settings c)\<lparr>total_delegation_cap := new_cap\<rparr> \<and>
    op_left (c_global_op c') \<le> new_cap - total_delegation_cap (c_settings c) \<and>
    rs_sent (c_rewards c') = rs_sent (c_rewards c) \<and>
    (\<forall>v. get_user_total_stake (c_funds c') v = get_user_total_stake (c_funds c) v)"
proof -
  let ?T = "cumulated_rewards env" and ?fs = "c_funds c" and ?cap = "total_delegation_cap (c_settings c)"
  have inv: "contract_inv ?T c"
    by (rule contract_inv_arrive [OF assms(1,2)])
  have base: "base_inv c" and cap: "cap_inv c"
    and rew: "rewards_inv ?T (c_settings c) ?fs (c_rewards c) (us_num_users (c_users c))"
    using inv by (simp_all add: contract_inv_def)
  note le = cap_inv_le [OF cap] and eq = cap_inv_regular [OF cap assms(5)]
  have excl: "type_total ?fs Waiting = 0 \<or> type_total ?fs UnStaked = 0"
    using cap assms(5) by (auto simp: cap_inv_def Let_def)
  note guards = assms(3-6) and start = start_change_cap [OF base assms(5) _ le rew]
    and run = change_cap_run [OF _ order_refl change_cap_ready [OF assms(9-11)]]
  consider "new_cap = ?cap" | "?cap < new_cap" | "new_cap < ?cap"
    by linarith
  then show ?thesis
  proof cases
    case 1
    then show ?thesis
      using guards inv
      by (intro exI [of _ Completed] exI [of _ c])
        (simp add: modify_total_delegation_cap_def only_owner_def global_inv_def is_global_op_in_progress_iff)
  next
    case 2
    let ?d = "\<lparr>new_delegation_cap = new_cap, remaining_swap_waiting_to_active = new_cap - ?cap,
      remaining_swap_active_to_def_p = 0, remaining_swap_unstaked_to_def_p = 0,
      cap_step = ComputeAllRewards (compute_all_rewards_data_new ?T)\<rparr>"
    have "cap_plan ?d ?fs"
      using 2 eq excl assms(6) assms(7) [OF 2] by (simp add: cap_plan_def USER_STAKE_TOTALS_ID_def)
    moreover have "modify_total_delegation_cap env new_cap c = continue_global_operation env (ModifyTotalDelegationCap ?d) c"
      using 2 guards assms(7) [OF 2] by (simp add: modify_total_delegation_cap_def only_owner_def Let_def)
    ultimately show ?thesis
      using run [OF start, of ?d] by (auto simp: op_keeps_def)
  next
    case 3
    let ?u = "type_total ?fs UnStaked" and ?x = "?cap - new_cap"
    let ?d = "\<lparr>new_delegation_cap = new_cap, remaining_swap_waiting_to_active = 0,
      remaining_swap_active_to_def_p = ?x - ?u, remaining_swap_unstaked_to_def_p = min ?x ?u,
      cap_step = ComputeAllRewards (compute_all_rewards_data_new ?T)\<rparr>"
    have "cap_plan ?d ?fs"
      using 3 eq excl by (auto simp: cap_plan_def min_def)
    moreover have "modify_total_delegation_cap env new_cap c = continue_global_operation env (ModifyTotalDelegationCap ?d) c"
      using 3 guards assms(8) [OF 3]
      by (auto simp: modify_total_delegation_cap_def only_owner_def Let_def USER_STAKE_TOTALS_ID_def min_def)
    ultimately show ?thesis
      using run [OF start, of ?d] by (auto simp: op_keeps_def)
  qed
qed

lemma modify_cap_bootstrap_run:
  assumes "contract_inv tot c" and "env_ok tot env c" and "caller env = sc_owner env"
    and "\<not> is_global_op_in_progress c" and "bootstrap_mode (c_settings c)"
    and "new_cap \<noteq> get_user_stake_of_type (c_funds c) USER_STAKE_TOTALS_ID Active"
    and "new_cap < get_user_stake_of_type (c_funds c) USER_STAKE_TOTALS_ID Active \<Longrightarrow>
      \<exists>x. total_unprotected (sc_balance env) (cumulated_rewards env) (c_funds c) (c_rewards c) = Inr x \<and>
        get_user_stake_of_type (c_funds c) USER_STAKE_TOTALS_ID Active - new_cap \<le> x"
    and "id_room 16 (c_funds c)" and "few_items (c_funds c) UnStaked"
    and "type_items (c_funds c) Waiting + type_items (c_funds c) Active \<le> MAX_AFFECTED_USERS"
  shows "\<exists>status c'. modify_total_delegation_cap env new_cap c = Inr (status, c') \<and>
    global_inv (cumulated_rewards env) c' \<and>
    (status = Completed \<longrightarrow> \<not> is_global_op_in_progress c' \<and> total_delegation_cap (c_settings c') = new_cap) \<and>
    (bootstrap_mode (c_settings c') \<longleftrightarrow> get_user_stake_of_type (c_funds c) USER_STAKE_TOTALS_ID Active < new_cap) \<and>
    ((\<forall>p k. \<not> stop_at_gaslimit env p k) \<longrightarrow> status = Completed) \<and>
    op_target (c_global_op c') (c_settings c') = (c_settings c)
      \<lparr>total_delegation_cap := new_cap, bootstrap_mode := bootstrap_mode (c_settings c')\<rparr> \<and>
    op_left (c_global_op c') = 0 \<and> rs_sent (c_rewards c') = rs_sent (c_rewards c) \<and>
    (\<forall>v. get_user_total_stake (c_funds c') v = get_user_total_stake (c_funds c) v)"
proof -
  let ?T = "cumulated_rewards env" and ?fs = "c_funds c" and ?a = "type_total (c_funds c) Active"
  have inv: "contract_inv ?T c"
    by (rule contract_inv_arrive [OF assms(1,2)])
  have base: "base_inv c" and cap: "cap_inv c" and T: "?T = 0"
    and rew: "rewards_inv ?T (c_settings c) ?fs (c_rewards c) (us_num_users (c_users c))"
    using inv assms(5) unfolding contract_inv_def by blast+
  note boot = cap_inv_boot [OF cap assms(5)]
  consider "?a < new_cap" | "new_cap < ?a"
    using assms(6) by (metis USER_STAKE_TOTALS_ID_def get_user_stake_of_type_totals(1) nat_neq_iff)
  then show ?thesis
  proof cases
    case 1
    let ?st = "(c_settings c)\<lparr>total_delegation_cap := new_cap\<rparr>" and ?n = "us_num_users (c_users c)"
    have "pending_rewards 0 st ?fs (c_rewards c) u = 0" for st u
      by (simp add: pending_rewards_def)
    then have "rewards_inv ?T ?st ?fs (c_rewards c) ?n"
      using rew T by (simp add: rewards_inv_def reward_liability_def)
    then have "contract_inv ?T (c\<lparr>c_settings := ?st\<rparr>)"
      using base boot T 1 assms(5) by (simp add: contract_inv_def base_inv_def cap_inv_def)
    moreover have "modify_total_delegation_cap env new_cap c = Inr (Completed, c\<lparr>c_settings := ?st\<rparr>)"
      using assms(3-5) boot 1 by (simp add: modify_total_delegation_cap_def only_owner_def USER_STAKE_TOTALS_ID_def Let_def)
    ultimately show ?thesis
      using assms(4,5) 1
      by (auto simp: global_inv_def is_global_op_in_progress_iff USER_STAKE_TOTALS_ID_def intro!: settings.equality)
  next
    case 2
    let ?c = "c\<lparr>c_settings := (c_settings c)\<lparr>bootstrap_mode := False\<rparr>\<rparr>"
    let ?d = "\<lparr>new_delegation_cap = new_cap, remaining_swap_waiting_to_active = 0,
      remaining_swap_active_to_def_p = ?a - new_cap, remaining_swap_unstaked_to_def_p = 0,
      cap_step = ComputeAllRewards (compute_all_rewards_data_new ?T)\<rparr>"
    have "cap_plan ?d ?fs"
      using 2 boot by (simp add: cap_plan_def)
    then have op: "op_inv ?T (ModifyTotalDelegationCap ?d) ?c"
      using base rew boot by (intro start_change_cap) (simp_all add: base_inv_def)
    obtain x where x: "total_unprotected (sc_balance env) ?T ?fs (c_rewards c) = Inr x" "?a - new_cap \<le> x"
      using assms(7) 2 by (auto simp: USER_STAKE_TOTALS_ID_def)
    have eq: "modify_total_delegation_cap env new_cap c = continue_global_operation env (ModifyTotalDelegationCap ?d) ?c"
      using assms(3-5) boot 2 x
      by (auto simp: modify_total_delegation_cap_def only_owner_def USER_STAKE_TOTALS_ID_def Let_def)
    have ready: "op_ready (ModifyTotalDelegationCap ?d) ?fs"
      by (rule change_cap_ready [OF assms(8-10)]) simp
    obtain status c' where r: "continue_global_operation env (ModifyTotalDelegationCap ?d) ?c = Inr (status, c')"
      "global_inv ?T c'"
      "status = Completed \<longrightarrow> \<not> is_global_op_in_progress c' \<and> total_delegation_cap (c_settings c') = new_cap"
      "(\<forall>p k. \<not> stop_at_gaslimit env p k) \<longrightarrow> status = Completed"
      "op_keeps (ModifyTotalDelegationCap ?d) ?c (c_global_op c') c'"
      using change_cap_run [OF op order_refl] ready by auto
    have target: "op_target (c_global_op c') (c_settings c') = (c_settings c)\<lparr>bootstrap_mode := False, total_delegation_cap := new_cap\<rparr>"
      using r(5) by (simp add: op_keeps_def)
    then have "\<not> bootstrap_mode (c_settings c')"
      using op_target_simps(1) [of "c_global_op c'" "c_settings c'"] by simp
    then show ?thesis
      using eq 2 r target by (auto simp: USER_STAKE_TOTALS_ID_def op_keeps_def)
  qed
qed

lemma continue_endpoint_run:
  assumes "global_inv tot c" and "is_global_op_in_progress c" and "tot \<le> cumulated_rewards env"
    and "check_feature_on env ''continueGlobalOperation'' True = Inr ()" and "op_ready (c_global_op c) (c_funds c)"
  shows "\<exists>status c'. continue_global_operation_endpoint env c = Inr (status, c') \<and>
    global_inv (cumulated_rewards env) c' \<and>
    (status = Completed \<longleftrightarrow> \<not> is_global_op_in_progress c') \<and>
    (status = Completed \<longrightarrow> contract_inv (cumulated_rewards env) c' \<and>
       c_settings c' = op_target (c_global_op c) (c_settings c)) \<and>
    ((\<forall>p k. \<not> stop_at_gaslimit env p k) \<longrightarrow> status = Completed) \<and>
    op_target (c_global_op c') (c_settings c') = op_target (c_global_op c) (c_settings c) \<and>
    op_left (c_global_op c') \<le> op_left (c_global_op c) \<and> rs_sent (c_rewards c') = rs_sent (c_rewards c) \<and>
    (\<forall>v. get_user_total_stake (c_funds c') v = get_user_total_stake (c_funds c) v)"
proof -
  have "op_inv tot (c_global_op c) c" "c_global_op c \<noteq> GlobalOpNone"
    using assms(1,2) by (simp_all add: global_inv_def is_global_op_in_progress_iff)
  from continue_operation_ok [OF this(1) assms(3,5) this(2)]
  obtain status c' where r: "continue_global_operation env (c_global_op c) c = Inr (status, c')"
    "op_inv (cumulated_rewards env) (c_global_op c') c'" "op_keeps (c_global_op c) c (c_global_op c') c'"
    "status = Completed \<longleftrightarrow> c_global_op c' = GlobalOpNone"
    "(\<forall>p k. \<not> stop_at_gaslimit env p k) \<longrightarrow> status = Completed"
    by auto
  then show ?thesis
    using assms(4) global_inv_op [OF r(2)]
    by (auto simp: continue_global_operation_endpoint_def is_global_op_in_progress_iff op_keeps_def op_inv_none
        intro!: exI [of _ status] exI [of _ c'])
qed

lemma set_service_fee_run:
  assumes "contract_inv tot c" and "env_ok tot env c" and "\<not> is_global_op_in_progress c"
    and "new_fee \<le> PERCENTAGE_DENOMINATOR" and "id_room 2 (c_funds c)"
  shows "\<exists>status c'. set_service_fee_endpoint env new_fee c = Inr (status, c') \<and>
    global_inv (cumulated_rewards env) c' \<and>
    (status = Completed \<longrightarrow> \<not> is_global_op_in_progress c' \<and> c_settings c' = (c_settings c)\<lparr>service_fee := new_fee\<rparr>) \<and>
    ((\<forall>p k. \<not> stop_at_gaslimit env p k) \<longrightarrow> status = Completed) \<and>
    op_target (c_global_op c') (c_settings c') = (c_settings c)\<lparr>service_fee := new_fee\<rparr> \<and>
    op_left (c_global_op c') = 0 \<and> rs_sent (c_rewards c') = rs_sent (c_rewards c) \<and>
    (\<forall>v. get_user_total_stake (c_funds c') v = get_user_total_stake (c_funds c) v)"
proof -
  let ?T = "cumulated_rewards env" and ?data = "compute_all_rewards_data_new (cumulated_rewards env)"
  have inv: "contract_inv ?T c"
    by (rule contract_inv_arrive [OF assms(1,2)])
  have base: "base_inv c" and cap: "cap_inv c"
    and rew: "rewards_inv ?T (c_settings c) (c_funds c) (c_rewards c) (us_num_users (c_users c))"
    using inv by (simp_all add: contract_inv_def)
  consider "service_fee (c_settings c) = new_fee" | "service_fee (c_settings c) \<noteq> new_fee" "bootstrap_mode (c_settings c)"
    | "service_fee (c_settings c) \<noteq> new_fee" "\<not> bootstrap_mode (c_settings c)"
    by blast
  then show ?thesis
  proof cases
    case 1
    then have "set_service_fee_endpoint env new_fee c = Inr (Completed, c)"
      using assms(3,4) by (simp add: set_service_fee_endpoint_def)
    then show ?thesis
      using 1 assms(3) inv by (auto simp: global_inv_def is_global_op_in_progress_iff)
  next
    case 2
    let ?st = "(c_settings c)\<lparr>service_fee := new_fee\<rparr>"
    have T: "?T = 0"
      using inv 2 unfolding contract_inv_def by blast
    have "pending_rewards 0 st (c_funds c) (c_rewards c) u = 0" for st u
      by (simp add: pending_rewards_def)
    then have "rewards_inv ?T ?st (c_funds c) (c_rewards c) (us_num_users (c_users c))"
      using rew assms(4) by (simp add: T rewards_inv_def reward_liability_def)
    then have "contract_inv ?T (c\<lparr>c_settings := ?st\<rparr>)"
      using base cap T by (simp add: contract_inv_def base_inv_def cap_inv_def)
    then show ?thesis
      using 2 assms(3,4) by (simp add: set_service_fee_endpoint_def global_inv_def is_global_op_in_progress_iff)
  next
    case 3
    have op: "op_inv ?T (ChangeServiceFee new_fee ?data) c"
      using 3(2) base cap cap_inv_le [OF cap] rew assms(4)
      by (simp add: op_inv_def op_rewards_def computed_upto_def compute_all_rewards_data_new_def)
    have ready: "op_ready (ChangeServiceFee new_fee ?data) (c_funds c)"
      using assms(5) by (simp add: op_ready_def)
    obtain status c' where r: "continue_global_operation env (ChangeServiceFee new_fee ?data) c = Inr (status, c')"
      "op_inv ?T (c_global_op c') c'" "op_keeps (ChangeServiceFee new_fee ?data) c (c_global_op c') c'"
      "status = Completed \<longleftrightarrow> c_global_op c' = GlobalOpNone"
      "(\<forall>p k. \<not> stop_at_gaslimit env p k) \<longrightarrow> status = Completed"
      using continue_operation_ok [OF op order_refl ready] by auto
    have "set_service_fee_endpoint env new_fee c = Inr (status, c')"
      using 3 assms(3,4) r(1) by (simp add: set_service_fee_endpoint_def)
    then show ?thesis
      using r global_inv_op [OF r(2)] by (auto simp: is_global_op_in_progress_iff op_keeps_def)
  qed
qed

end
