(* ===== verification/Reset_Termination.thy ===== *)
theory Reset_Termination
  imports Fund_Progress Reset_Operations
begin

text \<open>
  Long operations come to an end: a measure of what an interrupted operation still has to do,
  in users and items, which every further call with a little gas decreases. While no new rewards
  arrive, which would start the computation of the rewards again, an operation is complete after
  at most as many calls.
\<close>

section \<open>Measures\<close>

definition users_left :: "nat \<Rightarrow> nat \<Rightarrow> compute_all_rewards_data \<Rightarrow> nat" where
  "users_left tot n data = (if rewards_checkpoint data = tot then n - last_id data else n)"

text \<open>
  The work left: stages, users whose rewards are to be computed, and items to be swapped, those
  that the swap from the waiting list may add to the active funds included.
\<close>

fun op_work :: "nat \<Rightarrow> global_op_checkpoint \<Rightarrow> contract \<Rightarrow> nat" where
  "op_work tot GlobalOpNone c = 0"
| "op_work tot (ChangeServiceFee f data) c = Suc (users_left tot (us_num_users (c_users c)) data)"
| "op_work tot (ModifyTotalDelegationCap d) c =
     (let w = type_items (c_funds c) Waiting; u = type_items (c_funds c) UnStaked; a = type_items (c_funds c) Active in
      case cap_step d of
        ComputeAllRewards data \<Rightarrow> users_left tot (us_num_users (c_users c)) data + (2 * w + u + a + 5)
      | SwapWaitingToActive \<Rightarrow> 2 * w + u + a + 4
      | SwapUnstakedToDeferredPayment \<Rightarrow> u + a + 2
      | SwapActiveToDeferredPayment \<Rightarrow> a + 1)"

text \<open>The ids used when the operation is complete, at most.\<close>

fun op_ids :: "global_op_checkpoint \<Rightarrow> fund_storage \<Rightarrow> nat" where
  "op_ids (ModifyTotalDelegationCap d) fs =
     (let w = type_items fs Waiting; u = type_items fs UnStaked; a = type_items fs Active in
      fs_max_id fs +
      (case cap_step d of
         SwapUnstakedToDeferredPayment \<Rightarrow> u + a + 2
       | SwapActiveToDeferredPayment \<Rightarrow> a + 1
       | _ \<Rightarrow> 2 * w + u + a + 4))"
| "op_ids _ fs = fs_max_id fs"

lemma fs_max_op_ids: "fs_max_id fs \<le> op_ids orc fs"
  by (cases orc) (simp_all add: Let_def)

lemma op_ready_ids:
  assumes "16 * Suc (op_ids orc fs) < usize_max" and "op_few orc fs"
  shows "op_ready orc fs"
proof -
  have "(2::nat) ^ steps_left orc \<le> 2 ^ 4"
    by (rule power_increasing) (cases orc; auto split: modify_delegation_cap_step.splits)+
  then have "2 ^ steps_left orc * Suc (fs_max_id fs) \<le> 16 * Suc (op_ids orc fs)"
    using fs_max_op_ids [of fs orc] by (intro mult_le_mono) simp_all
  then show ?thesis
    using assms by (simp add: op_ready_def id_room_def)
qed

text \<open>Bounds that do not depend on the stage.\<close>

lemma op_work_le:
  "op_work tot orc c \<le> us_num_users (c_users c) + 2 * type_items (c_funds c) Waiting + type_items (c_funds c) UnStaked +
     type_items (c_funds c) Active + 5"
  by (cases orc) (auto simp: users_left_def Let_def split: modify_delegation_cap_step.splits)

lemma op_ids_le: "op_ids orc fs \<le> fs_max_id fs + 2 * type_items fs Waiting + type_items fs UnStaked + type_items fs Active + 4"
  by (cases orc) (auto simp: Let_def split: modify_delegation_cap_step.splits)

section \<open>One step\<close>

text \<open>The loop with which an operation goes on, by its number in the checks of the gas left.\<close>

fun op_loop :: "global_op_checkpoint \<Rightarrow> nat" where
  "op_loop (ModifyTotalDelegationCap d) = (case cap_step d of
     ComputeAllRewards _ \<Rightarrow> 0 | SwapWaitingToActive \<Rightarrow> 1 | SwapUnstakedToDeferredPayment \<Rightarrow> 2 | SwapActiveToDeferredPayment \<Rightarrow> 3)"
| "op_loop _ = 0"

text \<open>
  A step leaves no more work and no more ids to give out; it leaves less work when it completes
  its stage, or is not interrupted at once.
\<close>

definition gets_on :: "nat \<Rightarrow> bool \<Rightarrow> global_op_checkpoint \<Rightarrow> contract \<Rightarrow> step_result \<Rightarrow> bool" where
  "gets_on tot go orc c r \<longleftrightarrow> (case r of (status, orc', c') \<Rightarrow>
     op_ids orc' (c_funds c') \<le> op_ids orc (c_funds c) \<and> op_work tot orc' c' \<le> op_work tot orc c \<and>
     (status = Completed \<or> go \<longrightarrow> op_work tot orc' c' < op_work tot orc c) \<and>
     (status = InterruptedBeforeOutOfGas \<longrightarrow> op_few orc' (c_funds c')))"

lemma gets_on_trans:
  "gets_on tot go orc c (Completed, orc1, c1) \<Longrightarrow> gets_on tot go' orc1 c1 r \<Longrightarrow> gets_on tot True orc c r"
  by (auto simp: gets_on_def)

lemma op_work_store [simp]: "op_work tot orc (c\<lparr>c_global_op := x\<rparr>) = op_work tot orc c"
  by (cases orc) (simp_all cong: modify_delegation_cap_step.case_cong)

lemma gets_on_store [simp]: "gets_on tot go orc c (s, orc', c'\<lparr>c_global_op := x\<rparr>) = gets_on tot go orc c (s, orc', c')"
  by (simp add: gets_on_def)

lemma compute_all_rewards_loop_users:
  "compute_all_rewards_loop env n k data c = Inr (b, data', c') \<Longrightarrow> b \<Longrightarrow> last_id data < n"
  by (simp add: compute_all_rewards_loop.simps [of env n k data c] split: if_splits)

lemma compute_all_rewards_gets_on:
  assumes "base_inv c" and "op_rewards tot data c" and tot: "cumulated_rewards env = tot"
    and run: "compute_all_rewards env data c = Inr (Some data', c')"
  shows "users_left tot (us_num_users (c_users c)) data' \<le> users_left tot (us_num_users (c_users c)) data"
    and "\<not> stop_at_gaslimit env 0 0 \<Longrightarrow>
      users_left tot (us_num_users (c_users c)) data' < users_left tot (us_num_users (c_users c)) data"
proof -
  let ?n = "us_num_users (c_users c)"
  define data0 where "data0 = (if rewards_checkpoint data \<noteq> tot
    then data\<lparr>last_id := 0, sum_unclaimed := 0, rewards_checkpoint := tot\<rparr> else data)"
  have upto: "computed_upto ?n (c_rewards c) data0" "rewards_checkpoint data0 = tot"
    using assms(2) by (auto simp: data0_def op_rewards_def computed_upto_def)
  have hyps: "fund_inv (c_funds c)" "type_total (c_funds c) Active \<le> total_delegation_cap (c_settings c)"
    "rewards_inv tot (c_settings c) (c_funds c) (c_rewards c) ?n"
    using assms(1,2) by (simp_all add: base_inv_def op_rewards_def)
  have loop: "compute_all_rewards_loop env ?n 0 data0 c = Inr (True, data', c')"
    using run by (auto simp: compute_all_rewards_def data0_def tot bind_res_eq_Inr Let_def split: if_splits)
  have more: "last_id data0 < ?n"
    using compute_all_rewards_loop_users [OF loop] by simp
  obtain b data1 rw where r: "compute_all_rewards_loop env ?n 0 data0 c = Inr (b, data1, c\<lparr>c_rewards := rw\<rparr>)"
    "rewards_checkpoint data1 = tot" "last_id data0 \<le> last_id data1" "last_id data0 < ?n \<longrightarrow> \<not> stop_at_gaslimit env 0 0 \<longrightarrow> last_id data0 < last_id data1"
    using compute_all_rewards_loop_run [OF hyps(1,2) hyps(3) [folded tot] upto(1) upto(2) [folded tot], of 0] tot by blast
  then have "data1 = data'" "c' = c\<lparr>c_rewards := rw\<rparr>"
    using loop by simp_all
  then show "users_left tot ?n data' \<le> users_left tot ?n data"
    "\<not> stop_at_gaslimit env 0 0 \<Longrightarrow> users_left tot ?n data' < users_left tot ?n data"
    using r(2-4) more by (auto simp: users_left_def data0_def split: if_splits)
qed

lemma fee_gets_on:
  assumes inv: "op_inv tot (ChangeServiceFee f data) c" and tot: "cumulated_rewards env = tot"
    and run: "continue_global_operation_step env (ChangeServiceFee f data) c = Inr r"
  shows "gets_on tot (\<not> stop_at_gaslimit env 0 0) (ChangeServiceFee f data) c r"
proof -
  have base: "base_inv c" and rew: "op_rewards tot data c"
    using inv by (simp_all add: op_inv_def)
  obtain more rw where m: "compute_all_rewards env data c = Inr (more, c\<lparr>c_rewards := rw\<rparr>)"
    using op_rewards_compute [OF base rew, of env] tot by blast
  then show ?thesis
    using run compute_all_rewards_gets_on [OF base rew tot]
    by (cases more) (auto simp: continue_global_operation_step_def gets_on_def)
qed

lemma compute_step_gets_on:
  assumes inv: "op_inv tot (ModifyTotalDelegationCap d) c" and tot: "cumulated_rewards env = tot"
    and ready: "op_ready (ModifyTotalDelegationCap d) (c_funds c)" and step: "cap_step d = ComputeAllRewards data"
    and run: "continue_modify_total_delegation_cap_step env d c = Inr r"
  shows "gets_on tot (\<not> stop_at_gaslimit env 0 0) (ModifyTotalDelegationCap d) c r"
proof -
  have base: "base_inv c" and rew: "op_rewards tot data c"
    using inv step by (simp_all add: op_inv_def)
  obtain more rw where m: "compute_all_rewards env data c = Inr (more, c\<lparr>c_rewards := rw\<rparr>)"
    using op_rewards_compute [OF base rew, of env] tot by blast
  then show ?thesis
    using run step ready compute_all_rewards_gets_on [OF base rew tot]
    by (cases more) (auto simp: continue_modify_total_delegation_cap_step_def gets_on_def op_ready_def)
qed

lemma counts_keptD:
  assumes "counts_kept t t' m r go s s'" and "t \<noteq> t'" and "m \<le> type_total s t"
  shows "type_items s' t + fs_max_id s' \<le> type_items s t + fs_max_id s + (if r = 0 then 1 else 0)"
    and "type_items s' t + type_items s' t' \<le> type_items s t + type_items s t' + (if r = 0 then 1 else 0)"
    and "type_items s' t \<le> type_items s t" and "go \<longrightarrow> 0 < r \<longrightarrow> type_items s' t < type_items s t"
    and "q \<noteq> t' \<Longrightarrow> type_items s' q \<le> type_items s q"
  using assms by (auto simp: counts_kept_def)

lemma waiting_step_gets_on:
  assumes inv: "op_inv tot (ModifyTotalDelegationCap d) c"
    and ready: "op_ready (ModifyTotalDelegationCap d) (c_funds c)" and step: "cap_step d = SwapWaitingToActive"
    and run: "continue_modify_total_delegation_cap_step env d c = Inr r"
  shows "gets_on tot (\<not> stop_at_gaslimit env 1 0) (ModifyTotalDelegationCap d) c r"
proof -
  let ?fs = "c_funds c" and ?m = "remaining_swap_waiting_to_active d"
  have fs: "fund_inv ?fs" and room: "id_room 8 ?fs" and few: "few_items ?fs Waiting" "few_items ?fs UnStaked"
    "type_items ?fs Waiting + type_items ?fs Active \<le> MAX_AFFECTED_USERS" and m: "?m \<le> type_total ?fs Waiting"
    using inv ready step by (simp_all add: op_inv_def base_inv_def op_ready_def few_items_def cap_plan_def)
  obtain us rest fs' where swap: "swap_waiting_to_active ?m (stop_at_gaslimit env 1) ?fs = Inr (us, rest, fs')"
    using run step by (auto simp: continue_modify_total_delegation_cap_step_def bind_res_eq_Inr)
  have counts: "counts_kept Waiting Active ?m rest (\<not> stop_at_gaslimit env 1 0) ?fs fs'"
    using swap_waiting_to_active_counts [OF fs id_room_mono [OF room] few(1) swap] by simp
  note kept = counts_keptD(1-4) [OF counts _ m, simplified] counts_keptD(5) [OF counts _ m, of UnStaked, simplified]
  show ?thesis
    using kept run swap step few
    by (auto simp: continue_modify_total_delegation_cap_step_def gets_on_def few_items_def Let_def
        split: if_splits)
qed

lemma unstaked_step_gets_on:
  assumes inv: "op_inv tot (ModifyTotalDelegationCap d) c"
    and ready: "op_ready (ModifyTotalDelegationCap d) (c_funds c)" and step: "cap_step d = SwapUnstakedToDeferredPayment"
    and run: "continue_modify_total_delegation_cap_step env d c = Inr r"
  shows "gets_on tot (\<not> stop_at_gaslimit env 2 0) (ModifyTotalDelegationCap d) c r"
proof -
  let ?fs = "c_funds c" and ?m = "remaining_swap_unstaked_to_def_p d"
  have fs: "fund_inv ?fs" and room: "id_room 4 ?fs" and few: "few_items ?fs UnStaked" "few_items ?fs Active"
    and m: "?m \<le> type_total ?fs UnStaked"
    using inv ready step by (simp_all add: op_inv_def base_inv_def op_ready_def cap_plan_def)
  obtain rest fs' where swap: "swap_unstaked_to_deferred_payment ?m (stop_at_gaslimit env 2) ?fs = Inr (rest, fs')"
    using run step by (auto simp: continue_modify_total_delegation_cap_step_def bind_res_eq_Inr)
  have counts: "counts_kept UnStaked DeferredPayment ?m rest (\<not> stop_at_gaslimit env 2 0) ?fs fs'"
    using swap_unstaked_to_deferred_counts [OF fs id_room_mono [OF room] few(1) swap] by simp
  note kept = counts_keptD(1-4) [OF counts _ m, simplified] counts_keptD(5) [OF counts _ m, of Active, simplified]
  show ?thesis
    using kept run swap step few
    by (auto simp: continue_modify_total_delegation_cap_step_def gets_on_def few_items_def Let_def
        split: if_splits)
qed

lemma active_step_gets_on:
  assumes inv: "op_inv tot (ModifyTotalDelegationCap d) c"
    and ready: "op_ready (ModifyTotalDelegationCap d) (c_funds c)" and step: "cap_step d = SwapActiveToDeferredPayment"
    and run: "continue_modify_total_delegation_cap_step env d c = Inr r"
  shows "gets_on tot (\<not> stop_at_gaslimit env 3 0) (ModifyTotalDelegationCap d) c r"
proof -
  let ?fs = "c_funds c" and ?m = "remaining_swap_active_to_def_p d"
  have fs: "fund_inv ?fs" and room: "id_room 2 ?fs" and few: "few_items ?fs Active"
    and m: "?m \<le> type_total ?fs Active"
    using inv ready step by (simp_all add: op_inv_def base_inv_def op_ready_def cap_plan_def)
  obtain rest fs' where swap: "swap_active_to_deferred_payment (block_nonce env) ?m (stop_at_gaslimit env 3) ?fs = Inr (rest, fs')"
    using run step by (auto simp: continue_modify_total_delegation_cap_step_def bind_res_eq_Inr)
  have counts: "counts_kept Active DeferredPayment ?m rest (\<not> stop_at_gaslimit env 3 0) ?fs fs'"
    using swap_active_to_deferred_counts [OF fs room few swap] by simp
  note kept = counts_keptD(1-4) [OF counts _ m, simplified] counts_keptD(5) [OF counts _ m, of Active, simplified]
  show ?thesis
    using kept run swap step few
    by (auto simp: continue_modify_total_delegation_cap_step_def gets_on_def few_items_def Let_def
        split: if_splits)
qed

lemma operation_step_gets_on:
  assumes "op_inv tot orc c" and "cumulated_rewards env = tot" and "op_ready orc (c_funds c)" and "orc \<noteq> GlobalOpNone"
    and run: "continue_global_operation_step env orc c = Inr r"
  shows "gets_on tot (\<not> stop_at_gaslimit env (op_loop orc) 0) orc c r"
proof (cases orc)
  case (ModifyTotalDelegationCap d)
  then have "continue_modify_total_delegation_cap_step env d c = Inr r"
    using run by (simp add: continue_global_operation_step_def)
  with ModifyTotalDelegationCap assms show ?thesis
    using compute_step_gets_on [of tot d c env _ r] waiting_step_gets_on [of tot d c env r]
      unstaked_step_gets_on [of tot d c env r] active_step_gets_on [of tot d c env r]
    by (cases "cap_step d") auto
next
  case (ChangeServiceFee f data)
  then show ?thesis
    using fee_gets_on assms by simp
qed (use assms in simp)

section \<open>One call\<close>

lemma operation_loop_gets_on:
  assumes "op_inv tot orc c" and "cumulated_rewards env = tot" and "op_ready orc (c_funds c)" and "orc \<noteq> GlobalOpNone"
    and "continue_global_operation_loop env orc c = Inr r"
  shows "gets_on tot (\<not> stop_at_gaslimit env (op_loop orc) 0) orc c r"
  using assms
proof (induction env orc c rule: continue_global_operation_loop.induct)
  case (1 env orc c)
  have none: "\<not> global_op_is_none orc"
    using "1.prems"(4) by (cases orc) (simp_all add: global_op_is_none_def)
  obtain status orc1 c1 where s: "continue_global_operation_step env orc c = Inr (status, orc1, c1)"
    "step_ok env orc c (status, orc1, c1)"
    using operation_step_ok [OF "1.prems"(1) _ "1.prems"(3,4), of env] "1.prems"(2) by auto
  have on: "gets_on tot (\<not> stop_at_gaslimit env (op_loop orc) 0) orc c (status, orc1, c1)"
    by (rule operation_step_gets_on [OF "1.prems"(1-4) s(1)])
  note loop = "1.prems"(5) [unfolded continue_global_operation_loop.simps [of env orc c]]
  show ?case
  proof (cases "status = Completed \<and> orc1 \<noteq> GlobalOpNone")
    case True
    have c1: "op_inv tot orc1 c1" "op_ready orc1 (c_funds c1)"
      using s(2) True "1.prems"(2) by (simp_all add: step_ok_def)
    have "gets_on tot (\<not> stop_at_gaslimit env (op_loop orc1) 0) orc1 c1 r"
      using "1.IH" [OF none s(1) refl refl _ c1(1) "1.prems"(2) c1(2)] True loop s(1) none by simp
    then show ?thesis
      using gets_on_trans on True by (cases r) (auto simp: gets_on_def)
  next
    case False
    then have "r = (status, orc1, c1)"
      using loop s(1) none
      by (cases status) (auto simp: continue_global_operation_loop.simps [of env GlobalOpNone] global_op_is_none_def)
    then show ?thesis
      using on by simp
  qed
qed

text \<open>
  What a call relies on: no new rewards, enough unused ids and few enough items. An interrupted
  call leaves all this for the next, and less work.
\<close>

definition op_prepared :: "nat \<Rightarrow> contract \<Rightarrow> bool" where
  "op_prepared tot c \<longleftrightarrow> global_inv tot c \<and> op_few (c_global_op c) (c_funds c) \<and>
     16 * Suc (op_ids (c_global_op c) (c_funds c)) < usize_max"

lemma continue_call_gets_on:
  assumes prep: "op_prepared tot c" and prog: "is_global_op_in_progress c" and tot: "cumulated_rewards env = tot"
    and on: "check_feature_on env ''continueGlobalOperation'' True = Inr ()"
    and go: "\<not> stop_at_gaslimit env (op_loop (c_global_op c)) 0"
  shows "\<exists>status c'. continue_global_operation_endpoint env c = Inr (status, c') \<and>
    op_keeps (c_global_op c) c (c_global_op c') c' \<and>
    (if is_global_op_in_progress c'
     then op_prepared tot c' \<and> op_work tot (c_global_op c') c' < op_work tot (c_global_op c) c
     else contract_inv tot c')"
proof -
  have inv: "op_inv tot (c_global_op c) c" and some: "c_global_op c \<noteq> GlobalOpNone"
    and ready: "op_ready (c_global_op c) (c_funds c)"
    using prep prog op_ready_ids by (simp_all add: op_prepared_def global_inv_def is_global_op_in_progress_iff)
  obtain status c' where r: "continue_global_operation env (c_global_op c) c = Inr (status, c')"
    "op_inv tot (c_global_op c') c'" "op_keeps (c_global_op c) c (c_global_op c') c'"
    "status = Completed \<longleftrightarrow> c_global_op c' = GlobalOpNone"
    using continue_operation_ok [OF inv _ ready some, of env] tot by auto
  obtain orc1 c1 where l: "continue_global_operation_loop env (c_global_op c) c = Inr (status, orc1, c1)"
    "c' = c1\<lparr>c_global_op := orc1\<rparr>"
    using r(1) by (auto simp: continue_global_operation_def bind_res_eq_Inr)
  have "gets_on tot True (c_global_op c) c (status, c_global_op c', c')"
    using operation_loop_gets_on [OF inv tot ready some l(1)] go by (simp add: l(2))
  then show ?thesis
    using r on prep global_inv_op [OF r(2)]
    by (cases status) (auto simp: continue_global_operation_endpoint_def is_global_op_in_progress_iff gets_on_def
        op_prepared_def op_inv_none)
qed

section \<open>A sequence of calls\<close>

fun continue_calls :: "sc_env list \<Rightarrow> contract \<Rightarrow> contract res" where
  "continue_calls [] c = Inr c"
| "continue_calls (env # envs) c =
     (if is_global_op_in_progress c
      then bind_res (continue_global_operation_endpoint env c) (\<lambda>(status, c'). continue_calls envs c')
      else Inr c)"

text \<open>Every call that is made has the gas for the first item or user of the loop it goes on with.\<close>

fun gas_for_calls :: "sc_env list \<Rightarrow> contract \<Rightarrow> bool" where
  "gas_for_calls [] c \<longleftrightarrow> True"
| "gas_for_calls (env # envs) c \<longleftrightarrow>
     (is_global_op_in_progress c \<longrightarrow> \<not> stop_at_gaslimit env (op_loop (c_global_op c)) 0 \<and>
       (case continue_global_operation_endpoint env c of Inl e \<Rightarrow> True | Inr (status, c') \<Rightarrow> gas_for_calls envs c'))"

lemma gas_for_calls_first:
  "\<forall>env\<in>set envs. \<forall>p. \<not> stop_at_gaslimit env p 0 \<Longrightarrow> gas_for_calls envs c"
  by (induction envs c rule: gas_for_calls.induct) (auto split: sum.splits)

lemma continue_calls_end:
  assumes "op_prepared tot c" and "is_global_op_in_progress c"
    and "\<forall>env\<in>set envs. cumulated_rewards env = tot \<and> check_feature_on env ''continueGlobalOperation'' True = Inr ()"
    and "gas_for_calls envs c" and "op_work tot (c_global_op c) c \<le> length envs"
  shows "\<exists>c'. continue_calls envs c = Inr c' \<and> \<not> is_global_op_in_progress c' \<and> contract_inv tot c' \<and>
    op_keeps (c_global_op c) c (c_global_op c') c'"
  using assms
proof (induction envs arbitrary: c)
  case Nil
  then show ?case
    by (cases "c_global_op c") (auto simp: is_global_op_in_progress_iff Let_def split: modify_delegation_cap_step.splits)
next
  case (Cons env envs)
  then obtain status c' where r: "continue_global_operation_endpoint env c = Inr (status, c')"
    "op_keeps (c_global_op c) c (c_global_op c') c'"
    "if is_global_op_in_progress c'
     then op_prepared tot c' \<and> op_work tot (c_global_op c') c' < op_work tot (c_global_op c) c
     else contract_inv tot c'"
    using continue_call_gets_on [of tot c env] by auto
  have eq: "continue_calls (env # envs) c = continue_calls envs c'"
    using Cons.prems(2) r(1) by simp
  show ?case
  proof (cases "is_global_op_in_progress c'")
    case True
    then obtain c2 where "continue_calls envs c' = Inr c2" "\<not> is_global_op_in_progress c2" "contract_inv tot c2"
      "op_keeps (c_global_op c') c' (c_global_op c2) c2"
      using Cons.IH [of c'] Cons.prems r by auto
    then show ?thesis
      using eq op_keeps_trans [OF r(2)] by auto
  next
    case False
    then have "continue_calls envs c' = Inr c'"
      by (cases envs) simp_all
    then show ?thesis
      using eq False r by auto
  qed
qed

end
