(* ===== verification/Reset_Properties.thy ===== *)
theory Reset_Properties
  imports Samples Reset_Termination
begin

text \<open>
  The properties of the long operations: a change of the delegation cap or of the service fee
  returns, can be continued after an interruption, completes with enough gas, and then has
  exactly its effect; while it is under way the endpoints that could interfere are refused.
\<close>

section \<open>Changing the delegation cap\<close>

text \<open>
  (C9) Changing the delegation cap. In a contract that left bootstrap mode, the owner's call with a cap
  that the available stake can fill returns; when the cap grows nothing may be unstaked, when it
  shrinks the unprotected funds must cover the difference. The call keeps every user's total
  stake and leaves the contract consistent, with the operation under way or complete; when it
  reports completion the cap is the new one, and with enough gas it does.
\<close>

theorem modify_total_delegation_cap_correct:
  assumes "contract_inv tot c" and "env_ok tot env c" and "caller env = sc_owner env"
    and "\<not> is_global_op_in_progress c" and "\<not> bootstrap_mode (c_settings c)"
    and "new_cap \<le> get_user_stake_of_type (c_funds c) USER_STAKE_TOTALS_ID Active +
      get_user_stake_of_type (c_funds c) USER_STAKE_TOTALS_ID Waiting +
      get_user_stake_of_type (c_funds c) USER_STAKE_TOTALS_ID UnStaked"
    and "total_delegation_cap (c_settings c) < new_cap \<Longrightarrow>
      get_user_stake_of_type (c_funds c) USER_STAKE_TOTALS_ID UnStaked = 0"
    and "new_cap < total_delegation_cap (c_settings c) \<Longrightarrow>
      \<exists>x. total_unprotected (sc_balance env) (cumulated_rewards env) (c_funds c) (c_rewards c) = Inr x \<and>
        total_delegation_cap (c_settings c) - new_cap \<le> x"
    and "id_room 16 (c_funds c)" and "few_items (c_funds c) UnStaked"
    and "type_items (c_funds c) Waiting + type_items (c_funds c) Active \<le> MAX_AFFECTED_USERS"
  shows "\<exists>status c'. modify_total_delegation_cap env new_cap c = Inr (status, c') \<and>
    global_inv (cumulated_rewards env) c' \<and>
    (status = Completed \<longrightarrow> \<not> is_global_op_in_progress c' \<and> total_delegation_cap (c_settings c') = new_cap) \<and>
    ((\<forall>p k. \<not> stop_at_gaslimit env p k) \<longrightarrow> status = Completed) \<and>
    rs_sent (c_rewards c') = rs_sent (c_rewards c) \<and>
    (\<forall>v. get_user_total_stake (c_funds c') v = get_user_total_stake (c_funds c) v)"
  using modify_cap_regular_run [OF assms] by blast

lemma sample_owner_env: "caller (sample_env sample_owner) = sc_owner (sample_env sample_owner)"
  by simp

lemma sample_gas: "\<not> stop_at_gaslimit (sample_env a) p k"
  by (simp add: stop_at_gaslimit_def STOP_AT_GASLIMIT_def)

lemma sample_cap: "total_delegation_cap sample_settings = 100"
  by (simp add: sample_settings_def)

theorem modify_total_delegation_cap_correct_witness:
  "\<exists>c'. modify_total_delegation_cap (sample_env sample_owner) 103 sample_contract = Inr (Completed, c') \<and>
    contract_inv 1000 c' \<and> total_delegation_cap (c_settings c') = 103"
  using modify_total_delegation_cap_correct [OF sample_inv sample_env_ok sample_owner_env, of 103]
    sample_room [of 16] sample_few sample_items sample_gas
  by (auto simp: sample_totals USER_STAKE_TOTALS_ID_def sample_cap MAX_AFFECTED_USERS_def global_inv_def)

text \<open>
  (C19) In bootstrap mode the owner may raise the cap, which changes nothing else, or lower it below the
  active stake, which ends bootstrap mode: the surplus becomes deferred payments and the
  contract is left consistent with the new cap, which the active stake then fills.
\<close>

theorem modify_cap_in_bootstrap:
  assumes "contract_inv tot c" and "env_ok tot env c" and "caller env = sc_owner env"
    and "\<not> is_global_op_in_progress c" and "bootstrap_mode (c_settings c)"
    and "new_cap \<noteq> get_user_stake_of_type (c_funds c) USER_STAKE_TOTALS_ID Active"
    and "new_cap < get_user_stake_of_type (c_funds c) USER_STAKE_TOTALS_ID Active \<Longrightarrow>
      \<exists>x. total_unprotected (sc_balance env) (cumulated_rewards env) (c_funds c) (c_rewards c) = Inr x \<and>
        get_user_stake_of_type (c_funds c) USER_STAKE_TOTALS_ID Active - new_cap \<le> x"
    and "id_room 16 (c_funds c)" and "few_items (c_funds c) UnStaked"
    and "type_items (c_funds c) Waiting + type_items (c_funds c) Active \<le> MAX_AFFECTED_USERS"
  shows "\<exists>status c'. modify_total_delegation_cap env new_cap c = Inr (status, c') \<and>
    global_inv (cumulated_rewards env) c' \<and>
    (status = Completed \<longrightarrow> \<not> is_global_op_in_progress c' \<and> total_delegation_cap (c_settings c') = new_cap) \<and>
    (bootstrap_mode (c_settings c') \<longleftrightarrow> get_user_stake_of_type (c_funds c) USER_STAKE_TOTALS_ID Active < new_cap) \<and>
    ((\<forall>p k. \<not> stop_at_gaslimit env p k) \<longrightarrow> status = Completed) \<and>
    rs_sent (c_rewards c') = rs_sent (c_rewards c) \<and>
    (\<forall>v. get_user_total_stake (c_funds c') v = get_user_total_stake (c_funds c) v)"
  using modify_cap_bootstrap_run [OF assms] by blast

text \<open>A sample contract in bootstrap mode: a cap of 200, of which 100 are filled.\<close>

definition boot_entries :: abs_funds where
  "boot_entries = \<lparr>a_max = 2, a_entries =
     [\<lparr>eid = 1, edesc = FdActive, euser = 1, ebal = 60\<rparr>, \<lparr>eid = 2, edesc = FdActive, euser = 2, ebal = 40\<rparr>]\<rparr>"

definition boot_funds :: fund_storage where
  "boot_funds = concrete boot_entries"

definition boot_contract :: contract where
  "boot_contract = sample_contract\<lparr>c_funds := boot_funds,
     c_settings := sample_settings\<lparr>bootstrap_mode := True, total_delegation_cap := 200\<rparr>\<rparr>"

definition boot_env :: "address \<Rightarrow> sc_env" where
  "boot_env a = (sample_env a)\<lparr>cumulated_rewards := 0\<rparr>"

lemma boot_wf: "wf_funds boot_entries"
  by (simp add: boot_entries_def wf_entries_def)

lemma boot_totals:
  "type_total boot_funds Waiting = 0" "type_total boot_funds UnStaked = 0"
  "type_total boot_funds Active = 100" "type_total boot_funds DeferredPayment = 0"
  "type_total boot_funds WithdrawOnly = 0"
  by (simp_all add: boot_funds_def sum_of_def sum_where_def boot_entries_def)

lemma boot_items:
  "type_items boot_funds Waiting = 0" "type_items boot_funds UnStaked = 0"
  "type_items boot_funds Active = 2"
  unfolding boot_funds_def type_items_concrete [OF boot_wf]
  by (simp_all add: boot_entries_def of_type_def etype_def)

lemma boot_room: "id_room 16 boot_funds"
  by (simp add: id_room_def boot_funds_def boot_entries_def usize_max_def)

lemma boot_owned: "owned_funds boot_funds 2"
proof -
  have "u \<in> {1, 2}" if nz: "user_total boot_funds u t \<noteq> 0" for u t
  proof (rule ccontr)
    assume "u \<notin> {1, 2}"
    then have "filter (of_user u t) (a_entries boot_entries) = []"
      by (simp add: boot_entries_def of_user_def)
    then show False
      using nz by (simp add: boot_funds_def sum_of_user sum_where_def)
  qed
  then show ?thesis
    unfolding owned_funds_def by fastforce
qed

lemma boot_fields [simp]:
  "c_funds boot_contract = boot_funds" "c_users boot_contract = sample_users"
  "c_rewards boot_contract = reward_storage_empty" "bootstrap_mode (c_settings boot_contract)"
  "total_delegation_cap (c_settings boot_contract) = 200" "service_fee (c_settings boot_contract) = 1000"
  "min_stake (c_settings boot_contract) = 2"
  "\<not> is_global_op_in_progress boot_contract" "caller (boot_env a) = a" "sc_owner (boot_env a) = sample_owner"
  "cumulated_rewards (boot_env a) = 0" "sc_balance (boot_env a) = 5000" "gas_left (boot_env a) p k = 1000000000"
  "not_paused (boot_env a)"
  by (simp_all add: boot_contract_def boot_env_def is_global_op_in_progress_iff)
    (simp_all add: sample_settings_def sample_env_def)

lemma boot_inv: "contract_inv 0 boot_contract"
  using fund_inv_concrete [OF boot_wf] boot_owned sample_user_inv
  by (auto simp: contract_inv_def base_inv_def cap_inv_def boot_totals boot_funds_def [symmetric] rewards_inv_def reward_liability_def
      pending_rewards_def reward_storage_empty_def PERCENTAGE_DENOMINATOR_def)

lemma boot_env_ok: "env_ok 0 (boot_env a) boot_contract"
  by (simp add: env_ok_def)

theorem modify_cap_in_bootstrap_witness:
  "\<exists>c'. modify_total_delegation_cap (boot_env sample_owner) 90 boot_contract = Inr (Completed, c') \<and>
    contract_inv 0 c' \<and> total_delegation_cap (c_settings c') = 90 \<and> \<not> bootstrap_mode (c_settings c')"
  using modify_cap_in_bootstrap [OF boot_inv boot_env_ok, of sample_owner 90] boot_room boot_items
  by (auto simp: boot_totals USER_STAKE_TOTALS_ID_def total_unprotected_def few_items_def MAX_AFFECTED_USERS_def
      stop_at_gaslimit_def STOP_AT_GASLIMIT_def global_inv_def reward_storage_empty_def)

text \<open>
  (C20) Ending bootstrap mode at exactly the active stake. The remaining case of the previous property: when the owner
  lowers the cap to the active stake, the call ends bootstrap mode and reports completion but
  never stores the new cap. The old, larger cap stays, so every later call of \<open>stake\<close> by anybody
  is refused.
\<close>

theorem bootstrap_exit_freezes_staking:
  assumes "contract_inv tot c" and "bootstrap_mode (c_settings c)" and "\<not> is_global_op_in_progress c"
    and "caller env = sc_owner env" and "id_room 1 (c_funds c)"
    and "get_user_stake_of_type (c_funds c) USER_STAKE_TOTALS_ID Active < total_delegation_cap (c_settings c)"
  shows "\<exists>c'. modify_total_delegation_cap env (get_user_stake_of_type (c_funds c) USER_STAKE_TOTALS_ID Active) c =
      Inr (Completed, c') \<and> \<not> bootstrap_mode (c_settings c') \<and>
    total_delegation_cap (c_settings c') = total_delegation_cap (c_settings c) \<and>
    (\<forall>env' payment. \<exists>e. stake_endpoint env' payment c' = Inl e)"
proof -
  let ?c = "c\<lparr>c_settings := (c_settings c)\<lparr>bootstrap_mode := False\<rparr>\<rparr>" and ?fs = "c_funds c"
  have cap: "cap_inv c" and fs: "fund_inv ?fs"
    using assms(1) by (simp_all add: contract_inv_def base_inv_def)
  note boot = cap_inv_boot [OF cap assms(2)]
  have "\<exists>e. process_stake env' payment ?c = Inl e" for env' payment
  proof -
    obtain u s where gc: "get_or_create_user (caller env') (c_users c) = (u, s)"
      by (cases "get_or_create_user (caller env') (c_users c)")
    have dep: "deposits u Waiting payment ?fs (create_waiting (block_nonce env') u payment ?fs)"
      using increase_fund_balance_deposits [OF fs assms(5), of u "FdWaiting (block_nonce env')" payment]
      by (simp add: create_waiting_def)
    show ?thesis
      using boot assms(6)
      by (simp add: process_stake_def gc validate_delegation_cap_invariant_def USER_STAKE_TOTALS_ID_def
          depositsD(4) [OF dep] Let_def)
  qed
  then have "\<exists>e. stake_endpoint env' payment ?c = Inl e" for env' payment
    by (simp add: stake_endpoint_def require_def)
  moreover have "modify_total_delegation_cap env (get_user_stake_of_type ?fs USER_STAKE_TOTALS_ID Active) c = Inr (Completed, ?c)"
    using assms(2-4) boot by (simp add: modify_total_delegation_cap_def only_owner_def USER_STAKE_TOTALS_ID_def Let_def)
  ultimately show ?thesis
    by (intro exI [of _ ?c]) simp
qed

theorem bootstrap_exit_freezes_staking_witness:
  "\<exists>c'. modify_total_delegation_cap (boot_env sample_owner) 100 boot_contract = Inr (Completed, c') \<and>
    total_delegation_cap (c_settings c') = 200 \<and> (\<forall>env' payment. \<exists>e. stake_endpoint env' payment c' = Inl e)"
  using bootstrap_exit_freezes_staking [OF boot_inv, of "boot_env sample_owner"] id_room_mono [OF boot_room, of 1]
  by (auto simp: boot_totals USER_STAKE_TOTALS_ID_def)

section \<open>Continuing an operation\<close>

text \<open>
  (C10) An interrupted operation can always be continued. In every state with an operation under way a call
  of \<open>continueGlobalOperation\<close> returns, by whoever makes it and whatever rewards arrived in the
  meantime; it keeps the invariant of the operation and every user's total stake, it reports
  completion exactly when nothing is left to do, and then the settings are those the operation
  was started for and the contract is consistent; with enough gas it completes.
\<close>

theorem continue_global_operation_correct:
  assumes "global_inv tot c" and "is_global_op_in_progress c" and "tot \<le> cumulated_rewards env"
    and "check_feature_on env ''continueGlobalOperation'' True = Inr ()" and "op_ready (c_global_op c) (c_funds c)"
  shows "\<exists>status c'. continue_global_operation_endpoint env c = Inr (status, c') \<and>
    global_inv (cumulated_rewards env) c' \<and>
    (status = Completed \<longleftrightarrow> \<not> is_global_op_in_progress c') \<and>
    (status = Completed \<longrightarrow> contract_inv (cumulated_rewards env) c' \<and>
       c_settings c' = op_target (c_global_op c) (c_settings c)) \<and>
    ((\<forall>p k. \<not> stop_at_gaslimit env p k) \<longrightarrow> status = Completed) \<and>
    rs_sent (c_rewards c') = rs_sent (c_rewards c) \<and>
    (\<forall>v. get_user_total_stake (c_funds c') v = get_user_total_stake (c_funds c) v)"
  using continue_endpoint_run [OF assms] by blast

text \<open>The sample contract with a change of the cap from 100 to 103 under way.\<close>

definition sample_change :: global_op_checkpoint where
  "sample_change = ModifyTotalDelegationCap
     \<lparr>new_delegation_cap = 103, remaining_swap_waiting_to_active = 3, remaining_swap_active_to_def_p = 0,
      remaining_swap_unstaked_to_def_p = 0, cap_step = ComputeAllRewards (compute_all_rewards_data_new 0)\<rparr>"

lemma sample_change_inv: "global_inv 0 (sample_contract\<lparr>c_global_op := sample_change\<rparr>)"
proof -
  let ?c = "sample_contract\<lparr>c_global_op := sample_change\<rparr>"
  have "op_inv 0 sample_change ?c"
    unfolding sample_change_def using sample_inv
    by (intro start_change_cap)
      (simp_all add: contract_inv_def base_inv_def cap_plan_def sample_totals sample_cap)
  then show ?thesis
    by (simp add: global_inv_op)
qed

lemma sample_change_ready: "op_ready sample_change sample_funds"
  unfolding sample_change_def using sample_room [of 16] sample_few sample_items
  by (intro change_cap_ready) (simp_all add: MAX_AFFECTED_USERS_def)

theorem continue_global_operation_correct_witness:
  "\<exists>c'. continue_global_operation_endpoint (sample_env sample_user) (sample_contract\<lparr>c_global_op := sample_change\<rparr>) =
      Inr (Completed, c') \<and> contract_inv 1000 c' \<and> total_delegation_cap (c_settings c') = 103"
proof -
  have "is_global_op_in_progress (sample_contract\<lparr>c_global_op := sample_change\<rparr>)"
    by (simp add: is_global_op_in_progress_iff sample_change_def)
  from continue_global_operation_correct [OF sample_change_inv this, of "sample_env sample_user"]
  show ?thesis
    using sample_change_ready sample_gas by (auto simp: sample_change_def)
qed

text \<open>
  (C11) Long operations come to an end. When no new rewards arrive, the administrator of an interrupted
  operation need not care how little gas a call has: as long as every call has the gas for the
  first user or item of the loop it goes on with, at most one call for every user, every unstaked
  and active item and two for every waiting item, and five more, complete the operation. No call
  fails, the contract is consistent at the end, its settings are those the operation was started
  for, and nobody's total stake and no reward that was sent has changed.
\<close>

theorem continue_terminates:
  assumes "global_inv tot c" and "is_global_op_in_progress c" and "op_few (c_global_op c) (c_funds c)"
    and "16 * (fs_max_id (c_funds c) + 2 * type_items (c_funds c) Waiting + type_items (c_funds c) UnStaked +
      type_items (c_funds c) Active + 5) < usize_max"
    and "\<forall>env\<in>set envs. cumulated_rewards env = tot \<and> check_feature_on env ''continueGlobalOperation'' True = Inr ()"
    and "gas_for_calls envs c"
    and "us_num_users (c_users c) + 2 * type_items (c_funds c) Waiting + type_items (c_funds c) UnStaked +
      type_items (c_funds c) Active + 5 \<le> length envs"
  shows "\<exists>c'. continue_calls envs c = Inr c' \<and> \<not> is_global_op_in_progress c' \<and> contract_inv tot c' \<and>
    c_settings c' = op_target (c_global_op c) (c_settings c) \<and>
    rs_sent (c_rewards c') = rs_sent (c_rewards c) \<and>
    (\<forall>v. get_user_total_stake (c_funds c') v = get_user_total_stake (c_funds c) v)"
proof -
  have prep: "op_prepared tot c"
    using assms(1,3,4) op_ids_le [of "c_global_op c" "c_funds c"] by (simp add: op_prepared_def)
  show ?thesis
    using continue_calls_end [OF prep assms(2,5,6) order_trans [OF op_work_le assms(7)]]
    by (auto simp: op_keeps_def is_global_op_in_progress_iff)
qed

text \<open>Calls with the gas for a single step of each loop.\<close>

definition short_env :: sc_env where
  "short_env = (sample_env sample_user)\<lparr>cumulated_rewards := 0, gas_left := (\<lambda>p k. if k = 0 then 1000000000 else 0)\<rparr>"

theorem continue_terminates_witness:
  "\<exists>c'. continue_calls (replicate 20 short_env) (sample_contract\<lparr>c_global_op := sample_change\<rparr>) = Inr c' \<and>
    contract_inv 0 c' \<and> total_delegation_cap (c_settings c') = 103"
proof -
  let ?c = "sample_contract\<lparr>c_global_op := sample_change\<rparr>"
  have prog: "is_global_op_in_progress ?c"
    by (simp add: is_global_op_in_progress_iff sample_change_def)
  have gas: "gas_for_calls (replicate 20 short_env) ?c"
    by (rule gas_for_calls_first) (simp add: short_env_def stop_at_gaslimit_def STOP_AT_GASLIMIT_def)
  have room: "144 + 16 * fs_max_id sample_funds < usize_max"
    by (simp add: sample_funds_def sample_entries_def usize_max_def)
  show ?thesis
    using continue_terminates [OF sample_change_inv prog _ _ _ gas] sample_change_ready sample_items room
    by (auto simp: op_ready_def short_env_def sample_change_def)
qed

section \<open>Rewards and fee\<close>

text \<open>
  (C18) Computing the rewards of all users distributes everything. From every consistent state and with enough gas
  the computation completes: all users are up to date, and what they can claim together with
  what was sent is exactly what arrived, because the owner receives what the rounded divisions
  left over.
\<close>

theorem compute_all_rewards_exact:
  assumes "contract_inv tot c" and "env_ok tot env c" and "\<And>k. \<not> stop_at_gaslimit env 0 k"
  shows "\<exists>c' x. compute_all_rewards env (compute_all_rewards_data_new (cumulated_rewards env)) c = Inr (None, c') \<and>
    (\<forall>u\<in>{1..us_num_users (c_users c)}. rs_checkpoint (c_rewards c') u = cumulated_rewards env) \<and>
    get_total_unclaimed_rewards (cumulated_rewards env) (c_settings c') (c_users c') (c_funds c') (c_rewards c') = Inr x \<and>
    x + rs_sent (c_rewards c') = cumulated_rewards env"
proof -
  let ?T = "cumulated_rewards env" and ?n = "us_num_users (c_users c)" and ?data = "compute_all_rewards_data_new (cumulated_rewards env)"
  have inv: "contract_inv ?T c"
    by (rule contract_inv_arrive [OF assms(1,2)])
  have base: "base_inv c" and rew: "op_rewards ?T ?data c"
    using inv cap_inv_le [of c]
    by (simp_all add: contract_inv_def op_rewards_def computed_upto_def compute_all_rewards_data_new_def)
  obtain more rw where more: "compute_all_rewards env ?data c = Inr (more, c\<lparr>c_rewards := rw\<rparr>)"
    "case more of None \<Rightarrow> settled ?T rw ?n
     | Some data' \<Rightarrow> op_rewards ?T data' (c\<lparr>c_rewards := rw\<rparr>) \<and> (\<exists>j. stop_at_gaslimit env 0 j)"
    using op_rewards_compute [OF base rew order_refl] by blast
  have "more = None"
    using more(2) assms(3) by (cases more) auto
  then have r: "compute_all_rewards env ?data c = Inr (None, c\<lparr>c_rewards := rw\<rparr>)" "settled ?T rw ?n"
    using more by simp_all
  have "load_updated_user_rewards ?T (c_settings c) (c_funds c) rw u = Inr (load_user_reward_data rw u)" if "u \<in> {1..?n}" for u
    using r(2) that by (simp add: load_updated_user_rewards_def load_user_reward_data_def settled_def)
  then have loop: "get_total_unclaimed_rewards_loop ?T (c_settings c) (c_funds c) rw ids z = Inr (z + (\<Sum>u\<leftarrow>ids. rs_unclaimed rw u))"
    if "set ids \<subseteq> {1..?n}" for ids z
    using that by (induction ids arbitrary: z) (auto simp: load_user_reward_data_def)
  have "get_total_unclaimed_rewards ?T (c_settings c) (c_users c) (c_funds c) rw =
      Inr (\<Sum>u\<leftarrow>[1..<Suc ?n]. rs_unclaimed rw u)"
    unfolding get_total_unclaimed_rewards_def by (subst loop) auto
  moreover have "(\<Sum>u\<leftarrow>[1..<Suc ?n]. rs_unclaimed rw u) = (\<Sum>u=1..?n. rs_unclaimed rw u)"
    by (simp add: sum_list_distinct_conv_sum_set atLeastLessThanSuc_atLeastAtMost del: upt_Suc)
  ultimately show ?thesis
    using r by (intro exI [of _ "c\<lparr>c_rewards := rw\<rparr>"] exI [of _ "\<Sum>u=1..?n. rs_unclaimed rw u"])
      (simp add: settled_def)
qed

theorem compute_all_rewards_exact_witness:
  "\<exists>c' x. compute_all_rewards (sample_env sample_user) (compute_all_rewards_data_new 1000) sample_contract = Inr (None, c') \<and>
    get_total_unclaimed_rewards 1000 (c_settings c') (c_users c') (c_funds c') (c_rewards c') = Inr x \<and>
    x + rs_sent (c_rewards c') = 1000"
  using compute_all_rewards_exact [OF sample_inv sample_env_ok, of sample_user] sample_gas by auto

text \<open>Settling a user changes nothing of what users can claim.\<close>

lemma load_settled:
  "rs_checkpoint rw v = tot \<Longrightarrow> load_updated_user_rewards tot st fs rw v = Inr (load_user_reward_data rw v)"
  by (simp add: load_updated_user_rewards_def load_user_reward_data_def)

lemma load_checkpoint:
  "load_updated_user_rewards tot st fs rw u = Inr data \<Longrightarrow> reward_checkpoint data = tot"
  by (auto simp: load_updated_user_rewards_def load_user_reward_data_def bind_res_eq_Inr biguint_sub_eq_Inr Let_def split: if_splits)

lemma load_store:
  assumes "load_updated_user_rewards tot st fs rw u = Inr data"
  shows "load_updated_user_rewards tot st fs (store_user_reward_data u data rw) v = load_updated_user_rewards tot st fs rw v"
proof (cases "v = u")
  case True
  have "load_updated_user_rewards tot st fs (store_user_reward_data u data rw) u = Inr data"
    using load_checkpoint [OF assms] by (subst load_settled) (simp_all add: store_user_reward_data_def load_user_reward_data_def)
  then show ?thesis
    using assms True by simp
next
  case False
  then have "load_user_reward_data (store_user_reward_data u data rw) v = load_user_reward_data rw v"
    by (simp add: store_user_reward_data_def load_user_reward_data_def)
  then show ?thesis
    by (simp add: load_updated_user_rewards_def)
qed

lemma compute_all_loop_claims:
  assumes "compute_all_rewards_loop env n k data c = Inr (b, data', c')"
  shows "load_updated_user_rewards (cumulated_rewards env) (c_settings c) (c_funds c) (c_rewards c') v =
    load_updated_user_rewards (cumulated_rewards env) (c_settings c) (c_funds c) (c_rewards c) v"
  using assms
proof (induction env n k data c rule: compute_all_rewards_loop.induct)
  case (1 env n k data c)
  show ?case
  proof (cases "last_id data < n \<and> \<not> stop_at_gaslimit env 0 k")
    case True
    then obtain ud where ud: "load_updated_user_rewards (cumulated_rewards env) (c_settings c) (c_funds c) (c_rewards c) (last_id data + 1) = Inr ud"
      "compute_all_rewards_loop env n (Suc k) (data\<lparr>sum_unclaimed := sum_unclaimed data + unclaimed_rewards ud, last_id := last_id data + 1\<rparr>)
        (c\<lparr>c_rewards := store_user_reward_data (last_id data + 1) ud (c_rewards c)\<rparr>) = Inr (b, data', c')"
      using "1.prems" by (auto simp: compute_all_rewards_loop.simps [of env n k] bind_res_eq_Inr Let_def)
    show ?thesis
      using "1.IH" [OF _ _ refl, of ud] True ud load_store [OF ud(1)] by simp
  next
    case False
    then show ?thesis
      using "1.prems" by (auto simp: compute_all_rewards_loop.simps [of env n k] split: if_splits)
  qed
qed

lemma compute_all_claims:
  assumes "compute_all_rewards env data c = Inr (rest, c')"
  shows "v \<noteq> OWNER_USER_ID \<Longrightarrow>
      load_updated_user_rewards (cumulated_rewards env) (c_settings c) (c_funds c) (c_rewards c') v =
      load_updated_user_rewards (cumulated_rewards env) (c_settings c) (c_funds c) (c_rewards c) v"
    and "load_updated_user_rewards (cumulated_rewards env) (c_settings c) (c_funds c) (c_rewards c) OWNER_USER_ID = Inr d \<Longrightarrow>
      (rest = None \<Longrightarrow> rs_checkpoint (c_rewards c') OWNER_USER_ID = cumulated_rewards env) \<Longrightarrow> \<exists>d'. load_updated_user_rewards (cumulated_rewards env) (c_settings c) (c_funds c) (c_rewards c') OWNER_USER_ID = Inr d' \<and>
        unclaimed_rewards d \<le> unclaimed_rewards d'"
proof -
  let ?load = "load_updated_user_rewards (cumulated_rewards env) (c_settings c) (c_funds c)"
  obtain b data0 data1 c1 where loop: "compute_all_rewards_loop env (us_num_users (c_users c)) 0 data0 c = Inr (b, data1, c1)"
    and rest: "(if b then Inr (Some data1, c1)
      else bind_res (biguint_sub (cumulated_rewards env) (sum_unclaimed data1)) (\<lambda>rest.
        bind_res (biguint_sub rest (rs_sent (c_rewards c1))) (\<lambda>remainder.
        if 0 < remainder then
          let node_unclaimed = rs_unclaimed (c_rewards c1) OWNER_USER_ID + remainder in
          Inr (None, c1\<lparr>c_rewards := (c_rewards c1)
            \<lparr>rs_unclaimed := (rs_unclaimed (c_rewards c1))(OWNER_USER_ID := node_unclaimed)\<rparr>\<rparr>)
        else Inr (None, c1)))) = Inr (rest, c')"
    using assms unfolding compute_all_rewards_def Let_def bind_res_eq_Inr by fast
  have c': "c' = c1 \<or> rest = None \<and> (\<exists>r. c_rewards c' = (c_rewards c1)\<lparr>rs_unclaimed :=
      (rs_unclaimed (c_rewards c1))(OWNER_USER_ID := rs_unclaimed (c_rewards c1) OWNER_USER_ID + r)\<rparr>)"
    using rest by (cases b) (auto simp: bind_res_eq_Inr Let_def split: if_splits)
  note kept = compute_all_loop_claims [OF loop]
  show "v \<noteq> OWNER_USER_ID \<Longrightarrow> ?load (c_rewards c') v = ?load (c_rewards c) v"
    using c' kept [of v] by (auto simp: load_updated_user_rewards_def load_user_reward_data_def)
  assume "?load (c_rewards c) OWNER_USER_ID = Inr d"
    and chk: "rest = None \<Longrightarrow> rs_checkpoint (c_rewards c') OWNER_USER_ID = cumulated_rewards env"
  then have d: "?load (c_rewards c1) OWNER_USER_ID = Inr d"
    using kept by simp
  from c' show "\<exists>d'. ?load (c_rewards c') OWNER_USER_ID = Inr d' \<and> unclaimed_rewards d \<le> unclaimed_rewards d'"
  proof
    assume c': "rest = None \<and> (\<exists>r. c_rewards c' = (c_rewards c1)\<lparr>rs_unclaimed :=
      (rs_unclaimed (c_rewards c1))(OWNER_USER_ID := rs_unclaimed (c_rewards c1) OWNER_USER_ID + r)\<rparr>)"
    then have "rs_checkpoint (c_rewards c') OWNER_USER_ID = cumulated_rewards env"
      "rs_checkpoint (c_rewards c1) OWNER_USER_ID = cumulated_rewards env"
      using chk by auto
    with d c' show ?thesis
      by (auto simp: load_settled load_user_reward_data_def)
  qed (use d in auto)
qed

lemma continue_fee_eq:
  assumes "\<not> global_op_is_none (ChangeServiceFee fee data)"
    and "continue_global_operation env (ChangeServiceFee fee data) c = Inr (status, c')"
  obtains rest c1 where "compute_all_rewards env data c = Inr (rest, c1)" "c_rewards c' = c_rewards c1" "c_users c' = c_users c1" "c_funds c' = c_funds c1"
    "case rest of None \<Rightarrow> c_settings c' = (c_settings c1)\<lparr>service_fee := fee\<rparr> | Some _ \<Rightarrow> c_settings c' = c_settings c1"
  using assms
  by (auto simp: continue_global_operation_def bind_res_eq_Inr continue_global_operation_step_def
      continue_global_operation_loop.simps [of env "ChangeServiceFee fee data"]
      continue_global_operation_loop.simps [of env GlobalOpNone] global_op_is_none_def split: option.splits)

lemma registered_user: "user_inv us \<Longrightarrow> us_user_id us a \<noteq> 0 \<Longrightarrow> us_user_id us a \<in> {1..us_num_users us}"
  by (auto simp: registry_inv_def)

lemma fee_change_claims:
  assumes inv: "contract_inv tot c" and env: "env_ok tot env c" and boot: "\<not> bootstrap_mode (c_settings c)"
    and run: "continue_global_operation env (ChangeServiceFee fee (compute_all_rewards_data_new (cumulated_rewards env))) c = Inr (status, c')"
  shows "c_funds c' = c_funds c" "c_users c' = c_users c"
    and "\<And>a. us_user_id (c_users c) a \<noteq> OWNER_USER_ID \<Longrightarrow>
      get_claimable_rewards (cumulated_rewards env) (c_settings c') (c_users c) (c_funds c) (c_rewards c') a =
      get_claimable_rewards (cumulated_rewards env) (c_settings c) (c_users c) (c_funds c) (c_rewards c) a"
    and "\<And>d. load_updated_user_rewards (cumulated_rewards env) (c_settings c) (c_funds c) (c_rewards c) OWNER_USER_ID = Inr d \<Longrightarrow>
      \<exists>d'. load_updated_user_rewards (cumulated_rewards env) (c_settings c') (c_funds c) (c_rewards c') OWNER_USER_ID = Inr d' \<and>
        unclaimed_rewards d \<le> unclaimed_rewards d'"
    and "c_settings c' \<noteq> c_settings c \<Longrightarrow> \<forall>u\<in>{1..us_num_users (c_users c)}. rs_checkpoint (c_rewards c') u = cumulated_rewards env"
proof -
  let ?T = "cumulated_rewards env" and ?data = "compute_all_rewards_data_new (cumulated_rewards env)"
    and ?n = "us_num_users (c_users c)"
  have inv': "contract_inv ?T c"
    by (rule contract_inv_arrive [OF inv env])
  have base: "base_inv c" and rew: "op_rewards ?T ?data c"
    using inv' cap_inv_le [of c]
    by (simp_all add: contract_inv_def op_rewards_def computed_upto_def compute_all_rewards_data_new_def)
  obtain rest rw where comp: "compute_all_rewards env ?data c = Inr (rest, c\<lparr>c_rewards := rw\<rparr>)"
    and settled: "rest = None \<Longrightarrow> settled ?T rw ?n"
    using op_rewards_compute [OF base rew order_refl] by (metis option.simps(4))
  have "\<not> global_op_is_none (ChangeServiceFee fee ?data)"
    by (simp add: global_op_is_none_def)
  then obtain rest' c1 where "compute_all_rewards env ?data c = Inr (rest', c1)" "c_rewards c' = c_rewards c1"
    "c_users c' = c_users c1" "c_funds c' = c_funds c1"
    "case rest' of None \<Rightarrow> c_settings c' = (c_settings c1)\<lparr>service_fee := fee\<rparr> | Some _ \<Rightarrow> c_settings c' = c_settings c1"
    using run by (rule continue_fee_eq)
  then have c': "c_rewards c' = rw" "c_users c' = c_users c" "c_funds c' = c_funds c"
    "case rest of None \<Rightarrow> c_settings c' = (c_settings c)\<lparr>service_fee := fee\<rparr> | Some _ \<Rightarrow> c_settings c' = c_settings c"
    using comp by (auto split: option.splits)
  then show "c_funds c' = c_funds c" "c_users c' = c_users c"
    by simp_all
  have us: "user_inv (c_users c)" "1 \<le> ?n"
    using base by (simp_all add: base_inv_def)
  note claims = compute_all_claims [OF comp, simplified]
  have after: "load_updated_user_rewards ?T (c_settings c') (c_funds c) rw v = load_updated_user_rewards ?T (c_settings c) (c_funds c) rw v"
    if "v \<in> {1..?n}" for v
    using c'(4) settled that by (cases rest) (auto simp: settled_def load_settled)
  show "get_claimable_rewards ?T (c_settings c') (c_users c) (c_funds c) (c_rewards c') a =
      get_claimable_rewards ?T (c_settings c) (c_users c) (c_funds c) (c_rewards c) a"
    if "us_user_id (c_users c) a \<noteq> OWNER_USER_ID" for a
    using claims(1) [OF that] after [OF registered_user [OF us(1), of a]] c'(1)
    by (simp add: get_claimable_rewards_def Let_def)
  have owner: "OWNER_USER_ID \<in> {1..?n}"
    using us(2) by (simp add: OWNER_USER_ID_def)
  show "\<exists>d'. load_updated_user_rewards ?T (c_settings c') (c_funds c) (c_rewards c') OWNER_USER_ID = Inr d' \<and>
        unclaimed_rewards d \<le> unclaimed_rewards d'"
    if "load_updated_user_rewards ?T (c_settings c) (c_funds c) (c_rewards c) OWNER_USER_ID = Inr d" for d
    using claims(2) [OF that] settled owner after [OF owner] c'(1) by (auto simp: settled_def)
  show "\<forall>u\<in>{1..?n}. rs_checkpoint (c_rewards c') u = ?T" if "c_settings c' \<noteq> c_settings c"
    using that c'(1,4) settled by (cases rest) (auto simp: settled_def)
qed

text \<open>
  (C21) Changing the service fee. A call with a fee of at most 100 percent returns for every caller, leaves the
  contract consistent, keeps the funds and, when it reports completion, has changed the fee and no
  other setting. Rewards that arrived before are settled under the old fee: after the call, completed
  or interrupted, everybody but the owner can claim exactly what could be claimed right before it,
  the owner at least that (and the invariant bounds the sum by what arrived); and once the fee has
  changed outside bootstrap mode, all users are up to date, so that the new fee applies to
  later rewards only.
\<close>

theorem set_service_fee_correct:
  assumes "contract_inv tot c" and "env_ok tot env c" and "\<not> is_global_op_in_progress c"
    and "new_fee \<le> PERCENTAGE_DENOMINATOR" and "id_room 2 (c_funds c)"
  shows "\<exists>status c'. set_service_fee_endpoint env new_fee c = Inr (status, c') \<and>
    global_inv (cumulated_rewards env) c' \<and>
    (status = Completed \<longrightarrow> \<not> is_global_op_in_progress c' \<and> c_settings c' = (c_settings c)\<lparr>service_fee := new_fee\<rparr>) \<and>
    ((\<forall>p k. \<not> stop_at_gaslimit env p k) \<longrightarrow> status = Completed) \<and>
    rs_sent (c_rewards c') = rs_sent (c_rewards c) \<and>
    (\<forall>v. get_user_total_stake (c_funds c') v = get_user_total_stake (c_funds c) v) \<and>
    c_funds c' = c_funds c \<and> c_users c' = c_users c \<and>
    (\<forall>a. us_user_id (c_users c) a \<noteq> OWNER_USER_ID \<longrightarrow>
      get_claimable_rewards (cumulated_rewards env) (c_settings c') (c_users c) (c_funds c) (c_rewards c') a =
      get_claimable_rewards (cumulated_rewards env) (c_settings c) (c_users c) (c_funds c) (c_rewards c) a) \<and>
    (\<forall>a. us_user_id (c_users c) a = OWNER_USER_ID \<longrightarrow> (\<exists>x y.
      get_claimable_rewards (cumulated_rewards env) (c_settings c) (c_users c) (c_funds c) (c_rewards c) a = Inr x \<and>
      get_claimable_rewards (cumulated_rewards env) (c_settings c') (c_users c) (c_funds c) (c_rewards c') a = Inr y \<and> x \<le> y)) \<and>
    (\<not> bootstrap_mode (c_settings c) \<longrightarrow> c_settings c' \<noteq> c_settings c \<longrightarrow>
      (\<forall>u\<in>{1..us_num_users (c_users c)}. rs_checkpoint (c_rewards c') u = cumulated_rewards env))"
proof -
  let ?T = "cumulated_rewards env"
  obtain status c' where r: "set_service_fee_endpoint env new_fee c = Inr (status, c')" "global_inv ?T c'"
    "status = Completed \<longrightarrow> \<not> is_global_op_in_progress c' \<and> c_settings c' = (c_settings c)\<lparr>service_fee := new_fee\<rparr>"
    "(\<forall>p k. \<not> stop_at_gaslimit env p k) \<longrightarrow> status = Completed" "rs_sent (c_rewards c') = rs_sent (c_rewards c)"
    "\<forall>v. get_user_total_stake (c_funds c') v = get_user_total_stake (c_funds c) v"
    using set_service_fee_run [OF assms] by blast
  have inv: "contract_inv ?T c"
    by (rule contract_inv_arrive [OF assms(1,2)])
  then have chk: "\<And>u. rs_checkpoint (c_rewards c) u \<le> ?T" and fee: "service_fee (c_settings c) \<le> PERCENTAGE_DENOMINATOR"
    and fs: "fund_inv (c_funds c)" and cap: "cap_inv c"
    by (simp_all add: contract_inv_def rewards_inv_def base_inv_def)
  let ?load = "\<lambda>c. load_updated_user_rewards ?T (c_settings c) (c_funds c) (c_rewards c)"
  obtain d where d: "?load c OWNER_USER_ID = Inr d"
    using load_updated_user_rewards_ok [OF fee _ chk active_needs_cap [OF fs cap_inv_le [OF cap]]]
    by (metis OWNER_USER_ID_def one_neq_zero)
  have claims: "c_funds c' = c_funds c \<and> c_users c' = c_users c \<and>
    (\<forall>a. us_user_id (c_users c) a \<noteq> OWNER_USER_ID \<longrightarrow>
      get_claimable_rewards ?T (c_settings c') (c_users c) (c_funds c) (c_rewards c') a =
      get_claimable_rewards ?T (c_settings c) (c_users c) (c_funds c) (c_rewards c) a) \<and>
    (\<exists>d'. load_updated_user_rewards ?T (c_settings c') (c_funds c) (c_rewards c') OWNER_USER_ID = Inr d' \<and>
      unclaimed_rewards d \<le> unclaimed_rewards d') \<and>
    (\<not> bootstrap_mode (c_settings c) \<longrightarrow> c_settings c' \<noteq> c_settings c \<longrightarrow>
      (\<forall>u\<in>{1..us_num_users (c_users c)}. rs_checkpoint (c_rewards c') u = ?T))"
  proof -
    consider "c' = c" | "c' = c\<lparr>c_settings := (c_settings c)\<lparr>service_fee := new_fee\<rparr>\<rparr>" "bootstrap_mode (c_settings c)"
      | "\<not> bootstrap_mode (c_settings c)"
        "continue_global_operation env (ChangeServiceFee new_fee (compute_all_rewards_data_new ?T)) c = Inr (status, c')"
      using r(1) assms(3,4) by (auto simp: set_service_fee_endpoint_def Let_def split: if_splits)
    then show ?thesis
    proof cases
      case 1
      then show ?thesis
        using d by simp
    next
      case 2
      have "?T = 0"
        using inv 2(2) unfolding contract_inv_def by blast
      then have "load_updated_user_rewards ?T st (c_funds c) (c_rewards c) v = Inr (load_user_reward_data (c_rewards c) v)" for st v
        using chk [of v] by (intro load_settled) simp
      then show ?thesis
        using 2 d by (simp add: get_claimable_rewards_def Let_def)
    next
      case 3
      note f = fee_change_claims [OF assms(1,2) 3]
      show ?thesis
        using f(1,2) f(3) f(4) [OF d] f(5) by blast
    qed
  qed
  have owner: "\<exists>x y. get_claimable_rewards ?T (c_settings c) (c_users c) (c_funds c) (c_rewards c) a = Inr x \<and>
      get_claimable_rewards ?T (c_settings c') (c_users c) (c_funds c) (c_rewards c') a = Inr y \<and> x \<le> y"
    if "us_user_id (c_users c) a = OWNER_USER_ID" for a
    using claims d that by (auto simp: get_claimable_rewards_def OWNER_USER_ID_def)
  show ?thesis
    using r claims owner by (intro exI [of _ status] exI [of _ c'] conjI) simp_all
qed

theorem set_service_fee_correct_witness:
  "\<exists>c'. set_service_fee_endpoint (sample_env sample_user) 2000 sample_contract = Inr (Completed, c') \<and>
    contract_inv 1000 c' \<and> service_fee (c_settings c') = 2000 \<and>
    get_claimable_rewards 1000 (c_settings c') sample_users sample_funds (c_rewards c') sample_user =
    get_claimable_rewards 1000 sample_settings sample_users sample_funds reward_storage_empty sample_user"
proof -
  have "\<not> is_global_op_in_progress sample_contract" "2000 \<le> PERCENTAGE_DENOMINATOR" "id_room 2 (c_funds sample_contract)"
    using sample_room [of 2] by (simp_all add: PERCENTAGE_DENOMINATOR_def)
  from set_service_fee_correct [OF sample_inv sample_env_ok this, of sample_user]
  obtain status c' where r: "set_service_fee_endpoint (sample_env sample_user) 2000 sample_contract = Inr (status, c')"
    "global_inv (cumulated_rewards (sample_env sample_user)) c'" "status = Completed" "\<not> is_global_op_in_progress c'"
    "c_settings c' = (c_settings sample_contract)\<lparr>service_fee := 2000\<rparr>"
    "get_claimable_rewards (cumulated_rewards (sample_env sample_user)) (c_settings c') (c_users sample_contract)
       (c_funds sample_contract) (c_rewards c') sample_user =
     get_claimable_rewards (cumulated_rewards (sample_env sample_user)) (c_settings sample_contract) (c_users sample_contract)
       (c_funds sample_contract) (c_rewards sample_contract) sample_user"
    using sample_gas by (auto simp: OWNER_USER_ID_def)
  then show ?thesis
    by (simp add: global_inv_def)
qed

end
