(* ===== verification/Node_Activation.thy ===== *)
theory Node_Activation
  imports User_Stake
begin

text \<open>
  Running the validator nodes (\<^verbatim>\<open>latest/src/node_activation.rs\<close>): the owner's endpoints move
  nodes into a pending state and send an asynchronous call to the auction contract, the
  callback moves them on by the answer. An endpoint returns the contract and its effects, the
  call among them; \<^verbatim>\<open>call_and_exit\<close> ends the endpoint. The auction contract is not part of
  the program: its answer is an argument of the callback.
\<close>

section \<open>Answers of the auction contract\<close>

datatype async_call_result =
    AsyncOk "(bls_key \<times> u32) list"
  | AsyncErr string

section \<open>Staking\<close>

fun stake_nodes_loop ::
  "bls_signature res \<Rightarrow> bls_key list \<Rightarrow> nat list \<Rightarrow> (bls_key \<times> bls_signature) list \<Rightarrow> node_storage
     \<Rightarrow> (nat list \<times> (bls_key \<times> bls_signature) list \<times> node_storage) res"
where
  "stake_nodes_loop missing [] node_ids bls_keys_signatures ns = Inr (node_ids, bls_keys_signatures, ns)"
| "stake_nodes_loop missing (k # keys) node_ids bls_keys_signatures ns =
     (let i = ns_bls_to_id ns k in
      require (i \<noteq> 0) ''unknown node provided''
      (require (get_node_state ns i = Inactive) ''node must be inactive''
      (bind_res (node_ids_push node_ids i) (\<lambda>node_ids'.
       bind_res (get_node_signature missing ns i) (\<lambda>sig.
         stake_nodes_loop missing keys node_ids' (bls_keys_signatures @ [(k, sig)])
           (set_node_state i PendingActivation ns))))))"

definition perform_stake_nodes ::
  "contract \<Rightarrow> nat list \<Rightarrow> (bls_key \<times> bls_signature) list \<Rightarrow> nat \<Rightarrow> sc_effect list" where
  "perform_stake_nodes c node_ids bls_keys_signatures amount_to_stake =
     [AsyncCall (auction_addr (c_settings c)) amount_to_stake
        (AuctionStake (length node_ids) bls_keys_signatures) (Some (AuctionStakeCallback node_ids))]"

definition stake_nodes ::
  "sc_env \<Rightarrow> bls_signature res \<Rightarrow> nat \<Rightarrow> bls_key list \<Rightarrow> contract \<Rightarrow> (contract \<times> sc_effect list) res" where
  "stake_nodes env missing amount_to_stake bls_keys c =
     only_owner env
     (require (\<not> bootstrap_mode (c_settings c)) ''cannot stake nodes in bootstrap mode''
     (require (\<not> is_global_op_in_progress c) ''node operations are temporarily paused as checkpoint is reset''
     (bind_res (total_unprotected (sc_balance env) (cumulated_rewards env) (c_funds c) (c_rewards c)) (\<lambda>unprotected.
      require (amount_to_stake \<le> unprotected) ''not enough funds in contract to stake nodes''
      (bind_res (validate_owner_stake_share c) (\<lambda>_.
       bind_res (stake_nodes_loop missing bls_keys [] [] (c_nodes c)) (\<lambda>(node_ids, bls_keys_signatures, ns).
       let c1 = c\<lparr>c_nodes := ns\<rparr> in
       Inr (c1, perform_stake_nodes c1 node_ids bls_keys_signatures amount_to_stake))))))))"

text \<open>The loop \<^verbatim>\<open>for &node_id in node_ids.iter() { self.set_node_state(node_id, state) }\<close>.\<close>

definition set_node_states :: "nat list \<Rightarrow> node_state \<Rightarrow> node_storage \<Rightarrow> node_storage" where
  "set_node_states node_ids st ns = fold (\<lambda>i. set_node_state i st) node_ids ns"

definition auction_stake_callback_ok :: "nat list \<Rightarrow> contract \<Rightarrow> contract \<times> sc_effect list" where
  "auction_stake_callback_ok node_ids c =
     (if node_ids = [] then (c, [])
      else (c\<lparr>c_nodes := set_node_states node_ids NodeActive (c_nodes c)\<rparr>, [Event StakeNodeOkEvent]))"

definition auction_stake_callback_fail :: "nat list \<Rightarrow> string \<Rightarrow> contract \<Rightarrow> contract \<times> sc_effect list" where
  "auction_stake_callback_fail node_ids err_msg c =
     (if node_ids = [] then (c, [])
      else (c\<lparr>c_nodes := set_node_states node_ids Inactive (c_nodes c)\<rparr>, [Event (StakeNodeFailEvent err_msg)]))"

definition auction_stake_callback ::
  "nat list \<Rightarrow> async_call_result \<Rightarrow> contract \<Rightarrow> (contract \<times> sc_effect list) res" where
  "auction_stake_callback node_ids call_result c =
     (case call_result of
        AsyncOk node_status_args \<Rightarrow>
          bind_res (split_node_ids_by_err (c_nodes c) node_ids node_status_args) (\<lambda>(node_ids_ok, node_ids_fail).
          let (c1, e1) = auction_stake_callback_ok node_ids_ok c;
              (c2, e2) = auction_stake_callback_fail node_ids_fail ''staking failed for some nodes'' c1 in
          Inr (c2, e1 @ e2))
      | AsyncErr err_msg \<Rightarrow> Inr (auction_stake_callback_fail node_ids err_msg c))"

section \<open>Unstaking\<close>

fun unstake_nodes_loop :: "node_storage \<Rightarrow> bls_key list \<Rightarrow> nat list \<Rightarrow> nat list res" where
  "unstake_nodes_loop ns [] node_ids = Inr node_ids"
| "unstake_nodes_loop ns (k # keys) node_ids =
     (let i = ns_bls_to_id ns k in
      require (i \<noteq> 0) ''unknown node provided''
      (bind_res (node_ids_push node_ids i) (\<lambda>node_ids'. unstake_nodes_loop ns keys node_ids')))"

fun pending_deactivation_loop :: "nat list \<Rightarrow> node_storage \<Rightarrow> node_storage res" where
  "pending_deactivation_loop [] ns = Inr ns"
| "pending_deactivation_loop (i # node_ids) ns =
     require (get_node_state ns i = NodeActive) ''node not active''
       (pending_deactivation_loop node_ids (set_node_state i PendingDeactivation ns))"

definition perform_unstake_nodes ::
  "bool \<Rightarrow> nat list \<Rightarrow> bls_key list \<Rightarrow> contract \<Rightarrow> (contract \<times> sc_effect list) res" where
  "perform_unstake_nodes unstake_tokens node_ids bls_keys c =
     bind_res (pending_deactivation_loop node_ids (c_nodes c)) (\<lambda>ns.
       Inr (c\<lparr>c_nodes := ns\<rparr>,
            [AsyncCall (auction_addr (c_settings c)) 0
               (if unstake_tokens then AuctionUnStake bls_keys else AuctionUnStakeNodes bls_keys)
               (Some (AuctionUnstakeCallback node_ids))]))"

definition unstake_nodes :: "bool \<Rightarrow> bls_key list \<Rightarrow> contract \<Rightarrow> (contract \<times> sc_effect list) res" where
  "unstake_nodes unstake_tokens bls_keys c =
     require (\<not> is_global_op_in_progress c) ''node operations are temporarily paused as checkpoint is reset''
     (bind_res (unstake_nodes_loop (c_nodes c) bls_keys []) (\<lambda>node_ids.
       perform_unstake_nodes unstake_tokens node_ids bls_keys c))"

definition unstake_nodes_endpoint :: "sc_env \<Rightarrow> bls_key list \<Rightarrow> contract \<Rightarrow> (contract \<times> sc_effect list) res" where
  "unstake_nodes_endpoint env bls_keys c = only_owner env (unstake_nodes False bls_keys c)"

definition unstake_nodes_and_tokens_endpoint ::
  "sc_env \<Rightarrow> bls_key list \<Rightarrow> contract \<Rightarrow> (contract \<times> sc_effect list) res" where
  "unstake_nodes_and_tokens_endpoint env bls_keys c = only_owner env (unstake_nodes True bls_keys c)"

definition auction_unstake_callback_ok :: "sc_env \<Rightarrow> nat list \<Rightarrow> contract \<Rightarrow> contract \<times> sc_effect list" where
  "auction_unstake_callback_ok env node_ids c =
     (if node_ids = [] then (c, [])
      else (c\<lparr>c_nodes := set_node_states node_ids (UnBondPeriod (block_nonce env)) (c_nodes c)\<rparr>,
            [Event UnstakeNodeOkEvent]))"

definition auction_unstake_callback_fail :: "nat list \<Rightarrow> string \<Rightarrow> contract \<Rightarrow> contract \<times> sc_effect list" where
  "auction_unstake_callback_fail node_ids err_msg c =
     (if node_ids = [] then (c, [])
      else (c\<lparr>c_nodes := set_node_states node_ids NodeActive (c_nodes c)\<rparr>, [Event (UnstakeNodeFailEvent err_msg)]))"

definition auction_unstake_callback ::
  "sc_env \<Rightarrow> nat list \<Rightarrow> async_call_result \<Rightarrow> contract \<Rightarrow> (contract \<times> sc_effect list) res" where
  "auction_unstake_callback env node_ids call_result c =
     (case call_result of
        AsyncOk node_status_args \<Rightarrow>
          bind_res (split_node_ids_by_err (c_nodes c) node_ids node_status_args) (\<lambda>(node_ids_ok, node_ids_fail).
          let (c1, e1) = auction_unstake_callback_ok env node_ids_ok c;
              (c2, e2) = auction_unstake_callback_fail node_ids_fail ''unstaking failed for some nodes'' c1 in
          Inr (c2, e1 @ e2))
      | AsyncErr err_msg \<Rightarrow> Inr (auction_unstake_callback_fail node_ids err_msg c))"

fun force_node_unbond_period_loop :: "bls_key list \<Rightarrow> node_storage \<Rightarrow> node_storage res" where
  "force_node_unbond_period_loop [] ns = Inr ns"
| "force_node_unbond_period_loop (k # keys) ns =
     (let i = ns_bls_to_id ns k in
      require (i \<noteq> 0) ''unknown node provided''
        (force_node_unbond_period_loop keys (set_node_state i (UnBondPeriod 0) ns)))"

definition force_node_unbond_period :: "sc_env \<Rightarrow> bls_key list \<Rightarrow> contract \<Rightarrow> contract res" where
  "force_node_unbond_period env bls_keys c =
     only_owner env (bind_res (force_node_unbond_period_loop bls_keys (c_nodes c)) (\<lambda>ns. Inr (c\<lparr>c_nodes := ns\<rparr>)))"

section \<open>Unbonding\<close>

definition prepare_node_for_unbond_if_possible :: "nat \<Rightarrow> node_storage \<Rightarrow> bool \<times> node_storage" where
  "prepare_node_for_unbond_if_possible i ns =
     (case get_node_state ns i of
        UnBondPeriod started \<Rightarrow> (True, set_node_state i (PendingUnBond started) ns)
      | _ \<Rightarrow> (False, ns))"

definition perform_unbond :: "nat list \<Rightarrow> bls_key list \<Rightarrow> contract \<Rightarrow> sc_effect list" where
  "perform_unbond node_ids bls_keys c =
     [AsyncCall (auction_addr (c_settings c)) 0 (AuctionUnBondNodes bls_keys) (Some (AuctionUnbondCallback node_ids))]"

fun unbond_specific_nodes_loop ::
  "bls_key list \<Rightarrow> nat list \<Rightarrow> node_storage \<Rightarrow> (nat list \<times> node_storage) res"
where
  "unbond_specific_nodes_loop [] node_ids ns = Inr (node_ids, ns)"
| "unbond_specific_nodes_loop (k # keys) node_ids ns =
     (let i = ns_bls_to_id ns k in
      require (i \<noteq> 0) ''unknown node provided''
      (let (possible, ns1) = prepare_node_for_unbond_if_possible i ns in
       require possible ''node cannot be unbonded''
         (bind_res (node_ids_push node_ids i) (\<lambda>node_ids'. unbond_specific_nodes_loop keys node_ids' ns1))))"

definition unbond_specific_nodes_endpoint ::
  "sc_env \<Rightarrow> bls_key list \<Rightarrow> contract \<Rightarrow> (contract \<times> sc_effect list) res" where
  "unbond_specific_nodes_endpoint env bls_keys c =
     only_owner env
     (require (\<not> is_global_op_in_progress c) ''node operations are temporarily paused as checkpoint is reset''
     (require (bls_keys \<noteq> []) ''no BLS keys provided''
     (bind_res (unbond_specific_nodes_loop bls_keys [] (c_nodes c)) (\<lambda>(node_ids, ns).
       let c1 = c\<lparr>c_nodes := ns\<rparr> in Inr (c1, perform_unbond node_ids bls_keys c1)))))"

text \<open>The loop of \<^verbatim>\<open>unBondAllPossibleNodes\<close> runs from the last node id down to 1.\<close>

fun unbond_all_loop ::
  "bls_key res \<Rightarrow> nat \<Rightarrow> nat list \<Rightarrow> bls_key list \<Rightarrow> node_storage \<Rightarrow> (nat list \<times> bls_key list \<times> node_storage) res"
where
  "unbond_all_loop missing 0 node_ids bls_keys ns = Inr (node_ids, bls_keys, ns)"
| "unbond_all_loop missing (Suc j) node_ids bls_keys ns =
     (let (possible, ns1) = prepare_node_for_unbond_if_possible (Suc j) ns in
      if possible then
        bind_res (node_ids_push node_ids (Suc j)) (\<lambda>node_ids'.
        bind_res (get_node_id_to_bls missing ns1 (Suc j)) (\<lambda>k.
          unbond_all_loop missing j node_ids' (bls_keys @ [k]) ns1))
      else unbond_all_loop missing j node_ids bls_keys ns1)"

definition unbond_all_possible_nodes ::
  "sc_env \<Rightarrow> bls_key res \<Rightarrow> contract \<Rightarrow> (contract \<times> sc_effect list) res" where
  "unbond_all_possible_nodes env missing c =
     only_owner env
     (require (\<not> is_global_op_in_progress c) ''node operations are temporarily paused as checkpoint is reset''
     (bind_res (unbond_all_loop missing (ns_num_nodes (c_nodes c)) [] [] (c_nodes c)) (\<lambda>(node_ids, bls_keys, ns).
       let c1 = c\<lparr>c_nodes := ns\<rparr> in
       Inr (c1, if node_ids \<noteq> [] then perform_unbond node_ids bls_keys c1 else []))))"

definition auction_unbond_callback_ok :: "nat list \<Rightarrow> contract \<Rightarrow> contract \<times> sc_effect list" where
  "auction_unbond_callback_ok node_ids c =
     (if node_ids = [] then (c, [])
      else (c\<lparr>c_nodes := set_node_states node_ids Inactive (c_nodes c)\<rparr>, [Event UnbondNodeOkEvent]))"

fun revert_to_unbond_period :: "nat list \<Rightarrow> node_storage \<Rightarrow> node_storage res" where
  "revert_to_unbond_period [] ns = Inr ns"
| "revert_to_unbond_period (i # node_ids) ns =
     (case get_node_state ns i of
        PendingUnBond unbond_started \<Rightarrow>
          revert_to_unbond_period node_ids (set_node_state i (UnBondPeriod unbond_started) ns)
      | _ \<Rightarrow> Inl (ScPanic ''node not pending unbond''))"

definition auction_unbond_callback_fail :: "nat list \<Rightarrow> string \<Rightarrow> contract \<Rightarrow> (contract \<times> sc_effect list) res" where
  "auction_unbond_callback_fail node_ids err_msg c =
     (if node_ids = [] then Inr (c, [])
      else bind_res (revert_to_unbond_period node_ids (c_nodes c)) (\<lambda>ns.
             Inr (c\<lparr>c_nodes := ns\<rparr>, [Event (UnbondNodeFailEvent err_msg)])))"

definition auction_unbond_callback ::
  "nat list \<Rightarrow> async_call_result \<Rightarrow> contract \<Rightarrow> (contract \<times> sc_effect list) res" where
  "auction_unbond_callback node_ids call_result c =
     (case call_result of
        AsyncOk node_status_args \<Rightarrow>
          bind_res (split_node_ids_by_err (c_nodes c) node_ids node_status_args) (\<lambda>(node_ids_ok, node_ids_fail).
          let (c1, e1) = auction_unbond_callback_ok node_ids_ok c in
          bind_res (auction_unbond_callback_fail node_ids_fail ''unbonding failed for some nodes'' c1) (\<lambda>(c2, e2).
            Inr (c2, e1 @ e2)))
      | AsyncErr err_msg \<Rightarrow> auction_unbond_callback_fail node_ids err_msg c)"

section \<open>Calls without a callback\<close>

definition claim_unused_funds :: "sc_env \<Rightarrow> contract \<Rightarrow> sc_effect list res" where
  "claim_unused_funds env c =
     only_owner env
     (require (\<not> is_global_op_in_progress c) ''node operations are temporarily paused as checkpoint is reset''
       (Inr [AsyncCall (auction_addr (c_settings c)) 0 AuctionClaim None]))"

fun unjail_validation :: "node_storage \<Rightarrow> bls_key list \<Rightarrow> unit res" where
  "unjail_validation ns [] = Inr ()"
| "unjail_validation ns (k # keys) =
     (let i = ns_bls_to_id ns k in
      require (i \<noteq> 0) ''unknown node provided''
        (require (get_node_state ns i = NodeActive) ''node must be active'' (unjail_validation ns keys)))"

definition unjail_nodes :: "sc_env \<Rightarrow> bls_key list \<Rightarrow> nat \<Rightarrow> contract \<Rightarrow> sc_effect list res" where
  "unjail_nodes env bls_keys fine_payment c =
     only_owner env
     (bind_res (unjail_validation (c_nodes c) bls_keys) (\<lambda>_.
       Inr [AsyncCall (auction_addr (c_settings c)) fine_payment (AuctionUnJail bls_keys) None]))"

text \<open>These two ask for nobody in particular.\<close>

definition unstake_tokens :: "nat \<Rightarrow> contract \<Rightarrow> sc_effect list" where
  "unstake_tokens amount c =
     [Event (UnstakeTokensEvent amount), AsyncCall (auction_addr (c_settings c)) 0 (AuctionUnStakeTokens amount) None]"

definition unbond_tokens :: "nat \<Rightarrow> contract \<Rightarrow> sc_effect list" where
  "unbond_tokens amount c =
     [Event (UnbondTokensEvent amount), AsyncCall (auction_addr (c_settings c)) 0 (AuctionUnBondTokens amount) None]"

section \<open>Callbacks\<close>

text \<open>The framework runs the callback that was registered with the call.\<close>

fun auction_callback_run ::
  "sc_env \<Rightarrow> auction_callback \<Rightarrow> async_call_result \<Rightarrow> contract \<Rightarrow> (contract \<times> sc_effect list) res"
where
  "auction_callback_run env (AuctionStakeCallback node_ids) result c = auction_stake_callback node_ids result c"
| "auction_callback_run env (AuctionUnstakeCallback node_ids) result c = auction_unstake_callback env node_ids result c"
| "auction_callback_run env (AuctionUnbondCallback node_ids) result c = auction_unbond_callback node_ids result c"

end
