(* ===== verification/Node_Lifecycle.thy ===== *)
theory Node_Lifecycle
  imports Node_Activation Samples
begin

text \<open>
  The life of a node: the states it goes through, the calls to the auction contract that are
  on their way, and the invariant that ties the two together: a node is in a pending state
  exactly while one outstanding callback answers for it. So callbacks never fail and no
  node is left behind. \<^verbatim>\<open>forceNodeUnBondPeriod\<close>, the repair tool for lost callbacks, is a
  step like the others; the invariant is kept when it names no node that waits for a callback,
  and the source warns that other uses can make the state inconsistent.
\<close>

section \<open>Moving nodes\<close>

definition move_nodes :: "nat list \<Rightarrow> (nat \<Rightarrow> node_state) \<Rightarrow> node_storage \<Rightarrow> node_storage" where
  "move_nodes ids f ns = ns\<lparr>ns_state := (\<lambda>i. if i \<in> set ids then f i else ns_state ns i)\<rparr>"

lemma move_nodes_simps [simp]:
  "ns_state (move_nodes ids f ns) = (\<lambda>i. if i \<in> set ids then f i else ns_state ns i)"
  "ns_bls_to_id (move_nodes ids f ns) = ns_bls_to_id ns" "ns_id_to_bls (move_nodes ids f ns) = ns_id_to_bls ns"
  "ns_signature (move_nodes ids f ns) = ns_signature ns" "ns_num_nodes (move_nodes ids f ns) = ns_num_nodes ns"
  "node_inv (move_nodes ids f ns) = node_inv ns"
  by (simp_all add: move_nodes_def node_inv_def)

lemma move_nodes_Nil [simp]: "move_nodes [] f ns = ns"
  by (simp add: move_nodes_def)

lemma move_nodes_Cons:
  "i \<notin> set ids \<Longrightarrow> move_nodes ids f (set_node_state i (f i) ns) = move_nodes (i # ids) f ns"
  by (cases ns) (auto simp: move_nodes_def set_node_state_def)

lemma move_nodes_cong: "set ids = set ids' \<Longrightarrow> (\<And>i. i \<in> set ids' \<Longrightarrow> f i = g i) \<Longrightarrow> move_nodes ids f ns = move_nodes ids' g ns"
  by (cases ns) (auto simp: move_nodes_def)

lemma move_nodes_move_nodes:
  "move_nodes ids g (move_nodes ids' f ns) = move_nodes (ids @ ids') (\<lambda>i. if i \<in> set ids then g i else f i) ns"
  by (cases ns) (auto simp: move_nodes_def)

lemma set_node_states_move: "set_node_states ids st ns = move_nodes ids (\<lambda>_. st) ns"
proof (induction ids arbitrary: ns)
  case (Cons i ids)
  then show ?case
    by (cases ns) (auto simp: set_node_states_def move_nodes_def set_node_state_def)
qed (simp add: set_node_states_def)

section \<open>What the loops of the endpoints do\<close>

lemma node_ids_push_eq_Inr:
  "node_ids_push ids i = Inr ids' \<longleftrightarrow> length ids < MAX_NODES_PER_OPERATION \<and> ids' = ids @ [i]"
  by (auto simp: node_ids_push_def)

lemma states_elsewhere:
  "i \<notin> A \<Longrightarrow> j \<in> A \<Longrightarrow> ns_state (set_node_state i st ns) j = ns_state ns j"
  by auto

lemma set_node_state_same: "ns_state ns i = st \<Longrightarrow> set_node_state i st ns = ns"
  by (cases ns) (auto simp: set_node_state_def)

definition ids_of_keys :: "node_storage \<Rightarrow> bls_key list \<Rightarrow> nat list" where
  "ids_of_keys ns keys = map (ns_bls_to_id ns) keys"

lemma stake_nodes_loop_eq:
  assumes "stake_nodes_loop missing keys ids sigs ns = Inr (ids', sigs', ns')"
    and "length ids \<le> MAX_NODES_PER_OPERATION"
  shows "ids' = ids @ ids_of_keys ns keys \<and> map fst sigs' = map fst sigs @ keys \<and> distinct (ids_of_keys ns keys) \<and>
    length ids' \<le> MAX_NODES_PER_OPERATION \<and> 0 \<notin> set (ids_of_keys ns keys) \<and>
    (\<forall>i\<in>set (ids_of_keys ns keys). ns_state ns i = Inactive) \<and>
    ns' = move_nodes (ids_of_keys ns keys) (\<lambda>_. PendingActivation) ns"
  using assms
proof (induction keys arbitrary: ids sigs ns)
  case Nil
  then show ?case
    by (simp add: ids_of_keys_def)
next
  case (Cons k keys)
  let ?i = "ns_bls_to_id ns k" and ?ns = "set_node_state (ns_bls_to_id ns k) PendingActivation ns"
  obtain sig where r: "?i \<noteq> 0" "ns_state ns ?i = Inactive" "length ids < MAX_NODES_PER_OPERATION"
    "stake_nodes_loop missing keys (ids @ [?i]) (sigs @ [(k, sig)]) ?ns = Inr (ids', sigs', ns')"
    using Cons.prems(1) by (auto simp: Let_def res_elims get_node_state_def node_ids_push_eq_Inr)
  have ids: "ids_of_keys ?ns keys = ids_of_keys ns keys"
    by (simp add: ids_of_keys_def)
  note IH = Cons.IH [OF r(4), unfolded ids]
  have nin: "?i \<notin> set (ids_of_keys ns keys)"
    using IH r(3) by fastforce
  then have "ns' = move_nodes (?i # ids_of_keys ns keys) (\<lambda>_. PendingActivation) ns"
    using IH r(3) move_nodes_Cons [of ?i "ids_of_keys ns keys" "\<lambda>_. PendingActivation" ns] by simp
  moreover have "\<forall>i\<in>set (ids_of_keys ns keys). ns_state ns i = Inactive"
    using IH r(3) states_elsewhere [OF nin] by (metis (no_types, lifting) Suc_leI length_append_singleton)
  moreover have "ids_of_keys ns (k # keys) = ?i # ids_of_keys ns keys"
    by (simp add: ids_of_keys_def)
  ultimately show ?case
    using IH r nin by auto
qed

lemma unstake_nodes_loop_eq:
  assumes "unstake_nodes_loop ns keys ids = Inr ids'" and "length ids \<le> MAX_NODES_PER_OPERATION"
  shows "ids' = ids @ ids_of_keys ns keys \<and> length ids' \<le> MAX_NODES_PER_OPERATION \<and> 0 \<notin> set (ids_of_keys ns keys)"
  using assms
proof (induction keys arbitrary: ids)
  case (Cons k keys)
  then have "ns_bls_to_id ns k \<noteq> 0" "length ids < MAX_NODES_PER_OPERATION"
    "unstake_nodes_loop ns keys (ids @ [ns_bls_to_id ns k]) = Inr ids'"
    by (auto simp: Let_def res_elims node_ids_push_eq_Inr)
  then show ?case
    using Cons.IH [of "ids @ [ns_bls_to_id ns k]"] by (auto simp: ids_of_keys_def)
qed (simp add: ids_of_keys_def)

lemma pending_deactivation_loop_eq:
  assumes "pending_deactivation_loop ids ns = Inr ns'"
  shows "distinct ids \<and> (\<forall>i\<in>set ids. ns_state ns i = NodeActive) \<and> ns' = move_nodes ids (\<lambda>_. PendingDeactivation) ns"
  using assms
proof (induction ids arbitrary: ns)
  case (Cons i ids)
  then have r: "ns_state ns i = NodeActive" "pending_deactivation_loop ids (set_node_state i PendingDeactivation ns) = Inr ns'"
    by (simp_all add: require_eq_Inr get_node_state_def)
  note IH = Cons.IH [OF r(2)]
  have nin: "i \<notin> set ids"
    using IH by fastforce
  moreover have "\<forall>j\<in>set ids. ns_state ns j = NodeActive"
    using IH states_elsewhere [OF nin] by metis
  ultimately show ?case
    using IH r(1) move_nodes_Cons [OF nin, of "\<lambda>_. PendingDeactivation" ns] by simp
qed simp

text \<open>Unbonding remembers when the unbond period started.\<close>

fun unbonding :: "node_state \<Rightarrow> node_state" where
  "unbonding (UnBondPeriod started) = PendingUnBond started"
| "unbonding st = st"

fun in_unbond_period :: "node_state \<Rightarrow> bool" where
  "in_unbond_period (UnBondPeriod started) = True"
| "in_unbond_period st = False"

lemma prepare_node_eq:
  "prepare_node_for_unbond_if_possible i ns =
     (in_unbond_period (ns_state ns i), set_node_state i (unbonding (ns_state ns i)) ns)"
  by (cases "ns_state ns i")
    (simp_all add: prepare_node_for_unbond_if_possible_def get_node_state_def set_node_state_same)

lemma unbonding_twice: "in_unbond_period st \<Longrightarrow> \<not> in_unbond_period (unbonding st)"
  by (cases st) auto

lemma unbond_specific_nodes_loop_eq:
  assumes "unbond_specific_nodes_loop keys ids ns = Inr (ids', ns')" and "length ids \<le> MAX_NODES_PER_OPERATION"
  shows "ids' = ids @ ids_of_keys ns keys \<and> distinct (ids_of_keys ns keys) \<and> length ids' \<le> MAX_NODES_PER_OPERATION \<and>
    0 \<notin> set (ids_of_keys ns keys) \<and> (\<forall>i\<in>set (ids_of_keys ns keys). in_unbond_period (ns_state ns i)) \<and>
    ns' = move_nodes (ids_of_keys ns keys) (\<lambda>i. unbonding (ns_state ns i)) ns"
  using assms
proof (induction keys arbitrary: ids ns)
  case (Cons k keys)
  let ?i = "ns_bls_to_id ns k"
  let ?ns = "set_node_state ?i (unbonding (ns_state ns ?i)) ns"
  have r: "?i \<noteq> 0" "in_unbond_period (ns_state ns ?i)" "length ids < MAX_NODES_PER_OPERATION"
    "unbond_specific_nodes_loop keys (ids @ [?i]) ?ns = Inr (ids', ns')"
    using Cons.prems(1) by (auto simp: Let_def res_elims prepare_node_eq node_ids_push_eq_Inr)
  have ids: "ids_of_keys ?ns keys = ids_of_keys ns keys"
    by (simp add: ids_of_keys_def)
  note IH = Cons.IH [OF r(4), unfolded ids]
  have nin: "?i \<notin> set (ids_of_keys ns keys)"
    using IH r(2,3) unbonding_twice by fastforce
  have "move_nodes (ids_of_keys ns keys) (\<lambda>i. unbonding (ns_state ?ns i)) ?ns =
      move_nodes (ids_of_keys ns keys) (\<lambda>i. unbonding (ns_state ns i)) ?ns"
    using nin by (intro move_nodes_cong) auto
  also have "\<dots> = move_nodes (?i # ids_of_keys ns keys) (\<lambda>i. unbonding (ns_state ns i)) ns"
    by (rule move_nodes_Cons [OF nin])
  finally have "ns' = move_nodes (?i # ids_of_keys ns keys) (\<lambda>i. unbonding (ns_state ns i)) ns"
    using IH r(3) by simp
  moreover have "\<forall>i\<in>set (ids_of_keys ns keys). in_unbond_period (ns_state ns i)"
    using IH r(3) states_elsewhere [OF nin] by (metis (no_types, lifting) Suc_leI length_append_singleton)
  moreover have "ids_of_keys ns (k # keys) = ?i # ids_of_keys ns keys"
    by (simp add: ids_of_keys_def)
  ultimately show ?case
    using IH r nin by auto
qed (simp add: ids_of_keys_def)

lemma unbond_all_loop_eq:
  assumes "unbond_all_loop missing n ids keys ns = Inr (ids', keys', ns')" and "length ids \<le> MAX_NODES_PER_OPERATION"
  shows "\<exists>new. ids' = ids @ new \<and> distinct new \<and> length ids' \<le> MAX_NODES_PER_OPERATION \<and>
    set new = {i\<in>{1..n}. in_unbond_period (ns_state ns i)} \<and>
    ns' = move_nodes new (\<lambda>i. unbonding (ns_state ns i)) ns"
  using assms
proof (induction n arbitrary: ids keys ns)
  case (Suc n)
  let ?i = "Suc n"
  let ?ns = "set_node_state ?i (unbonding (ns_state ns ?i)) ns"
  have range: "{i\<in>{1..Suc n}. P i} = (if P ?i then insert ?i {i\<in>{1..n}. P i} else {i\<in>{1..n}. P i})" for P
    by (auto simp: le_Suc_eq)
  show ?case
  proof (cases "in_unbond_period (ns_state ns ?i)")
    case True
    then obtain k where r: "length ids < MAX_NODES_PER_OPERATION"
      "unbond_all_loop missing n (ids @ [?i]) (keys @ [k]) ?ns = Inr (ids', keys', ns')"
      using Suc.prems(1) by (auto simp: Let_def res_elims prepare_node_eq node_ids_push_eq_Inr)
    then obtain new where new: "ids' = (ids @ [?i]) @ new" "distinct new" "length ids' \<le> MAX_NODES_PER_OPERATION"
      "set new = {i\<in>{1..n}. in_unbond_period (ns_state ?ns i)}" "ns' = move_nodes new (\<lambda>i. unbonding (ns_state ?ns i)) ?ns"
      using Suc.IH [OF r(2)] by auto
    have set: "set new = {i\<in>{1..n}. in_unbond_period (ns_state ns i)}"
      unfolding new(4) by auto
    then have nin: "?i \<notin> set new"
      by auto
    have "ns' = move_nodes new (\<lambda>i. unbonding (ns_state ns i)) ?ns"
      unfolding new(5) using nin by (intro move_nodes_cong) auto
    also have "\<dots> = move_nodes (?i # new) (\<lambda>i. unbonding (ns_state ns i)) ns"
      by (rule move_nodes_Cons [OF nin])
    finally show ?thesis
      using new(1-3) set nin True by (intro exI [of _ "?i # new"]) (simp only: range, simp)
  next
    case False
    then have "?ns = ns"
      by (cases "ns_state ns ?i") (auto intro: set_node_state_same)
    then have "unbond_all_loop missing n ids keys ns = Inr (ids', keys', ns')"
      using Suc.prems(1) False by (simp add: Let_def prepare_node_eq)
    then show ?thesis
      using Suc.IH [OF _ Suc.prems(2)] False by (simp only: range if_False)
  qed
qed simp

lemma revert_to_unbond_period_run:
  assumes "distinct ids" and "\<And>i. i \<in> set ids \<Longrightarrow> ns_state ns i = PendingUnBond (started i)"
  shows "revert_to_unbond_period ids ns = Inr (move_nodes ids (\<lambda>i. UnBondPeriod (started i)) ns)"
  using assms
proof (induction ids arbitrary: ns)
  case (Cons i ids)
  have "ns_state (set_node_state i (UnBondPeriod (started i)) ns) j = PendingUnBond (started j)" if "j \<in> set ids" for j
    using that Cons.prems by auto
  then show ?case
    using Cons.IH [of "set_node_state i (UnBondPeriod (started i)) ns"] Cons.prems
      move_nodes_Cons [of i ids "\<lambda>i. UnBondPeriod (started i)" ns]
    by (simp add: get_node_state_def)
qed simp

section \<open>Callbacks on their way\<close>

fun callback_ids :: "auction_callback \<Rightarrow> nat list" where
  "callback_ids (AuctionStakeCallback ids) = ids"
| "callback_ids (AuctionUnstakeCallback ids) = ids"
| "callback_ids (AuctionUnbondCallback ids) = ids"

fun is_pending_unbond :: "node_state \<Rightarrow> bool" where
  "is_pending_unbond (PendingUnBond started) = True"
| "is_pending_unbond st = False"

fun callback_waits :: "auction_callback \<Rightarrow> node_state \<Rightarrow> bool" where
  "callback_waits (AuctionStakeCallback ids) st \<longleftrightarrow> st = PendingActivation"
| "callback_waits (AuctionUnstakeCallback ids) st \<longleftrightarrow> st = PendingDeactivation"
| "callback_waits (AuctionUnbondCallback ids) st \<longleftrightarrow> is_pending_unbond st"

definition is_pending :: "node_state \<Rightarrow> bool" where
  "is_pending st \<longleftrightarrow> st = PendingActivation \<or> st = PendingDeactivation \<or> is_pending_unbond st"

definition waiting_ids :: "auction_callback list \<Rightarrow> nat list" where
  "waiting_ids p = concat (map callback_ids p)"

definition pending_inv :: "node_storage \<Rightarrow> auction_callback list \<Rightarrow> bool" where
  "pending_inv ns p \<longleftrightarrow> distinct (waiting_ids p) \<and> set (waiting_ids p) \<subseteq> {1..ns_num_nodes ns} \<and>
     (\<forall>cb\<in>set p. length (callback_ids cb) \<le> MAX_NODES_PER_OPERATION \<and>
        (\<forall>i\<in>set (callback_ids cb). callback_waits cb (ns_state ns i))) \<and>
     (\<forall>i. is_pending (ns_state ns i) \<longrightarrow> i \<in> set (waiting_ids p))"

lemma waiting_ids_simps [simp]:
  "waiting_ids [] = []" "waiting_ids (cb # p) = callback_ids cb @ waiting_ids p"
  "waiting_ids (p @ q) = waiting_ids p @ waiting_ids q"
  by (simp_all add: waiting_ids_def)

lemma waits_pending: "callback_waits cb st \<Longrightarrow> is_pending st"
  by (cases cb) (auto simp: is_pending_def)

lemma in_waiting_ids: "i \<in> set (waiting_ids p) \<longleftrightarrow> (\<exists>cb\<in>set p. i \<in> set (callback_ids cb))"
  by (auto simp: waiting_ids_def)

lemma pending_inv_waits:
  assumes "pending_inv ns p" and "i \<in> set (waiting_ids p)"
  shows "is_pending (ns_state ns i)"
  using assms waits_pending unfolding pending_inv_def in_waiting_ids by blast

text \<open>A call is sent: nodes that wait for nothing wait for it now.\<close>

lemma pending_inv_send:
  assumes inv: "pending_inv ns p" and ids: "distinct (callback_ids cb)" "set (callback_ids cb) \<subseteq> {1..ns_num_nodes ns}"
    "length (callback_ids cb) \<le> MAX_NODES_PER_OPERATION"
    and free: "\<And>i. i \<in> set (callback_ids cb) \<Longrightarrow> \<not> is_pending (ns_state ns i)"
    and waits: "\<And>i. i \<in> set (callback_ids cb) \<Longrightarrow> callback_waits cb (f i)"
  shows "pending_inv (move_nodes (callback_ids cb) f ns) (cb # p)"
proof -
  have disj: "set (callback_ids cb) \<inter> set (waiting_ids p) = {}"
    using pending_inv_waits [OF inv] free by blast
  have old: "callback_waits cb' (ns_state (move_nodes (callback_ids cb) f ns) i)"
    if "cb' \<in> set p" "i \<in> set (callback_ids cb')" for cb' i
  proof -
    have "i \<notin> set (callback_ids cb)"
      using that disj in_waiting_ids [of i p] by blast
    then show ?thesis
      using inv that by (simp add: pending_inv_def)
  qed
  show ?thesis
    using inv ids waits disj old unfolding pending_inv_def by auto
qed

text \<open>A callback runs: its nodes wait no longer.\<close>

lemma pending_inv_answer:
  assumes inv: "pending_inv ns (p @ cb # q)"
    and free: "\<And>i. i \<in> set (callback_ids cb) \<Longrightarrow> \<not> is_pending (f i)"
  shows "pending_inv (move_nodes (callback_ids cb) f ns) (p @ q)"
proof -
  have other: "i \<notin> set (callback_ids cb)" if "cb' \<in> set (p @ q)" "i \<in> set (callback_ids cb')" for cb' i
  proof -
    have "i \<in> set (waiting_ids p) \<union> set (waiting_ids q)"
      using that by (auto simp: in_waiting_ids)
    then show ?thesis
      using inv by (auto simp: pending_inv_def)
  qed
  show ?thesis
    using inv free other unfolding pending_inv_def by auto
qed

lemma pending_inv_cb:
  assumes "pending_inv ns (p @ cb # q)"
  shows "distinct (callback_ids cb)" "length (callback_ids cb) \<le> MAX_NODES_PER_OPERATION"
    "\<And>i. i \<in> set (callback_ids cb) \<Longrightarrow> callback_waits cb (ns_state ns i)"
  using assms by (auto simp: pending_inv_def)

section \<open>Answers\<close>

lemma split_run:
  assumes "distinct ids" and "length ids \<le> MAX_NODES_PER_OPERATION"
  shows "\<exists>ok failed. split_node_ids_by_err ns ids args = Inr (ok, failed) \<and> mset ok + mset failed = mset ids \<and>
    set failed = set ids \<inter> reported ns args \<and> set ok = set ids - reported ns args \<and> distinct failed \<and> distinct ok"
proof -
  obtain ok failed where r: "split_node_ids_by_err_loop ns args ids [] = Inr (ok, failed)"
    "mset (ok @ failed) = mset ids" "set failed = set ids \<inter> reported ns args"
    using split_node_ids_by_err_loop_run [of ids "[]" ns args] assms by auto
  have "distinct (ok @ failed)" "set (ok @ failed) = set ids"
    using mset_eq_imp_distinct_iff [OF r(2)] mset_eq_setD [OF r(2)] assms(1) by simp_all
  then show ?thesis
    using r by (auto simp: split_node_ids_by_err_def)
qed

definition failed_ids :: "node_storage \<Rightarrow> nat list \<Rightarrow> async_call_result \<Rightarrow> nat set" where
  "failed_ids ns ids r = (case r of AsyncOk args \<Rightarrow> set ids \<inter> reported ns args | AsyncErr _ \<Rightarrow> set ids)"

lemma set_states_twice:
  assumes "set ok = set ids - F" and "set failed = set ids \<inter> F"
  shows "set_node_states failed b (set_node_states ok a ns) = move_nodes ids (\<lambda>i. if i \<in> F then b else a) ns"
  unfolding set_node_states_move move_nodes_move_nodes using assms by (intro move_nodes_cong) auto

lemma stake_callback_run:
  assumes "distinct ids" and "length ids \<le> MAX_NODES_PER_OPERATION"
  shows "\<exists>effs. auction_stake_callback ids r c = Inr (c\<lparr>c_nodes := move_nodes ids
      (\<lambda>i. if i \<in> failed_ids (c_nodes c) ids r then Inactive else NodeActive) (c_nodes c)\<rparr>, effs)"
proof (cases r)
  case (AsyncOk args)
  obtain ok failed where s: "split_node_ids_by_err (c_nodes c) ids args = Inr (ok, failed)"
    "set failed = set ids \<inter> reported (c_nodes c) args" "set ok = set ids - reported (c_nodes c) args"
    using split_run [OF assms] by blast
  have "set_node_states failed Inactive (set_node_states ok NodeActive (c_nodes c)) =
      move_nodes ids (\<lambda>i. if i \<in> failed_ids (c_nodes c) ids r then Inactive else NodeActive) (c_nodes c)"
    unfolding set_states_twice [OF s(3,2)] by (rule move_nodes_cong) (auto simp: failed_ids_def AsyncOk)
  then show ?thesis
    using s(1) by (auto simp: auction_stake_callback_def AsyncOk auction_stake_callback_ok_def
        auction_stake_callback_fail_def set_node_states_def)
next
  case (AsyncErr msg)
  have "set_node_states ids Inactive (c_nodes c) =
      move_nodes ids (\<lambda>i. if i \<in> failed_ids (c_nodes c) ids r then Inactive else NodeActive) (c_nodes c)"
    unfolding set_node_states_move by (rule move_nodes_cong) (auto simp: failed_ids_def AsyncErr)
  then show ?thesis
    by (auto simp: auction_stake_callback_def AsyncErr auction_stake_callback_fail_def set_node_states_def)
qed

lemma unstake_callback_run:
  assumes "distinct ids" and "length ids \<le> MAX_NODES_PER_OPERATION"
  shows "\<exists>effs. auction_unstake_callback env ids r c = Inr (c\<lparr>c_nodes := move_nodes ids
      (\<lambda>i. if i \<in> failed_ids (c_nodes c) ids r then NodeActive else UnBondPeriod (block_nonce env)) (c_nodes c)\<rparr>, effs)"
proof (cases r)
  case (AsyncOk args)
  obtain ok failed where s: "split_node_ids_by_err (c_nodes c) ids args = Inr (ok, failed)"
    "set failed = set ids \<inter> reported (c_nodes c) args" "set ok = set ids - reported (c_nodes c) args"
    using split_run [OF assms] by blast
  have "set_node_states failed NodeActive (set_node_states ok (UnBondPeriod (block_nonce env)) (c_nodes c)) =
      move_nodes ids (\<lambda>i. if i \<in> failed_ids (c_nodes c) ids r then NodeActive else UnBondPeriod (block_nonce env)) (c_nodes c)"
    unfolding set_states_twice [OF s(3,2)] by (rule move_nodes_cong) (auto simp: failed_ids_def AsyncOk)
  then show ?thesis
    using s(1) by (auto simp: auction_unstake_callback_def AsyncOk auction_unstake_callback_ok_def
        auction_unstake_callback_fail_def set_node_states_def)
next
  case (AsyncErr msg)
  have "set_node_states ids NodeActive (c_nodes c) =
      move_nodes ids (\<lambda>i. if i \<in> failed_ids (c_nodes c) ids r then NodeActive else UnBondPeriod (block_nonce env)) (c_nodes c)"
    unfolding set_node_states_move by (rule move_nodes_cong) (auto simp: failed_ids_def AsyncErr)
  then show ?thesis
    by (auto simp: auction_unstake_callback_def AsyncErr auction_unstake_callback_fail_def set_node_states_def)
qed

text \<open>The unbond period a failed unbonding returns to is the one it came from.\<close>

fun back_to_period :: "node_state \<Rightarrow> node_state" where
  "back_to_period (PendingUnBond started) = UnBondPeriod started"
| "back_to_period st = st"

lemma unbond_fail_run:
  assumes "distinct ids" and "\<And>i. i \<in> set ids \<Longrightarrow> is_pending_unbond (ns_state (c_nodes c) i)"
  shows "\<exists>effs. auction_unbond_callback_fail ids msg c =
    Inr (c\<lparr>c_nodes := move_nodes ids (\<lambda>i. back_to_period (ns_state (c_nodes c) i)) (c_nodes c)\<rparr>, effs)"
proof -
  define started where "started i = (case ns_state (c_nodes c) i of PendingUnBond n \<Rightarrow> n | _ \<Rightarrow> 0)" for i
  have st: "ns_state (c_nodes c) i = PendingUnBond (started i)" if "i \<in> set ids" for i
    using assms(2) [OF that] by (cases "ns_state (c_nodes c) i") (auto simp: started_def)
  have "revert_to_unbond_period ids (c_nodes c) = Inr (move_nodes ids (\<lambda>i. UnBondPeriod (started i)) (c_nodes c))"
    by (rule revert_to_unbond_period_run [OF assms(1) st])
  also have "move_nodes ids (\<lambda>i. UnBondPeriod (started i)) (c_nodes c) =
      move_nodes ids (\<lambda>i. back_to_period (ns_state (c_nodes c) i)) (c_nodes c)"
    by (rule move_nodes_cong) (simp_all add: st)
  finally show ?thesis
    by (cases "ids = []") (simp_all add: auction_unbond_callback_fail_def)
qed

lemma unbond_callback_run:
  assumes "distinct ids" and "length ids \<le> MAX_NODES_PER_OPERATION"
    and "\<And>i. i \<in> set ids \<Longrightarrow> is_pending_unbond (ns_state (c_nodes c) i)"
  shows "\<exists>effs. auction_unbond_callback ids r c = Inr (c\<lparr>c_nodes := move_nodes ids
      (\<lambda>i. if i \<in> failed_ids (c_nodes c) ids r then back_to_period (ns_state (c_nodes c) i) else Inactive) (c_nodes c)\<rparr>, effs)"
proof (cases r)
  case (AsyncOk args)
  obtain ok failed where s: "split_node_ids_by_err (c_nodes c) ids args = Inr (ok, failed)" "distinct failed"
    "set failed = set ids \<inter> reported (c_nodes c) args" "set ok = set ids - reported (c_nodes c) args"
    using split_run [OF assms(1,2)] by blast
  let ?ns = "set_node_states ok Inactive (c_nodes c)" and ?c = "c\<lparr>c_nodes := set_node_states ok Inactive (c_nodes c)\<rparr>"
  have same: "ns_state ?ns i = ns_state (c_nodes c) i" if "i \<in> set failed" for i
    using that s(3,4) by (auto simp: set_node_states_move)
  obtain effs where fail: "auction_unbond_callback_fail failed ''unbonding failed for some nodes'' ?c =
      Inr (?c\<lparr>c_nodes := move_nodes failed (\<lambda>i. back_to_period (ns_state ?ns i)) ?ns\<rparr>, effs)"
    using unbond_fail_run [OF s(2), of ?c "''unbonding failed for some nodes''"] same assms(3) s(3) by auto
  have "move_nodes failed (\<lambda>i. back_to_period (ns_state ?ns i)) ?ns =
      move_nodes ids (\<lambda>i. if i \<in> failed_ids (c_nodes c) ids r then back_to_period (ns_state (c_nodes c) i) else Inactive) (c_nodes c)"
    unfolding set_node_states_move move_nodes_move_nodes using s(3,4)
    by (intro move_nodes_cong) (auto simp: failed_ids_def AsyncOk)
  then show ?thesis
    using s(1) fail
    by (cases "ok = []") (auto simp: auction_unbond_callback_def AsyncOk auction_unbond_callback_ok_def set_node_states_def)
next
  case (AsyncErr msg)
  have "move_nodes ids (\<lambda>i. back_to_period (ns_state (c_nodes c) i)) (c_nodes c) =
      move_nodes ids (\<lambda>i. if i \<in> failed_ids (c_nodes c) ids r then back_to_period (ns_state (c_nodes c) i) else Inactive) (c_nodes c)"
    by (rule move_nodes_cong) (auto simp: failed_ids_def AsyncErr)
  then show ?thesis
    using unbond_fail_run [OF assms(1,3), of msg] by (simp add: auction_unbond_callback_def AsyncErr)
qed

section \<open>The system of nodes and callbacks\<close>

fun effect_callbacks :: "sc_effect list \<Rightarrow> auction_callback list" where
  "effect_callbacks [] = []"
| "effect_callbacks (AsyncCall to amount call (Some cb) # effs) = cb # effect_callbacks effs"
| "effect_callbacks (_ # effs) = effect_callbacks effs"

text \<open>
  A state is the contract with the callbacks that are on their way; a callback may run at
  any time, in any order, with any answer, and runs once. If it fails, what it did is reverted,
  and it is gone. The parameter says which uses of \<^verbatim>\<open>forceNodeUnBondPeriod\<close> are considered: with
  \<open>\<lambda>c keys. True\<close> the relation is the whole system.
\<close>

inductive node_step ::
    "(contract \<Rightarrow> bls_key list \<Rightarrow> bool) \<Rightarrow> contract \<times> auction_callback list \<Rightarrow> contract \<times> auction_callback list \<Rightarrow> bool"
  for may_force where
  stake: "stake_nodes env missing amount keys c = Inr (c', effs) \<Longrightarrow> node_step may_force (c, p) (c', effect_callbacks effs @ p)"
| unstake: "unstake_nodes_endpoint env keys c = Inr (c', effs) \<Longrightarrow> node_step may_force (c, p) (c', effect_callbacks effs @ p)"
| unstake_all: "unstake_nodes_and_tokens_endpoint env keys c = Inr (c', effs) \<Longrightarrow>
    node_step may_force (c, p) (c', effect_callbacks effs @ p)"
| unbond: "unbond_specific_nodes_endpoint env keys c = Inr (c', effs) \<Longrightarrow>
    node_step may_force (c, p) (c', effect_callbacks effs @ p)"
| unbond_all: "unbond_all_possible_nodes env missing_key c = Inr (c', effs) \<Longrightarrow>
    node_step may_force (c, p) (c', effect_callbacks effs @ p)"
| callback: "auction_callback_run env cb r c = Inr (c', effs) \<Longrightarrow> node_step may_force (c, p @ cb # q) (c', p @ q)"
| callback_fails: "auction_callback_run env cb r c = Inl e \<Longrightarrow> node_step may_force (c, p @ cb # q) (c, p @ q)"
| force: "force_node_unbond_period env keys c = Inr c' \<Longrightarrow> may_force c keys \<Longrightarrow> node_step may_force (c, p) (c', p)"
| add: "add_nodes_endpoint env kss c = Inr c' \<Longrightarrow> ns_num_nodes (c_nodes c) + length kss < usize_max \<Longrightarrow>
    node_step may_force (c, p) (c', p)"
| remove: "remove_nodes_endpoint env keys c = Inr c' \<Longrightarrow> node_step may_force (c, p) (c', p)"
| elsewhere: "c_nodes c' = c_nodes c \<Longrightarrow> node_step may_force (c, p) (c', p)"

inductive_cases node_stepE: "node_step may_force s s'"

definition node_sys_inv :: "contract \<times> auction_callback list \<Rightarrow> bool" where
  "node_sys_inv s \<longleftrightarrow> node_inv (c_nodes (fst s)) \<and> pending_inv (c_nodes (fst s)) (snd s)"

text \<open>\<^verbatim>\<open>forceNodeUnBondPeriod\<close> where it breaks nothing: no node it names waits for a callback.\<close>

definition none_pending :: "contract \<Rightarrow> bls_key list \<Rightarrow> bool" where
  "none_pending c keys \<longleftrightarrow> (\<forall>k\<in>set keys. \<not> is_pending (get_node_state (c_nodes c) (ns_bls_to_id (c_nodes c) k)))"

text \<open>A node that \<^verbatim>\<open>forceNodeUnBondPeriod\<close> moved.\<close>

definition forced :: "contract \<Rightarrow> contract \<Rightarrow> nat \<Rightarrow> bool" where
  "forced c c' i \<longleftrightarrow> (\<exists>env keys. force_node_unbond_period env keys c = Inr c' \<and> i \<in> ns_bls_to_id (c_nodes c) ` set keys) \<and>
     get_node_state (c_nodes c') i = UnBondPeriod 0"

text \<open>The states a node goes through.\<close>

inductive node_edge :: "node_state \<Rightarrow> node_state \<Rightarrow> bool" where
  "node_edge st st"
| "node_edge Inactive PendingActivation"
| "node_edge PendingActivation NodeActive"
| "node_edge PendingActivation Inactive"
| "node_edge NodeActive PendingDeactivation"
| "node_edge PendingDeactivation (UnBondPeriod started)"
| "node_edge PendingDeactivation NodeActive"
| "node_edge (UnBondPeriod started) (PendingUnBond started)"
| "node_edge (PendingUnBond started) Inactive"
| "node_edge (PendingUnBond started) (UnBondPeriod started)"
| "node_edge Inactive Removed"
| "node_edge Removed Inactive"

lemma add_one_states:
  assumes "node_inv ns" and "add_nodes [(k, sig)] ns = Inr ns'" and "Suc (ns_num_nodes ns) < usize_max"
  shows "ns_num_nodes ns \<le> ns_num_nodes ns'"
    and "ns_state ns' i = ns_state ns i \<or> ns_state ns' i = Inactive \<and> (ns_state ns i = Removed \<or> i \<notin> {1..ns_num_nodes ns})"
  using assms by (auto simp: add_one_node Let_def usize_add_small split: if_splits)

lemma add_nodes_states:
  assumes "node_inv ns" and "add_nodes kss ns = Inr ns'" and "ns_num_nodes ns + length kss < usize_max"
  shows "ns_num_nodes ns \<le> ns_num_nodes ns' \<and>
    (\<forall>i. ns_state ns' i = ns_state ns i \<or> ns_state ns' i = Inactive \<and> (ns_state ns i = Removed \<or> i \<notin> {1..ns_num_nodes ns}))"
  using assms
proof (induction kss arbitrary: ns)
  case (Cons ks kss)
  obtain k sig where ks: "ks = (k, sig)"
    by (cases ks)
  obtain ns1 where ns1: "add_nodes [(k, sig)] ns = Inr ns1" "add_nodes kss ns1 = Inr ns'"
    using Cons.prems(2) [unfolded add_nodes_Cons [of ks kss ns]] by (auto simp only: ks bind_res_eq_Inr)
  have room: "Suc (ns_num_nodes ns) < usize_max"
    using Cons.prems(3) by simp
  note one = node_inv_add_one [OF Cons.prems(1) ns1(1) room] and st = add_one_states [OF Cons.prems(1) ns1(1) room]
  have IH: "ns_num_nodes ns1 \<le> ns_num_nodes ns'"
    "ns_state ns' i = ns_state ns1 i \<or> ns_state ns' i = Inactive \<and> (ns_state ns1 i = Removed \<or> i \<notin> {1..ns_num_nodes ns1})" for i
    using Cons.IH [OF one(1) ns1(2)] one(2) Cons.prems(3) by auto
  have "ns_state ns' i = ns_state ns i \<or> ns_state ns' i = Inactive \<and> (ns_state ns i = Removed \<or> i \<notin> {1..ns_num_nodes ns})" for i
    using IH(2) [of i] st(2) [of i] st(1) by auto
  then show ?case
    using IH(1) st(1) by auto
qed simp

text \<open>The shape of a successful step: which nodes move where.\<close>

lemma registry_range: "node_inv ns \<Longrightarrow> 0 \<notin> set (ids_of_keys ns keys) \<Longrightarrow> set (ids_of_keys ns keys) \<subseteq> {1..ns_num_nodes ns}"
  by (auto simp: node_inv_def registry_inv_def ids_of_keys_def Suc_le_eq)

lemma stake_nodes_eq:
  assumes "stake_nodes env missing amount keys c = Inr (c', effs)"
  shows "\<exists>sigs. c' = c\<lparr>c_nodes := move_nodes (ids_of_keys (c_nodes c) keys) (\<lambda>_. PendingActivation) (c_nodes c)\<rparr> \<and>
    effs = [AsyncCall (auction_addr (c_settings c)) amount (AuctionStake (length keys) sigs)
      (Some (AuctionStakeCallback (ids_of_keys (c_nodes c) keys)))] \<and> map fst sigs = keys \<and>
    distinct (ids_of_keys (c_nodes c) keys) \<and> length keys \<le> MAX_NODES_PER_OPERATION \<and>
    0 \<notin> set (ids_of_keys (c_nodes c) keys) \<and> (\<forall>i\<in>set (ids_of_keys (c_nodes c) keys). ns_state (c_nodes c) i = Inactive)"
proof -
  obtain ids sigs ns where r: "stake_nodes_loop missing keys [] [] (c_nodes c) = Inr (ids, sigs, ns)"
    "c' = c\<lparr>c_nodes := ns\<rparr>" "effs = perform_stake_nodes c' ids sigs amount"
    using assms by (auto simp: stake_nodes_def only_owner_eq_Inr res_elims Let_def)
  show ?thesis
    using stake_nodes_loop_eq [OF r(1)] r(2,3) by (auto simp: perform_stake_nodes_def ids_of_keys_def)
qed

lemma unstake_nodes_eq:
  assumes "unstake_nodes b keys c = Inr (c', effs)"
  shows "\<exists>call. c' = c\<lparr>c_nodes := move_nodes (ids_of_keys (c_nodes c) keys) (\<lambda>_. PendingDeactivation) (c_nodes c)\<rparr> \<and>
    effs = [AsyncCall (auction_addr (c_settings c)) 0 call (Some (AuctionUnstakeCallback (ids_of_keys (c_nodes c) keys)))] \<and>
    distinct (ids_of_keys (c_nodes c) keys) \<and> length keys \<le> MAX_NODES_PER_OPERATION \<and>
    0 \<notin> set (ids_of_keys (c_nodes c) keys) \<and> (\<forall>i\<in>set (ids_of_keys (c_nodes c) keys). ns_state (c_nodes c) i = NodeActive)"
proof -
  obtain ids ns where r: "unstake_nodes_loop (c_nodes c) keys [] = Inr ids" "pending_deactivation_loop ids (c_nodes c) = Inr ns"
    "c' = c\<lparr>c_nodes := ns\<rparr>"
    "effs = [AsyncCall (auction_addr (c_settings c)) 0 (if b then AuctionUnStake keys else AuctionUnStakeNodes keys)
       (Some (AuctionUnstakeCallback ids))]"
    using assms by (auto simp: unstake_nodes_def perform_unstake_nodes_def res_elims)
  show ?thesis
    using unstake_nodes_loop_eq [OF r(1)] pending_deactivation_loop_eq [OF r(2)] r(3,4) by (auto simp: ids_of_keys_def)
qed

lemma unbond_specific_eq:
  assumes "unbond_specific_nodes_endpoint env keys c = Inr (c', effs)"
  shows "c' = c\<lparr>c_nodes := move_nodes (ids_of_keys (c_nodes c) keys) (\<lambda>i. unbonding (ns_state (c_nodes c) i)) (c_nodes c)\<rparr> \<and>
    effs = [AsyncCall (auction_addr (c_settings c)) 0 (AuctionUnBondNodes keys)
      (Some (AuctionUnbondCallback (ids_of_keys (c_nodes c) keys)))] \<and>
    distinct (ids_of_keys (c_nodes c) keys) \<and> length keys \<le> MAX_NODES_PER_OPERATION \<and>
    0 \<notin> set (ids_of_keys (c_nodes c) keys) \<and> (\<forall>i\<in>set (ids_of_keys (c_nodes c) keys). in_unbond_period (ns_state (c_nodes c) i))"
proof -
  obtain ids ns where r: "unbond_specific_nodes_loop keys [] (c_nodes c) = Inr (ids, ns)"
    "c' = c\<lparr>c_nodes := ns\<rparr>" "effs = perform_unbond ids keys c'"
    using assms by (auto simp: unbond_specific_nodes_endpoint_def only_owner_eq_Inr res_elims Let_def)
  show ?thesis
    using unbond_specific_nodes_loop_eq [OF r(1)] r(2,3) by (auto simp: perform_unbond_def ids_of_keys_def)
qed

lemma unbond_all_eq:
  assumes "unbond_all_possible_nodes env missing c = Inr (c', effs)"
  shows "\<exists>ids. c' = c\<lparr>c_nodes := move_nodes ids (\<lambda>i. unbonding (ns_state (c_nodes c) i)) (c_nodes c)\<rparr> \<and>
    effect_callbacks effs = (if ids = [] then [] else [AuctionUnbondCallback ids]) \<and>
    distinct ids \<and> length ids \<le> MAX_NODES_PER_OPERATION \<and>
    set ids = {i\<in>{1..ns_num_nodes (c_nodes c)}. in_unbond_period (ns_state (c_nodes c) i)}"
proof -
  obtain ids keys ns where r: "unbond_all_loop missing (ns_num_nodes (c_nodes c)) [] [] (c_nodes c) = Inr (ids, keys, ns)"
    "c' = c\<lparr>c_nodes := ns\<rparr>" "effs = (if ids \<noteq> [] then perform_unbond ids keys c' else [])"
    using assms by (auto simp: unbond_all_possible_nodes_def only_owner_eq_Inr res_elims Let_def)
  show ?thesis
    using unbond_all_loop_eq [OF r(1)] r(2,3) by (auto simp: perform_unbond_def)
qed

section \<open>Preservation\<close>

lemma send_ok:
  assumes inv: "node_sys_inv (c, p)" and ids: "distinct (callback_ids cb)" "length (callback_ids cb) \<le> MAX_NODES_PER_OPERATION"
    "set (callback_ids cb) \<subseteq> {1..ns_num_nodes (c_nodes c)}"
    and move: "\<And>i. i \<in> set (callback_ids cb) \<Longrightarrow> \<not> is_pending (ns_state (c_nodes c) i) \<and> callback_waits cb (f i) \<and>
      node_edge (ns_state (c_nodes c) i) (f i)"
  shows "node_sys_inv (c\<lparr>c_nodes := move_nodes (callback_ids cb) f (c_nodes c)\<rparr>, cb # p)"
    and "node_edge (ns_state (c_nodes c) i) (ns_state (move_nodes (callback_ids cb) f (c_nodes c)) i)"
  using assms pending_inv_send [of "c_nodes c" p cb f] by (auto simp: node_sys_inv_def intro: node_edge.intros(1))

lemma answer_ok:
  assumes inv: "node_sys_inv (c, p @ cb # q)"
    and move: "\<And>i. i \<in> set (callback_ids cb) \<Longrightarrow> \<not> is_pending (f i) \<and> node_edge (ns_state (c_nodes c) i) (f i)"
  shows "node_sys_inv (c\<lparr>c_nodes := move_nodes (callback_ids cb) f (c_nodes c)\<rparr>, p @ q)"
    and "node_edge (ns_state (c_nodes c) i) (ns_state (move_nodes (callback_ids cb) f (c_nodes c)) i)"
  using assms pending_inv_answer [of "c_nodes c" p cb q f] by (auto simp: node_sys_inv_def intro: node_edge.intros(1))

lemma stake_step_ok:
  assumes "node_sys_inv (c, p)" and "stake_nodes env missing amount keys c = Inr (c', effs)"
  shows "node_sys_inv (c', effect_callbacks effs @ p) \<and> (\<forall>i. node_edge (ns_state (c_nodes c) i) (ns_state (c_nodes c') i))"
proof -
  let ?cb = "AuctionStakeCallback (ids_of_keys (c_nodes c) keys)"
  note eq = stake_nodes_eq [OF assms(2)]
  have "set (callback_ids ?cb) \<subseteq> {1..ns_num_nodes (c_nodes c)}"
    using eq assms(1) registry_range by (auto simp: node_sys_inv_def)
  moreover have "\<not> is_pending (ns_state (c_nodes c) i) \<and> callback_waits ?cb PendingActivation \<and>
      node_edge (ns_state (c_nodes c) i) PendingActivation" if "i \<in> set (callback_ids ?cb)" for i
    using eq that by (auto simp: is_pending_def node_edge.intros)
  ultimately show ?thesis
    using eq send_ok [OF assms(1), of ?cb "\<lambda>_. PendingActivation"] node_edge.intros(1) by (auto simp: ids_of_keys_def)
qed

lemma unstake_step_ok:
  assumes "node_sys_inv (c, p)" and "unstake_nodes b keys c = Inr (c', effs)"
  shows "node_sys_inv (c', effect_callbacks effs @ p) \<and> (\<forall>i. node_edge (ns_state (c_nodes c) i) (ns_state (c_nodes c') i))"
proof -
  let ?cb = "AuctionUnstakeCallback (ids_of_keys (c_nodes c) keys)"
  note eq = unstake_nodes_eq [OF assms(2)]
  have "set (callback_ids ?cb) \<subseteq> {1..ns_num_nodes (c_nodes c)}"
    using eq assms(1) registry_range by (auto simp: node_sys_inv_def)
  moreover have "\<not> is_pending (ns_state (c_nodes c) i) \<and> callback_waits ?cb PendingDeactivation \<and>
      node_edge (ns_state (c_nodes c) i) PendingDeactivation" if "i \<in> set (callback_ids ?cb)" for i
    using eq that by (auto simp: is_pending_def node_edge.intros)
  ultimately show ?thesis
    using eq send_ok [OF assms(1), of ?cb "\<lambda>_. PendingDeactivation"] node_edge.intros(1) by (auto simp: ids_of_keys_def)
qed

lemma in_unbond_period_edge:
  "in_unbond_period st \<Longrightarrow> \<not> is_pending st \<and> is_pending_unbond (unbonding st) \<and> node_edge st (unbonding st)"
  by (cases st) (auto simp: is_pending_def intro: node_edge.intros)

lemma unbond_send_ok:
  assumes "node_sys_inv (c, p)" and "distinct ids" and "length ids \<le> MAX_NODES_PER_OPERATION"
    and "set ids \<subseteq> {1..ns_num_nodes (c_nodes c)}" and "\<forall>i\<in>set ids. in_unbond_period (ns_state (c_nodes c) i)"
  defines "c' \<equiv> c\<lparr>c_nodes := move_nodes ids (\<lambda>i. unbonding (ns_state (c_nodes c) i)) (c_nodes c)\<rparr>"
  shows "node_sys_inv (c', AuctionUnbondCallback ids # p) \<and> (\<forall>i. node_edge (ns_state (c_nodes c) i) (ns_state (c_nodes c') i))"
proof -
  have "\<not> is_pending (ns_state (c_nodes c) i) \<and> is_pending_unbond (unbonding (ns_state (c_nodes c) i)) \<and>
      node_edge (ns_state (c_nodes c) i) (unbonding (ns_state (c_nodes c) i))" if "i \<in> set ids" for i
    using in_unbond_period_edge assms(5) that by blast
  then show ?thesis
    using send_ok [OF assms(1), of "AuctionUnbondCallback ids" "\<lambda>i. unbonding (ns_state (c_nodes c) i)"] assms(2-4)
    by (simp add: c'_def)
qed

lemma unbond_specific_step_ok:
  assumes "node_sys_inv (c, p)" and "unbond_specific_nodes_endpoint env keys c = Inr (c', effs)"
  shows "node_sys_inv (c', effect_callbacks effs @ p) \<and> (\<forall>i. node_edge (ns_state (c_nodes c) i) (ns_state (c_nodes c') i))"
proof -
  note eq = unbond_specific_eq [OF assms(2)]
  have "set (ids_of_keys (c_nodes c) keys) \<subseteq> {1..ns_num_nodes (c_nodes c)}"
    using eq assms(1) registry_range by (auto simp: node_sys_inv_def)
  then show ?thesis
    using eq unbond_send_ok [OF assms(1), of "ids_of_keys (c_nodes c) keys"] by (simp add: ids_of_keys_def)
qed

lemma unbond_all_step_ok:
  assumes "node_sys_inv (c, p)" and "unbond_all_possible_nodes env missing c = Inr (c', effs)"
  shows "node_sys_inv (c', effect_callbacks effs @ p) \<and> (\<forall>i. node_edge (ns_state (c_nodes c) i) (ns_state (c_nodes c') i))"
proof -
  obtain ids where eq: "c' = c\<lparr>c_nodes := move_nodes ids (\<lambda>i. unbonding (ns_state (c_nodes c) i)) (c_nodes c)\<rparr>"
    "effect_callbacks effs = (if ids = [] then [] else [AuctionUnbondCallback ids])"
    "distinct ids" "length ids \<le> MAX_NODES_PER_OPERATION"
    "set ids = {i\<in>{1..ns_num_nodes (c_nodes c)}. in_unbond_period (ns_state (c_nodes c) i)}"
    using unbond_all_eq [OF assms(2)] by blast
  show ?thesis
  proof (cases "ids = []")
    case True
    then show ?thesis
      using eq(1,2) assms(1) by (simp add: node_edge.intros(1))
  next
    case False
    have "set ids \<subseteq> {1..ns_num_nodes (c_nodes c)}" "\<forall>i\<in>set ids. in_unbond_period (ns_state (c_nodes c) i)"
      using eq(5) by auto
    then show ?thesis
      using False eq(1,2) unbond_send_ok [OF assms(1) eq(3,4)] by simp
  qed
qed

lemma stake_answer_ok:
  assumes inv: "node_sys_inv (c, p @ AuctionStakeCallback ids # q)"
  shows "\<exists>c' effs. auction_stake_callback ids r c = Inr (c', effs) \<and> node_sys_inv (c', p @ q) \<and>
    (\<forall>i. node_edge (ns_state (c_nodes c) i) (ns_state (c_nodes c') i)) \<and>
    (\<forall>i\<in>set ids. ns_state (c_nodes c') i = (if i \<in> failed_ids (c_nodes c) ids r then Inactive else NodeActive))"
proof -
  note cb = pending_inv_cb [of "c_nodes c" p "AuctionStakeCallback ids" q]
  have ids: "distinct ids" "length ids \<le> MAX_NODES_PER_OPERATION" "\<And>i. i \<in> set ids \<Longrightarrow> ns_state (c_nodes c) i = PendingActivation"
    using inv cb by (simp_all add: node_sys_inv_def)
  obtain effs where run: "auction_stake_callback ids r c = Inr (c\<lparr>c_nodes := move_nodes ids
      (\<lambda>i. if i \<in> failed_ids (c_nodes c) ids r then Inactive else NodeActive) (c_nodes c)\<rparr>, effs)"
    using stake_callback_run [OF ids(1,2)] by blast
  then show ?thesis
    using answer_ok [OF inv, of "\<lambda>i. if i \<in> failed_ids (c_nodes c) ids r then Inactive else NodeActive"] ids(3)
    by (auto simp: is_pending_def node_edge.intros)
qed

lemma unstake_answer_ok:
  assumes inv: "node_sys_inv (c, p @ AuctionUnstakeCallback ids # q)"
  shows "\<exists>c' effs. auction_unstake_callback env ids r c = Inr (c', effs) \<and> node_sys_inv (c', p @ q) \<and>
    (\<forall>i. node_edge (ns_state (c_nodes c) i) (ns_state (c_nodes c') i)) \<and>
    (\<forall>i\<in>set ids. ns_state (c_nodes c') i =
       (if i \<in> failed_ids (c_nodes c) ids r then NodeActive else UnBondPeriod (block_nonce env)))"
proof -
  note cb = pending_inv_cb [of "c_nodes c" p "AuctionUnstakeCallback ids" q]
  have ids: "distinct ids" "length ids \<le> MAX_NODES_PER_OPERATION" "\<And>i. i \<in> set ids \<Longrightarrow> ns_state (c_nodes c) i = PendingDeactivation"
    using inv cb by (simp_all add: node_sys_inv_def)
  obtain effs where run: "auction_unstake_callback env ids r c = Inr (c\<lparr>c_nodes := move_nodes ids
      (\<lambda>i. if i \<in> failed_ids (c_nodes c) ids r then NodeActive else UnBondPeriod (block_nonce env)) (c_nodes c)\<rparr>, effs)"
    using unstake_callback_run [OF ids(1,2)] by blast
  then show ?thesis
    using answer_ok [OF inv, of "\<lambda>i. if i \<in> failed_ids (c_nodes c) ids r then NodeActive else UnBondPeriod (block_nonce env)"] ids(3)
    by (auto simp: is_pending_def node_edge.intros)
qed

lemma pending_unbond_edge:
  "is_pending_unbond st \<Longrightarrow> \<not> is_pending (back_to_period st) \<and> node_edge st (back_to_period st) \<and> node_edge st Inactive"
  by (cases st) (auto simp: is_pending_def intro: node_edge.intros)

lemma unbond_answer_ok:
  assumes inv: "node_sys_inv (c, p @ AuctionUnbondCallback ids # q)"
  shows "\<exists>c' effs. auction_unbond_callback ids r c = Inr (c', effs) \<and> node_sys_inv (c', p @ q) \<and>
    (\<forall>i. node_edge (ns_state (c_nodes c) i) (ns_state (c_nodes c') i)) \<and>
    (\<forall>i\<in>set ids. ns_state (c_nodes c') i =
       (if i \<in> failed_ids (c_nodes c) ids r then back_to_period (ns_state (c_nodes c) i) else Inactive))"
proof -
  note cb = pending_inv_cb [of "c_nodes c" p "AuctionUnbondCallback ids" q]
  have ids: "distinct ids" "length ids \<le> MAX_NODES_PER_OPERATION" "\<And>i. i \<in> set ids \<Longrightarrow> is_pending_unbond (ns_state (c_nodes c) i)"
    using inv cb by (simp_all add: node_sys_inv_def)
  let ?f = "\<lambda>i. if i \<in> failed_ids (c_nodes c) ids r then back_to_period (ns_state (c_nodes c) i) else Inactive"
  obtain effs where run: "auction_unbond_callback ids r c = Inr (c\<lparr>c_nodes := move_nodes ids ?f (c_nodes c)\<rparr>, effs)"
    using unbond_callback_run [OF ids] by blast
  have "\<not> is_pending (?f i) \<and> node_edge (ns_state (c_nodes c) i) (?f i)" if "i \<in> set ids" for i
    using pending_unbond_edge [OF ids(3) [OF that]] by (simp add: is_pending_def)
  then show ?thesis
    using answer_ok [OF inv, of ?f] run by auto
qed

lemma add_step_ok:
  assumes inv: "node_sys_inv (c, p)" and add: "add_nodes_endpoint env kss c = Inr c'"
    and room: "ns_num_nodes (c_nodes c) + length kss < usize_max"
  shows "node_sys_inv (c', p) \<and> (\<forall>i\<in>{1..ns_num_nodes (c_nodes c)}. node_edge (ns_state (c_nodes c) i) (ns_state (c_nodes c') i))"
proof -
  obtain ns where ns: "add_nodes kss (c_nodes c) = Inr ns" "c' = c\<lparr>c_nodes := ns\<rparr>"
    using add by (auto simp: add_nodes_endpoint_def only_owner_eq_Inr res_elims)
  have inv': "node_inv (c_nodes c)" "pending_inv (c_nodes c) p"
    using inv by (simp_all add: node_sys_inv_def)
  note states = add_nodes_states [OF inv'(1) ns(1) room]
  have same: "ns_state ns i = ns_state (c_nodes c) i" if "i \<in> set (waiting_ids p)" for i
  proof -
    have "is_pending (ns_state (c_nodes c) i)" "i \<in> {1..ns_num_nodes (c_nodes c)}"
      using pending_inv_waits [OF inv'(2) that] inv'(2) that by (auto simp: pending_inv_def)
    then show ?thesis
      using states by (auto simp: is_pending_def)
  qed
  have covered: "i \<in> set (waiting_ids p)" if "is_pending (ns_state ns i)" for i
  proof -
    have "ns_state ns i = ns_state (c_nodes c) i"
      using states that by (auto simp: is_pending_def)
    then show ?thesis
      using inv'(2) that by (simp add: pending_inv_def)
  qed
  have "pending_inv ns p"
    using inv'(2) same covered states unfolding pending_inv_def in_waiting_ids by fastforce
  moreover have "node_edge (ns_state (c_nodes c) i) (ns_state ns i)" if "i \<in> {1..ns_num_nodes (c_nodes c)}" for i
  proof -
    have "ns_state ns i = ns_state (c_nodes c) i \<or> ns_state (c_nodes c) i = Removed \<and> ns_state ns i = Inactive"
      using states that by blast
    then show ?thesis
      using node_edge.intros(1,12) by (metis (no_types))
  qed
  ultimately show ?thesis
    using add_nodes_inv [OF inv'(1) ns(1) room] ns(2) by (simp add: node_sys_inv_def)
qed

lemma remove_step_ok:
  assumes inv: "node_sys_inv (c, p)" and rem: "remove_nodes_endpoint env keys c = Inr c'"
  shows "node_sys_inv (c', p) \<and> (\<forall>i. node_edge (ns_state (c_nodes c) i) (ns_state (c_nodes c') i))"
proof -
  obtain ns where ns: "remove_nodes keys (c_nodes c) = Inr ns" "c' = c\<lparr>c_nodes := ns\<rparr>"
    using rem by (auto simp: remove_nodes_endpoint_def only_owner_eq_Inr res_elims)
  note kept = remove_nodes_keeps [OF ns(1)]
  have pend: "is_pending (ns_state ns i) \<longleftrightarrow> is_pending (ns_state (c_nodes c) i)"
    "callback_waits cb (ns_state (c_nodes c) i) \<Longrightarrow> callback_waits cb (ns_state ns i)" for i cb
  proof -
    consider "ns_state ns i = ns_state (c_nodes c) i" | "ns_state (c_nodes c) i = Inactive" "ns_state ns i = Removed"
      using kept by blast
    note cases_i = this
    show "is_pending (ns_state ns i) \<longleftrightarrow> is_pending (ns_state (c_nodes c) i)"
      by (cases rule: cases_i) (simp_all add: is_pending_def)
    show "callback_waits cb (ns_state (c_nodes c) i) \<Longrightarrow> callback_waits cb (ns_state ns i)"
      by (cases rule: cases_i; cases cb) simp_all
  qed
  then have "pending_inv ns p"
    using inv kept by (simp add: node_sys_inv_def pending_inv_def)
  then show ?thesis
    using kept inv ns(2) node_edge.intros(1,11) by (simp add: node_sys_inv_def) metis
qed


lemma force_node_loop_eq:
  "force_node_unbond_period_loop keys ns = Inr ns' \<Longrightarrow>
     0 \<notin> set (ids_of_keys ns keys) \<and> ns' = move_nodes (ids_of_keys ns keys) (\<lambda>_. UnBondPeriod 0) ns"
proof (induction keys arbitrary: ns)
  case (Cons k keys)
  let ?i = "ns_bls_to_id ns k" and ?ns = "set_node_state (ns_bls_to_id ns k) (UnBondPeriod 0) ns"
  have r: "?i \<noteq> 0" "force_node_unbond_period_loop keys ?ns = Inr ns'"
    using Cons.prems by (simp_all add: Let_def require_eq_Inr)
  have ids: "ids_of_keys ?ns keys = ids_of_keys ns keys"
    by (simp add: ids_of_keys_def)
  have "move_nodes (ids_of_keys ns keys) (\<lambda>_. UnBondPeriod 0) ?ns =
      move_nodes (?i # ids_of_keys ns keys) (\<lambda>_. UnBondPeriod 0) ns"
    by (cases ns) (auto simp: move_nodes_def set_node_state_def)
  then show ?case
    using Cons.IH [OF r(2)] r(1) by (simp add: ids) (simp add: ids_of_keys_def)
qed (simp add: ids_of_keys_def)

lemma force_nodes_eq:
  assumes "force_node_unbond_period env keys c = Inr c'"
  shows "c' = c\<lparr>c_nodes := move_nodes (ids_of_keys (c_nodes c) keys) (\<lambda>_. UnBondPeriod 0) (c_nodes c)\<rparr>"
  using assms force_node_loop_eq by (auto simp: force_node_unbond_period_def only_owner_eq_Inr bind_res_eq_Inr)

lemma force_step_ok:
  assumes inv: "node_sys_inv (c, p)" and run: "force_node_unbond_period env keys c = Inr c'"
  shows "\<forall>i. node_edge (ns_state (c_nodes c) i) (ns_state (c_nodes c') i) \<or> forced c c' i"
    and "none_pending c keys \<Longrightarrow> node_sys_inv (c', p)"
proof -
  let ?ids = "ids_of_keys (c_nodes c) keys" and ?f = "\<lambda>_. UnBondPeriod 0"
  note eq = force_nodes_eq [OF run]
  show "\<forall>i. node_edge (ns_state (c_nodes c) i) (ns_state (c_nodes c') i) \<or> forced c c' i"
    using run by (auto simp: eq forced_def ids_of_keys_def get_node_state_def intro: node_edge.intros(1))
  assume "none_pending c keys"
  then have "\<not> is_pending (ns_state (c_nodes c) i)" if "i \<in> set ?ids" for i
    using that by (auto simp: none_pending_def ids_of_keys_def get_node_state_def)
  moreover have "\<not> is_pending (UnBondPeriod 0)"
    by (simp add: is_pending_def)
  ultimately have same: "is_pending (ns_state (move_nodes ?ids ?f (c_nodes c)) i) \<Longrightarrow> is_pending (ns_state (c_nodes c) i)"
    "callback_waits cb (ns_state (c_nodes c) i) \<Longrightarrow> callback_waits cb (ns_state (move_nodes ?ids ?f (c_nodes c)) i)" for i cb
    using waits_pending by (auto split: if_splits)
  then show "node_sys_inv (c', p)"
    using inv by (auto simp: eq node_sys_inv_def pending_inv_def)
qed

lemma callback_ok:
  assumes "node_sys_inv (c, p @ cb # q)"
  shows "\<exists>c' effs. auction_callback_run env cb r c = Inr (c', effs) \<and> node_sys_inv (c', p @ q) \<and>
    (\<forall>i. node_edge (ns_state (c_nodes c) i) (ns_state (c_nodes c') i))"
  using assms stake_answer_ok [of c p _ q r] unstake_answer_ok [of c p _ q env r] unbond_answer_ok [of c p _ q r]
  by (cases cb) fastforce+

lemma node_step_ok:
  assumes "node_step may_force s s'" and "node_sys_inv s"
  shows "(\<forall>i\<in>{1..ns_num_nodes (c_nodes (fst s))}.
      node_edge (ns_state (c_nodes (fst s)) i) (ns_state (c_nodes (fst s')) i) \<or> forced (fst s) (fst s') i) \<and>
    ((\<forall>c keys. may_force c keys \<longrightarrow> none_pending c keys) \<longrightarrow> node_sys_inv s')"
  using assms
proof (induction rule: node_step.induct)
  case (stake env missing amount keys c c' effs p)
  then show ?case
    using stake_step_ok by auto
next
  case (unstake env keys c c' effs p)
  then show ?case
    using unstake_step_ok by (auto simp: unstake_nodes_endpoint_def only_owner_eq_Inr)
next
  case (unstake_all env keys c c' effs p)
  then show ?case
    using unstake_step_ok by (auto simp: unstake_nodes_and_tokens_endpoint_def only_owner_eq_Inr)
next
  case (unbond env keys c c' effs p)
  then show ?case
    using unbond_specific_step_ok by auto
next
  case (unbond_all env missing_key c c' effs p)
  then show ?case
    using unbond_all_step_ok by auto
next
  case (callback env cb r c c' effs p q)
  then show ?case
    using callback_ok [of c p cb q env r] by auto
next
  case (callback_fails env cb r c e p q)
  then show ?case
    using callback_ok [of c p cb q env r] by auto
next
  case (force env keys c c' p)
  then show ?case
    using force_step_ok [of c p env keys c'] by auto
next
  case (add env kss c c' p)
  then show ?case
    using add_step_ok by auto
next
  case (remove env keys c c' p)
  then show ?case
    using remove_step_ok by auto
next
  case (elsewhere c' c p)
  then show ?case
    by (simp add: node_sys_inv_def node_edge.intros(1))
qed

lemma node_sys_inv_start: "c_nodes c = node_storage_empty \<Longrightarrow> node_sys_inv (c, [])"
  by (simp add: node_sys_inv_def node_inv_def registry_inv_def pending_inv_def node_storage_empty_def is_pending_def)

lemma node_steps_inv:
  assumes "(node_step none_pending)\<^sup>*\<^sup>* s s'" and "node_sys_inv s"
  shows "node_sys_inv s'"
  using assms by (induction rule: rtranclp_induct) (use node_step_ok in blast)+

text \<open>
  When the unbond callback fails: in any state, also after \<^verbatim>\<open>forceNodeUnBondPeriod\<close>, exactly when
  a node that the answer reports as failed no longer waits.
\<close>

lemma revert_to_unbond_period_fails:
  assumes "distinct ids"
  shows "revert_to_unbond_period ids ns =
    (if \<forall>i\<in>set ids. is_pending_unbond (ns_state ns i)
     then Inr (move_nodes ids (\<lambda>i. back_to_period (ns_state ns i)) ns) else Inl (ScPanic ''node not pending unbond''))"
  using assms
proof (induction ids arbitrary: ns)
  case (Cons i ids)
  show ?case
  proof (cases "ns_state ns i")
    case (PendingUnBond started)
    have same: "ns_state (set_node_state i (UnBondPeriod started) ns) j = ns_state ns j" if "j \<in> set ids" for j
      using that Cons.prems by auto
    have "move_nodes ids (\<lambda>j. back_to_period (ns_state (set_node_state i (UnBondPeriod started) ns) j))
        (set_node_state i (UnBondPeriod started) ns) =
      move_nodes ids (\<lambda>j. back_to_period (ns_state ns j)) (set_node_state i (UnBondPeriod started) ns)"
      by (intro move_nodes_cong) (simp_all only: same)
    also have "\<dots> = move_nodes (i # ids) (\<lambda>j. back_to_period (ns_state ns j)) ns"
      using move_nodes_Cons [of i ids "\<lambda>j. back_to_period (ns_state ns j)" ns] Cons.prems PendingUnBond by simp
    finally show ?thesis
      using Cons.IH [of "set_node_state i (UnBondPeriod started) ns"] Cons.prems PendingUnBond same
      by (simp add: get_node_state_def cong: ball_cong)
  qed (use Cons.prems in \<open>simp_all add: get_node_state_def\<close>)
qed simp

lemma unbond_callback_fails:
  assumes "distinct ids" and "length ids \<le> MAX_NODES_PER_OPERATION"
    and i: "i \<in> failed_ids (c_nodes c) ids r" "\<not> is_pending_unbond (ns_state (c_nodes c) i)"
  shows "auction_unbond_callback ids r c = Inl (ScPanic ''node not pending unbond'')"
proof (cases r)
  case (AsyncOk args)
  obtain ok failed where s: "split_node_ids_by_err (c_nodes c) ids args = Inr (ok, failed)" "distinct failed"
    "set failed = set ids \<inter> reported (c_nodes c) args" "set ok = set ids - reported (c_nodes c) args"
    using split_run [OF assms(1,2)] by blast
  have "i \<in> set failed" "i \<notin> set ok"
    using i(1) s(3,4) by (auto simp: failed_ids_def AsyncOk)
  then have "\<not> (\<forall>i\<in>set failed. is_pending_unbond (ns_state (set_node_states ok Inactive (c_nodes c)) i))"
    using i(2) by (auto simp: set_node_states_move)
  moreover have "failed \<noteq> []"
    using \<open>i \<in> set failed\<close> by auto
  ultimately show ?thesis
    using s(1) revert_to_unbond_period_fails [OF s(2)]
    by (cases "ok = []") (auto simp: auction_unbond_callback_def AsyncOk auction_unbond_callback_ok_def
        auction_unbond_callback_fail_def set_node_states_def)
next
  case (AsyncErr msg)
  then show ?thesis
    using i revert_to_unbond_period_fails [OF assms(1), of "c_nodes c"]
    by (auto simp: auction_unbond_callback_def auction_unbond_callback_fail_def failed_ids_def)
qed

end
