(* ===== verification/Node_Properties.thy ===== *)
theory Node_Properties
  imports Node_Lifecycle
begin

text \<open>The properties of the node registry and of the node operations.\<close>

section \<open>A sample node\<close>

definition sample_key :: bls_key where
  "sample_key = replicate 96 7"

definition sample_sig :: bls_signature where
  "sample_sig = replicate 48 3"

definition sample_nodes :: node_storage where
  "sample_nodes = \<lparr>ns_num_nodes = 1, ns_bls_to_id = (\<lambda>_. 0)(sample_key := 1),
     ns_id_to_bls = (\<lambda>_. None)(1 := Some sample_key), ns_signature = (\<lambda>_. None)(1 := Some sample_sig),
     ns_state = (\<lambda>_. Inactive)\<rparr>"

lemma sample_add: "add_nodes [(sample_key, sample_sig)] node_storage_empty = Inr sample_nodes"
  by (auto simp: add_one_node node_storage_empty_def sample_nodes_def usize_add_small usize_max_def)

lemma sample_node_inv: "node_inv sample_nodes"
  by (auto simp: node_inv_def registry_inv_def sample_nodes_def split: if_splits)

definition sample_staking :: "contract \<times> sc_effect list" where
  "sample_staking =
     (sample_contract\<lparr>c_nodes := move_nodes [1] (\<lambda>_. PendingActivation) sample_nodes\<rparr>,
      [AsyncCall (replicate 32 9) 50 (AuctionStake 1 [(sample_key, sample_sig)]) (Some (AuctionStakeCallback [1]))])"

lemma sample_unprotected: "total_unprotected 5000 1000 sample_funds reward_storage_empty = Inr 3987"
proof -
  have "type_total sample_funds WithdrawOnly = 0" "type_total sample_funds DeferredPayment = 8"
    by (simp_all add: sample_funds_def sum_of_def sum_where_def sample_entries_def)
  then show ?thesis
    by (simp add: total_unprotected_def sample_totals USER_STAKE_TOTALS_ID_def reward_storage_empty_def)
qed

lemma sample_stake_nodes:
  "stake_nodes (sample_env sample_owner) missing 50 [sample_key] (sample_contract\<lparr>c_nodes := sample_nodes\<rparr>) = Inr sample_staking"
proof -
  have share: "validate_owner_stake_share (sample_contract\<lparr>c_nodes := sample_nodes\<rparr>) = Inr ()"
  proof -
    have "user_total sample_funds OWNER_USER_ID Active = 60"
      by (simp add: sample_funds_def OWNER_USER_ID_def sum_of_def sum_where_def sample_entries_def)
    then show ?thesis
      by (simp add: validate_owner_stake_share_def sample_totals USER_STAKE_TOTALS_ID_def PERCENTAGE_DENOMINATOR_def
          OWNER_USER_ID_def sample_settings_def)
  qed
  have loop: "stake_nodes_loop missing [sample_key] [] [] sample_nodes =
      Inr ([1], [(sample_key, sample_sig)], move_nodes [1] (\<lambda>_. PendingActivation) sample_nodes)"
    by (auto simp: sample_nodes_def get_node_state_def node_ids_push_def MAX_NODES_PER_OPERATION_def get_node_signature_def
        set_node_state_def move_nodes_def)
  show ?thesis
    using sample_unprotected share loop
    by (simp add: stake_nodes_def only_owner_def sample_staking_def perform_stake_nodes_def is_global_op_in_progress_iff)
      (simp add: sample_env_def sample_settings_def)
qed

lemma sample_reached:
  "(node_step none_pending)\<^sup>*\<^sup>* (sample_contract, []) (fst sample_staking, [] @ AuctionStakeCallback [1] # [])"
proof -
  have "add_nodes_endpoint (sample_env sample_owner) [(sample_key, sample_sig)] sample_contract =
      Inr (sample_contract\<lparr>c_nodes := sample_nodes\<rparr>)"
    using sample_add by (simp add: add_nodes_endpoint_def only_owner_def sample_contract_def)
  then have "node_step none_pending (sample_contract, []) (sample_contract\<lparr>c_nodes := sample_nodes\<rparr>, [])"
    by (rule node_step.add) (simp add: sample_contract_def node_storage_empty_def usize_max_def)
  moreover have "node_step none_pending (sample_contract\<lparr>c_nodes := sample_nodes\<rparr>, []) (fst sample_staking, effect_callbacks (snd sample_staking) @ [])"
    using sample_stake_nodes [of "Inl OutOfGas"] by (intro node_step.stake) simp
  ultimately show ?thesis
    by (simp add: sample_staking_def)
qed

lemma sample_start: "c_nodes sample_contract = node_storage_empty"
  by (simp add: sample_contract_def)

section \<open>Nodes and callbacks\<close>

text \<open>
  (C12) A node is in a pending state exactly while a callback that answers for it is on its way, and
  only one such callback exists; the registry of nodes is consistent. It holds after every
  sequence of node operations, callbacks with arbitrary answers in arbitrary order, calls
  that do not concern nodes, and those calls of \<^verbatim>\<open>forceNodeUnBondPeriod\<close> that name no node in a
  pending state. (The call is the repair tool for lost callbacks. Used on a node whose callback is
  still on its way it breaks the correspondence, of which the source warns.)
\<close>

theorem nodes_wait_for_callbacks:
  assumes "c_nodes c0 = node_storage_empty" and "(node_step none_pending)\<^sup>*\<^sup>* (c0, []) (c, p)"
  shows "(\<forall>i. is_pending (get_node_state (c_nodes c) i) \<longleftrightarrow> (\<exists>cb\<in>set p. i \<in> set (callback_ids cb))) \<and>
    distinct (concat (map callback_ids p)) \<and> node_inv (c_nodes c)"
proof -
  have inv: "node_inv (c_nodes c)" "pending_inv (c_nodes c) p"
    using node_steps_inv [OF assms(2) node_sys_inv_start [OF assms(1)]] by (simp_all add: node_sys_inv_def)
  have "is_pending (get_node_state (c_nodes c) i) \<longleftrightarrow> (\<exists>cb\<in>set p. i \<in> set (callback_ids cb))" for i
    using inv(2) pending_inv_waits [OF inv(2), of i]
    unfolding in_waiting_ids get_node_state_def pending_inv_def by blast
  then show ?thesis
    using inv by (simp add: pending_inv_def waiting_ids_def)
qed

theorem nodes_wait_for_callbacks_witness:
  "is_pending (get_node_state (c_nodes (fst sample_staking)) 1) \<longleftrightarrow>
     (\<exists>cb\<in>set [AuctionStakeCallback [1]]. 1 \<in> set (callback_ids cb))"
  using nodes_wait_for_callbacks [OF sample_start sample_reached] by simp

text \<open>
  (C13) Callbacks do not fail and decide the state of each node by the answer, as long as
  \<^verbatim>\<open>forceNodeUnBondPeriod\<close> was never used on a node in a pending state. Whatever the auction contract
  answers to a call that is on its way, the callback returns: after staking, the nodes the
  answer reports as failed are inactive again and the others are active; after unstaking, the
  failed ones are active again and the others enter the unbond period in the current block;
  after unbonding, the failed ones are back in the unbond period they came from and the others
  are inactive. An answer that is an error counts as failure for all nodes. And the restriction is
  needed: if \<^verbatim>\<open>forceNodeUnBondPeriod\<close> names a node whose unbonding is under way, and the answer then
  reports this node as failed, the unbond callback panics.
\<close>

theorem callbacks_settle_nodes:
  assumes "c_nodes c0 = node_storage_empty" and "(node_step none_pending)\<^sup>*\<^sup>* (c0, []) (c, p @ cb # q)"
  shows "(\<forall>ids. cb = AuctionStakeCallback ids \<longrightarrow> (\<exists>c' effs. auction_stake_callback ids r c = Inr (c', effs) \<and>
      (\<forall>i\<in>set ids. get_node_state (c_nodes c') i = (if i \<in> failed_ids (c_nodes c) ids r then Inactive else NodeActive)))) \<and>
    (\<forall>ids. cb = AuctionUnstakeCallback ids \<longrightarrow> (\<exists>c' effs. auction_unstake_callback env ids r c = Inr (c', effs) \<and>
      (\<forall>i\<in>set ids. get_node_state (c_nodes c') i =
         (if i \<in> failed_ids (c_nodes c) ids r then NodeActive else UnBondPeriod (block_nonce env))))) \<and>
    (\<forall>ids. cb = AuctionUnbondCallback ids \<longrightarrow> (\<exists>c' effs. auction_unbond_callback ids r c = Inr (c', effs) \<and>
      (\<forall>i\<in>set ids. \<exists>started. get_node_state (c_nodes c) i = PendingUnBond started \<and>
         get_node_state (c_nodes c') i = (if i \<in> failed_ids (c_nodes c) ids r then UnBondPeriod started else Inactive)))) \<and>
    (\<forall>ids env' keys c1. cb = AuctionUnbondCallback ids \<longrightarrow> force_node_unbond_period env' keys c = Inr c1 \<longrightarrow>
      (\<exists>k\<in>set keys. ns_bls_to_id (c_nodes c) k \<in> failed_ids (c_nodes c1) ids r) \<longrightarrow>
      auction_unbond_callback ids r c1 = Inl (ScPanic ''node not pending unbond''))"
proof -
  have inv: "node_sys_inv (c, p @ cb # q)"
    by (rule node_steps_inv [OF assms(2) node_sys_inv_start [OF assms(1)]])
  have unbond: "\<exists>c' effs. auction_unbond_callback ids r c = Inr (c', effs) \<and>
      (\<forall>i\<in>set ids. \<exists>started. ns_state (c_nodes c) i = PendingUnBond started \<and>
         ns_state (c_nodes c') i = (if i \<in> failed_ids (c_nodes c) ids r then UnBondPeriod started else Inactive))"
    if cb: "cb = AuctionUnbondCallback ids" for ids
  proof -
    obtain c' effs where r: "auction_unbond_callback ids r c = Inr (c', effs)"
      "\<forall>i\<in>set ids. ns_state (c_nodes c') i =
         (if i \<in> failed_ids (c_nodes c) ids r then back_to_period (ns_state (c_nodes c) i) else Inactive)"
      using unbond_answer_ok [OF inv [unfolded cb], of r] by blast
    have "\<exists>started. ns_state (c_nodes c) i = PendingUnBond started" if "i \<in> set ids" for i
      using pending_inv_cb(3) [of "c_nodes c" p cb q i] inv that cb
      by (cases "ns_state (c_nodes c) i") (simp_all add: node_sys_inv_def)
    then show ?thesis
      using r by (metis back_to_period.simps(1))
  qed
  have panics: "auction_unbond_callback ids r c1 = Inl (ScPanic ''node not pending unbond'')"
    if cb: "cb = AuctionUnbondCallback ids" and run: "force_node_unbond_period env' keys c = Inr c1"
      and k: "k \<in> set keys" "ns_bls_to_id (c_nodes c) k \<in> failed_ids (c_nodes c1) ids r" for ids env' keys c1 k
  proof -
    have "distinct ids" "length ids \<le> MAX_NODES_PER_OPERATION"
      using pending_inv_cb(1,2) [of "c_nodes c" p cb q] inv cb by (simp_all add: node_sys_inv_def)
    moreover have "ns_state (c_nodes c1) (ns_bls_to_id (c_nodes c) k) = UnBondPeriod 0"
      using force_nodes_eq [OF run] k(1) by (simp add: ids_of_keys_def)
    ultimately show ?thesis
      using unbond_callback_fails [OF _ _ k(2)] by simp
  qed
  have stake: "\<exists>c' effs. auction_stake_callback ids r c = Inr (c', effs) \<and>
      (\<forall>i\<in>set ids. ns_state (c_nodes c') i = (if i \<in> failed_ids (c_nodes c) ids r then Inactive else NodeActive))"
    if "cb = AuctionStakeCallback ids" for ids
    using inv stake_answer_ok [of c p ids q r] that by blast
  have unstake: "\<exists>c' effs. auction_unstake_callback env ids r c = Inr (c', effs) \<and>
      (\<forall>i\<in>set ids. ns_state (c_nodes c') i =
         (if i \<in> failed_ids (c_nodes c) ids r then NodeActive else UnBondPeriod (block_nonce env)))"
    if "cb = AuctionUnstakeCallback ids" for ids
    using inv unstake_answer_ok [of c p ids q env r] that by blast
  show ?thesis
    unfolding get_node_state_def
    by (intro conjI allI impI) (use stake unstake unbond panics in blast)+
qed

theorem callbacks_settle_nodes_witness:
  "\<exists>c' effs. auction_stake_callback [1] (AsyncOk []) (fst sample_staking) = Inr (c', effs) \<and>
    get_node_state (c_nodes c') 1 = NodeActive"
  using callbacks_settle_nodes [OF sample_start sample_reached, of "AsyncOk []"] by (auto simp: failed_ids_def reported_def)

text \<open>
  (C24) The life cycle of a node. Take any state reached by node operations, callbacks and calls of
  \<^verbatim>\<open>forceNodeUnBondPeriod\<close> that named no node in a pending state. Every further step, any call of
  \<^verbatim>\<open>forceNodeUnBondPeriod\<close> included, leaves every registered node where it is or moves it along one
  edge of the life cycle: inactive, pending activation, active, pending deactivation, unbond
  period, pending unbonding, inactive, and removed from inactive; a failed call leads one edge back.
  The only other move is the one of \<^verbatim>\<open>forceNodeUnBondPeriod\<close>, which puts a node that it names into
  the unbond period since block 0 from wherever it is.
\<close>

theorem node_life_cycle:
  assumes "c_nodes c0 = node_storage_empty" and "(node_step none_pending)\<^sup>*\<^sup>* (c0, []) (c, p)"
    and "node_step (\<lambda>c keys. True) (c, p) (c', p')" and "i \<in> {1..ns_num_nodes (c_nodes c)}"
  shows "node_edge (get_node_state (c_nodes c) i) (get_node_state (c_nodes c') i) \<or>
    (\<exists>env keys. force_node_unbond_period env keys c = Inr c' \<and> i \<in> ns_bls_to_id (c_nodes c) ` set keys) \<and>
      get_node_state (c_nodes c') i = UnBondPeriod 0"
proof -
  have "node_edge (ns_state (c_nodes c) i) (ns_state (c_nodes c') i) \<or> forced c c' i"
    using node_step_ok [OF assms(3) node_steps_inv [OF assms(2) node_sys_inv_start [OF assms(1)]]] assms(4) by auto
  then show ?thesis
    by (simp add: get_node_state_def forced_def)
qed

text \<open>A sample: the callback, and the owner forcing the node that is still pending.\<close>

theorem node_life_cycle_witness:
  "\<exists>c'. node_step (\<lambda>c keys. True) (fst sample_staking, [AuctionStakeCallback [1]]) (c', [AuctionStakeCallback [1]]) \<and>
    force_node_unbond_period (sample_env sample_owner) [sample_key] (fst sample_staking) = Inr c' \<and>
    \<not> node_edge (get_node_state (c_nodes (fst sample_staking)) 1) (get_node_state (c_nodes c') 1) \<and>
    get_node_state (c_nodes c') 1 = UnBondPeriod 0"
proof -
  define c' where "c' = (fst sample_staking)\<lparr>c_nodes := set_node_state 1 (UnBondPeriod 0) (c_nodes (fst sample_staking))\<rparr>"
  have run: "force_node_unbond_period (sample_env sample_owner) [sample_key] (fst sample_staking) = Inr c'"
    by (simp add: force_node_unbond_period_def only_owner_def sample_staking_def sample_nodes_def c'_def move_nodes_def)
  then have step: "node_step (\<lambda>c keys. True) (fst sample_staking, [] @ AuctionStakeCallback [1] # [])
      (c', [] @ AuctionStakeCallback [1] # [])"
    by (rule node_step.force) simp
  have "\<not> node_edge PendingActivation (UnBondPeriod 0)"
    by (auto elim: node_edge.cases)
  moreover have "get_node_state (c_nodes (fst sample_staking)) 1 = PendingActivation"
    by (simp add: sample_staking_def get_node_state_def)
  moreover have "1 \<in> {1..ns_num_nodes (c_nodes (fst sample_staking))}"
    by (simp add: sample_staking_def sample_nodes_def)
  note node_life_cycle [OF sample_start sample_reached step this]
  moreover have "get_node_state (c_nodes c') 1 = UnBondPeriod 0"
    by (simp add: c'_def get_node_state_def)
  ultimately show ?thesis
    using run step by (intro exI [of _ c']) auto
qed

section \<open>The node registry\<close>

definition key_free :: "node_storage \<Rightarrow> bls_key \<Rightarrow> bool" where
  "key_free ns k \<longleftrightarrow> ns_bls_to_id ns k = 0 \<or> ns_state ns (ns_bls_to_id ns k) = Removed"

lemma add_one_refused: "\<not> key_free ns k \<Longrightarrow> add_nodes ((k, sig) # kss) ns = Inl (ScPanic ''node already registered'')"
  by (simp add: add_nodes_Cons [of "(k, sig)" kss ns] add_one_node key_free_def)

lemma add_one_registers:
  assumes "key_free ns k" and "Suc (ns_num_nodes ns) < usize_max"
  obtains ns' where "add_nodes [(k, sig)] ns = Inr ns'" "ns_bls_to_id ns' k \<noteq> 0" "\<not> key_free ns' k"
    "ns_state ns' (ns_bls_to_id ns' k) = Inactive" "ns_signature ns' (ns_bls_to_id ns' k) = Some sig"
    "ns_bls_to_id ns k \<noteq> 0 \<Longrightarrow> ns_bls_to_id ns' k = ns_bls_to_id ns k" "\<And>k'. k' \<noteq> k \<Longrightarrow> ns_bls_to_id ns' k' = ns_bls_to_id ns k'"
proof -
  have "\<exists>ns'. add_nodes [(k, sig)] ns = Inr ns'"
    using assms(1) by (cases "ns_bls_to_id ns k = 0") (simp_all add: add_one_node key_free_def Let_def)
  then obtain ns' where run: "add_nodes [(k, sig)] ns = Inr ns'" ..
  show thesis
    by (rule that [OF run])
      (use run assms(2) in \<open>auto simp: add_one_node key_free_def Let_def usize_add_small split: if_splits\<close>)
qed

text \<open>Adding a key leaves the nodes of all other keys alone.\<close>

lemma add_one_others:
  assumes "node_inv ns" and "add_nodes [(k, sig)] ns = Inr ns'" and "Suc (ns_num_nodes ns) < usize_max" and "k' \<noteq> k"
  shows "ns_bls_to_id ns' k' = ns_bls_to_id ns k'" "key_free ns' k' \<longleftrightarrow> key_free ns k'"
    "ns_bls_to_id ns k' \<noteq> 0 \<Longrightarrow> ns_state ns' (ns_bls_to_id ns k') = ns_state ns (ns_bls_to_id ns k') \<and>
       ns_signature ns' (ns_bls_to_id ns k') = ns_signature ns (ns_bls_to_id ns k')"
proof -
  have "ns_bls_to_id ns k' \<noteq> Suc (ns_num_nodes ns)"
    using assms(1) unfolding node_inv_def registry_inv_def by (metis Suc_n_not_le_n bot_nat_0.extremum)
  moreover have "ns_bls_to_id ns k \<noteq> 0 \<Longrightarrow> ns_bls_to_id ns k' \<noteq> ns_bls_to_id ns k"
    using assms(1,4) unfolding node_inv_def registry_inv_def by metis
  ultimately show same: "ns_bls_to_id ns' k' = ns_bls_to_id ns k'"
    and kept: "ns_bls_to_id ns k' \<noteq> 0 \<Longrightarrow> ns_state ns' (ns_bls_to_id ns k') = ns_state ns (ns_bls_to_id ns k') \<and>
       ns_signature ns' (ns_bls_to_id ns k') = ns_signature ns (ns_bls_to_id ns k')"
    using assms(2-4) by (auto simp: add_one_node Let_def usize_add_small split: if_splits)
  show "key_free ns' k' \<longleftrightarrow> key_free ns k'"
    using same kept by (cases "ns_bls_to_id ns k' = 0") (simp_all add: key_free_def)
qed

lemma add_nodes_run:
  assumes "node_inv ns" and "ns_num_nodes ns + length kss < usize_max"
    and "distinct (map fst kss)" and "\<forall>k\<in>fst ` set kss. key_free ns k"
  shows "\<exists>ns'. add_nodes kss ns = Inr ns' \<and> node_inv ns' \<and>
    (\<forall>(k, sig)\<in>set kss. ns_bls_to_id ns' k \<noteq> 0 \<and> ns_state ns' (ns_bls_to_id ns' k) = Inactive \<and>
       ns_signature ns' (ns_bls_to_id ns' k) = Some sig) \<and>
    (\<forall>k. ns_bls_to_id ns k \<noteq> 0 \<or> k \<notin> fst ` set kss \<longrightarrow> ns_bls_to_id ns' k = ns_bls_to_id ns k) \<and>
    (\<forall>k. ns_bls_to_id ns k \<noteq> 0 \<longrightarrow> k \<notin> fst ` set kss \<longrightarrow>
       ns_state ns' (ns_bls_to_id ns k) = ns_state ns (ns_bls_to_id ns k) \<and>
       ns_signature ns' (ns_bls_to_id ns k) = ns_signature ns (ns_bls_to_id ns k))"
  using assms
proof (induction kss arbitrary: ns)
  case (Cons ks kss)
  obtain k sig where ks: "ks = (k, sig)"
    by (cases ks)
  have room: "Suc (ns_num_nodes ns) < usize_max" and free: "key_free ns k" and nin: "k \<notin> fst ` set kss"
    using Cons.prems(2-4) by (simp_all add: ks)
  obtain ns1 where one: "add_nodes [(k, sig)] ns = Inr ns1" "ns_bls_to_id ns1 k \<noteq> 0"
    "ns_state ns1 (ns_bls_to_id ns1 k) = Inactive" "ns_signature ns1 (ns_bls_to_id ns1 k) = Some sig"
    "ns_bls_to_id ns k \<noteq> 0 \<Longrightarrow> ns_bls_to_id ns1 k = ns_bls_to_id ns k" "\<And>k'. k' \<noteq> k \<Longrightarrow> ns_bls_to_id ns1 k' = ns_bls_to_id ns k'"
    using add_one_registers [OF free room, of sig] by metis
  note inv = node_inv_add_one [OF Cons.prems(1) one(1) room] and others = add_one_others [OF Cons.prems(1) one(1) room]
  have "\<forall>k'\<in>fst ` set kss. key_free ns1 k'" "ns_num_nodes ns1 + length kss < usize_max" "distinct (map fst kss)"
    using others(2) nin inv(2) Cons.prems(2-4) by (auto simp: ks) (metis fst_conv imageI)+
  from Cons.IH [OF inv(1) this(2,3,1)] obtain ns' where ns': "add_nodes kss ns1 = Inr ns'" "node_inv ns'"
    "\<forall>(k, sig)\<in>set kss. ns_bls_to_id ns' k \<noteq> 0 \<and> ns_state ns' (ns_bls_to_id ns' k) = Inactive \<and>
       ns_signature ns' (ns_bls_to_id ns' k) = Some sig"
    and ids: "\<forall>k. ns_bls_to_id ns1 k \<noteq> 0 \<or> k \<notin> fst ` set kss \<longrightarrow> ns_bls_to_id ns' k = ns_bls_to_id ns1 k"
    and kept: "\<forall>k. ns_bls_to_id ns1 k \<noteq> 0 \<longrightarrow> k \<notin> fst ` set kss \<longrightarrow>
       ns_state ns' (ns_bls_to_id ns1 k) = ns_state ns1 (ns_bls_to_id ns1 k) \<and>
       ns_signature ns' (ns_bls_to_id ns1 k) = ns_signature ns1 (ns_bls_to_id ns1 k)"
    by blast
  have "add_nodes (ks # kss) ns = Inr ns'"
    unfolding ks add_nodes_Cons [of "(k, sig)" kss ns] one(1) bind_res_Inr ns'(1) ..
  moreover have "ns_bls_to_id ns' k \<noteq> 0 \<and> ns_state ns' (ns_bls_to_id ns' k) = Inactive \<and>
      ns_signature ns' (ns_bls_to_id ns' k) = Some sig"
    using spec [OF ids, of k] spec [OF kept, of k] nin one(2-4) by simp
  moreover have "ns_bls_to_id ns' k' = ns_bls_to_id ns k'" if "ns_bls_to_id ns k' \<noteq> 0 \<or> k' \<notin> fst ` set (ks # kss)" for k'
    using that one(2,5,6) spec [OF ids, of k'] ks by (cases "k' = k") auto
  moreover have "ns_state ns' (ns_bls_to_id ns k') = ns_state ns (ns_bls_to_id ns k') \<and>
      ns_signature ns' (ns_bls_to_id ns k') = ns_signature ns (ns_bls_to_id ns k')"
    if "ns_bls_to_id ns k' \<noteq> 0" "k' \<notin> fst ` set (ks # kss)" for k'
    using that others(1,3) [of k'] spec [OF kept, of k'] ks by simp
  ultimately show ?case
    using ns'(2,3) by (intro exI [of _ ns']) (auto simp: ks)
qed simp

lemma add_nodes_refused:
  assumes "node_inv ns" and "ns_num_nodes ns + length kss < usize_max"
    and "\<not> (distinct (map fst kss) \<and> (\<forall>k\<in>fst ` set kss. key_free ns k))"
  shows "add_nodes kss ns = Inl (ScPanic ''node already registered'')"
  using assms
proof (induction kss arbitrary: ns)
  case (Cons ks kss)
  obtain k sig where ks: "ks = (k, sig)"
    by (cases ks)
  show ?case
  proof (cases "key_free ns k")
    case True
    have room: "Suc (ns_num_nodes ns) < usize_max"
      using Cons.prems(2) by simp
    obtain ns1 where one: "add_nodes [(k, sig)] ns = Inr ns1" "\<not> key_free ns1 k"
      using add_one_registers [OF True room, of sig] by metis
    note inv = node_inv_add_one [OF Cons.prems(1) one(1) room] and others = add_one_others [OF Cons.prems(1) one(1) room]
    have "\<not> (distinct (map fst kss) \<and> (\<forall>k\<in>fst ` set kss. key_free ns1 k))"
    proof (cases "k \<in> fst ` set kss")
      case True
      then show ?thesis
        using one(2) by blast
    next
      case False
      then have "(\<forall>k\<in>fst ` set kss. key_free ns1 k) \<longleftrightarrow> (\<forall>k\<in>fst ` set kss. key_free ns k)"
        using others(2) by metis
      then show ?thesis
        using Cons.prems(3) False True by (auto simp: ks)
    qed
    then have "add_nodes kss ns1 = Inl (ScPanic ''node already registered'')"
      using Cons.IH [OF inv(1)] inv(2) Cons.prems(2) by simp
    then show ?thesis
      unfolding ks add_nodes_Cons [of "(k, sig)" kss ns] one(1) bind_res_Inr .
  qed (simp add: ks add_one_refused)
qed simp

text \<open>
  (C33) Adding nodes. \<open>addNodes\<close> succeeds exactly if no key is named twice and every key is unknown or the
  key of a removed node, and otherwise panics with \<^verbatim>\<open>node already registered\<close>. When it succeeds it
  makes every key known, inactive and with the signature given, never changes the id of a key that
  had one, touches the node of no other key, and keeps keys and ids in one-to-one correspondence.
\<close>

theorem add_nodes_registers:
  assumes "node_inv ns" and "ns_num_nodes ns + length kss < usize_max"
  shows "if distinct (map fst kss) \<and>
      (\<forall>k\<in>fst ` set kss. ns_bls_to_id ns k = 0 \<or> get_node_state_endpoint ns k = Removed)
    then \<exists>ns'. add_nodes kss ns = Inr ns' \<and> node_inv ns' \<and>
      (\<forall>(k, sig)\<in>set kss. ns_bls_to_id ns' k \<noteq> 0 \<and> get_node_state_endpoint ns' k = Inactive \<and>
         get_node_signature_endpoint missing ns' k = Inr (Some sig)) \<and>
      (\<forall>k. ns_bls_to_id ns k \<noteq> 0 \<or> k \<notin> fst ` set kss \<longrightarrow> ns_bls_to_id ns' k = ns_bls_to_id ns k) \<and>
      (\<forall>k. k \<notin> fst ` set kss \<longrightarrow> get_node_state_endpoint ns' k = get_node_state_endpoint ns k \<and>
         get_node_signature_endpoint missing ns' k = get_node_signature_endpoint missing ns k)
    else add_nodes kss ns = Inl (ScPanic ''node already registered'')"
proof -
  have free: "ns_bls_to_id ns k = 0 \<or> get_node_state_endpoint ns k = Removed \<longleftrightarrow> key_free ns k" for k
    by (auto simp: key_free_def get_node_state_endpoint_def get_node_state_def Let_def)
  show ?thesis
  proof (cases "distinct (map fst kss) \<and> (\<forall>k\<in>fst ` set kss. key_free ns k)")
    case True
    from add_nodes_run [OF assms conjunct1 [OF True] conjunct2 [OF True]]
    obtain ns' where "add_nodes kss ns = Inr ns'" "node_inv ns'"
      "\<forall>(k, sig)\<in>set kss. ns_bls_to_id ns' k \<noteq> 0 \<and> ns_state ns' (ns_bls_to_id ns' k) = Inactive \<and>
         ns_signature ns' (ns_bls_to_id ns' k) = Some sig"
      "\<forall>k. ns_bls_to_id ns k \<noteq> 0 \<or> k \<notin> fst ` set kss \<longrightarrow> ns_bls_to_id ns' k = ns_bls_to_id ns k"
      "\<forall>k. ns_bls_to_id ns k \<noteq> 0 \<longrightarrow> k \<notin> fst ` set kss \<longrightarrow>
         ns_state ns' (ns_bls_to_id ns k) = ns_state ns (ns_bls_to_id ns k) \<and>
         ns_signature ns' (ns_bls_to_id ns k) = ns_signature ns (ns_bls_to_id ns k)"
      by blast
    then have "\<exists>ns'. add_nodes kss ns = Inr ns' \<and> node_inv ns' \<and>
      (\<forall>(k, sig)\<in>set kss. ns_bls_to_id ns' k \<noteq> 0 \<and> get_node_state_endpoint ns' k = Inactive \<and>
         get_node_signature_endpoint missing ns' k = Inr (Some sig)) \<and>
      (\<forall>k. ns_bls_to_id ns k \<noteq> 0 \<or> k \<notin> fst ` set kss \<longrightarrow> ns_bls_to_id ns' k = ns_bls_to_id ns k) \<and>
      (\<forall>k. k \<notin> fst ` set kss \<longrightarrow> get_node_state_endpoint ns' k = get_node_state_endpoint ns k \<and>
         get_node_signature_endpoint missing ns' k = get_node_signature_endpoint missing ns k)"
      by (intro exI [of _ ns'])
        (auto simp: get_node_state_endpoint_def get_node_signature_endpoint_def get_node_signature_def get_node_state_def Let_def)
    then show ?thesis
      using True unfolding free by simp
  next
    case False
    then show ?thesis
      using add_nodes_refused [OF assms False] unfolding free by simp
  qed
qed

theorem add_nodes_registers_witness:
  "add_nodes [(sample_key, sample_sig)] node_storage_empty = Inr sample_nodes \<and> node_inv sample_nodes \<and>
    get_node_state_endpoint sample_nodes sample_key = Inactive \<and>
    get_node_signature_endpoint (Inl OutOfGas) sample_nodes sample_key = Inr (Some sample_sig) \<and>
    add_nodes [(sample_key, [])] sample_nodes = Inl (ScPanic ''node already registered'')"
proof -
  have "node_inv node_storage_empty"
    by (simp add: node_inv_def registry_inv_def node_storage_empty_def)
  from add_nodes_registers [OF this, of "[(sample_key, sample_sig)]" "Inl OutOfGas"]
    add_nodes_registers [OF sample_node_inv, of "[(sample_key, [])]" "Inl OutOfGas"]
  show ?thesis
    using sample_add
    by (simp add: node_storage_empty_def usize_max_def get_node_state_endpoint_def get_node_state_def)
      (simp add: sample_nodes_def)
qed

text \<open>
  The partition of nodes by the answer of the auction contract. For a list of different nodes within the
  capacity the partition returns, every node ends up on exactly one side, and on the failed
  side are exactly the nodes that the answer names with a status other than 0.
\<close>

theorem split_node_ids_partition:
  assumes "distinct node_ids" and "length node_ids \<le> MAX_NODES_PER_OPERATION"
  shows "\<exists>ok failed. split_node_ids_by_err ns node_ids args = Inr (ok, failed) \<and> mset ok + mset failed = mset node_ids \<and>
    (\<forall>i. i \<in> set failed \<longleftrightarrow> i \<in> set node_ids \<and> (\<exists>(k, status)\<in>set args. status \<noteq> 0 \<and> ns_bls_to_id ns k = i))"
proof -
  have "i \<in> reported ns args \<longleftrightarrow> (\<exists>(k, status)\<in>set args. status \<noteq> 0 \<and> ns_bls_to_id ns k = i)" for i
    by (auto simp: reported_def)
  moreover obtain ok failed where "split_node_ids_by_err ns node_ids args = Inr (ok, failed)"
    "mset ok + mset failed = mset node_ids" "set failed = set node_ids \<inter> reported ns args"
    using split_run [OF assms, of ns args] by blast
  ultimately show ?thesis
    by auto
qed

theorem split_node_ids_partition_witness:
  "\<exists>ok failed. split_node_ids_by_err sample_nodes [1, 2] [(sample_key, 4)] = Inr (ok, failed) \<and>
    mset ok + mset failed = mset [1, 2] \<and> 1 \<in> set failed"
  using split_node_ids_partition [of "[1, 2]" sample_nodes "[(sample_key, 4)]"]
  by (auto simp: MAX_NODES_PER_OPERATION_def sample_nodes_def)

section \<open>Staking nodes\<close>

text \<open>
  (C32) Staking nodes never touches protected funds. A call of \<open>stakeNodes\<close> that succeeds was made by the owner, outside
  bootstrap mode and with no long operation under way, with the owner holding the required
  share; it sends exactly the amount with exactly the keys given, each with a signature, and
  what remains of the balance still covers the rewards that were not sent, the waiting list
  and all deferred and withdrawable funds.
\<close>

theorem stake_nodes_protects_funds:
  assumes "stake_nodes env missing amount keys c = Inr (c', effs)"
  shows "caller env = sc_owner env \<and> \<not> bootstrap_mode (c_settings c) \<and> \<not> is_global_op_in_progress c \<and>
    get_user_stake_of_type (c_funds c) USER_STAKE_TOTALS_ID Active * owner_min_stake_share (c_settings c)
      \<le> get_user_stake_of_type (c_funds c) OWNER_USER_ID Active * PERCENTAGE_DENOMINATOR \<and>
    (\<exists>sigs. map fst sigs = keys \<and> effs = [AsyncCall (auction_addr (c_settings c)) amount
       (AuctionStake (length keys) sigs) (Some (AuctionStakeCallback (map (ns_bls_to_id (c_nodes c)) keys)))]) \<and>
    cumulated_rewards env + get_user_stake_of_type (c_funds c) USER_STAKE_TOTALS_ID Waiting +
      get_user_stake_of_type (c_funds c) USER_STAKE_TOTALS_ID DeferredPayment +
      get_user_stake_of_type (c_funds c) USER_STAKE_TOTALS_ID WithdrawOnly + amount
      \<le> sc_balance env + rs_sent (c_rewards c)"
  using assms stake_nodes_eq [OF assms]
  by (auto simp: stake_nodes_def only_owner_eq_Inr res_elims validate_owner_stake_share_def total_unprotected_def
      ids_of_keys_def Let_def)

theorem stake_nodes_protects_funds_witness:
  "\<exists>sigs. map fst sigs = [sample_key] \<and>
    snd sample_staking = [AsyncCall (replicate 32 9) 50 (AuctionStake 1 sigs) (Some (AuctionStakeCallback [1]))]"
  using stake_nodes_protects_funds [of "sample_env sample_owner" "Inl OutOfGas" 50 "[sample_key]"
      "sample_contract\<lparr>c_nodes := sample_nodes\<rparr>" "fst sample_staking" "snd sample_staking"]
    sample_stake_nodes [of "Inl OutOfGas"]
  by (simp add: sample_settings_def sample_nodes_def)

end
