(* ===== verification/Contract_Steps.thy ===== *)
theory Contract_Steps
  imports Reset_Operations
begin

text \<open>
  The contract as a whole: the invariant of the contract, idle or with a long operation under
  way, and what every endpoint that succeeds keeps of it.
\<close>

section \<open>Calls\<close>

text \<open>
  What is assumed of a call: the blockchain's side, and that the storage is far from the limits
  of the machine (32-bit ids, 10000 items in the lists that are converted in one call).
\<close>

definition call_bounds :: "contract \<Rightarrow> bool" where
  "call_bounds c \<longleftrightarrow> id_room 16 (c_funds c) \<and> Suc (us_num_users (c_users c)) < usize_max \<and>
     type_items (c_funds c) Waiting + type_items (c_funds c) Active + type_items (c_funds c) UnStaked < MAX_AFFECTED_USERS"

definition call_ok :: "nat \<Rightarrow> sc_env \<Rightarrow> contract \<Rightarrow> bool" where
  "call_ok tot env c \<longleftrightarrow> env_ok tot env c \<and> call_bounds c"

lemma call_okD:
  assumes "call_ok tot env c"
  shows "env_ok tot env c" "tot \<le> cumulated_rewards env" "n \<le> 16 \<Longrightarrow> id_room n (c_funds c)"
    "Suc (us_num_users (c_users c)) < usize_max" "type_items (c_funds c) Waiting < MAX_AFFECTED_USERS"
    "few_items (c_funds c) Waiting" "few_items (c_funds c) UnStaked"
    "type_items (c_funds c) UnStaked + type_items (c_funds c) Active \<le> MAX_AFFECTED_USERS"
    "type_items (c_funds c) Waiting + type_items (c_funds c) Active \<le> MAX_AFFECTED_USERS"
  using assms id_room_mono [of 16 "c_funds c" n] by (auto simp: call_ok_def call_bounds_def env_ok_def few_items_def)

lemma steps_left_le: "steps_left orc \<le> 4"
  by (cases orc) (auto split: modify_delegation_cap_step.splits)

lemma call_ok_ready: "call_ok tot env c \<Longrightarrow> op_ready orc (c_funds c)"
proof -
  assume ok: "call_ok tot env c"
  have "(2::nat) ^ steps_left orc \<le> 2 ^ 4"
    by (rule power_increasing) (simp_all add: steps_left_le)
  then have "id_room (2 ^ steps_left orc) (c_funds c)"
    by (intro call_okD(3) [OF ok]) simp
  moreover have "op_few orc (c_funds c)"
    using ok by (cases orc) (auto simp: call_ok_def call_bounds_def few_items_def split: modify_delegation_cap_step.splits)
  ultimately show ?thesis
    by (simp add: op_ready_def)
qed

section \<open>What the endpoints keep\<close>

lemma global_inv_idle: "\<not> is_global_op_in_progress c \<Longrightarrow> global_inv tot c \<longleftrightarrow> contract_inv tot c"
  by (simp add: global_inv_def)

lemma stake_cap_positive:
  assumes "process_stake env payment c = Inr (c', effs)" and "bootstrap_mode (c_settings c)"
  shows "0 < total_delegation_cap (c_settings c)"
proof (rule ccontr)
  assume zero: "\<not> 0 < total_delegation_cap (c_settings c)"
  obtain u s where gc: "get_or_create_user (caller env) (c_users c) = (u, s)"
    by (cases "get_or_create_user (caller env) (c_users c)")
  show False
    using assms zero by (simp add: process_stake_def gc validate_delegation_cap_invariant_def Let_def)
qed

lemma stake_keeps:
  assumes "global_inv tot c" and "stake_endpoint env payment c = Inr (c', effs)" and "call_ok tot env c"
  shows "global_inv (cumulated_rewards env) c'"
proof -
  have run: "process_stake env payment c = Inr (c', effs)" and idle: "\<not> is_global_op_in_progress c"
    using assms(2) by (simp_all add: stake_endpoint_def require_eq_Inr)
  have inv: "contract_inv tot c"
    using assms(1) idle by (simp add: global_inv_idle)
  from process_stake_run [OF inv call_okD(1) [OF assms(3)] stake_cap_positive [OF run] call_okD(4) [OF assms(3)]
      call_okD(3) [OF assms(3)] call_okD(5,7) [OF assms(3)], of payment]
  have "contract_inv (cumulated_rewards env) c' \<and> c_global_op c' = c_global_op c"
    using run by auto
  then show ?thesis
    using idle by (simp add: global_inv_def is_global_op_in_progress_def)
qed

lemma unstake_effect:
  assumes "global_inv tot c" and "unstake_endpoint env amount c = Inr c'" and "call_ok tot env c"
  shows "\<not> is_global_op_in_progress c \<and> contract_inv (cumulated_rewards env) c' \<and> c_global_op c' = c_global_op c \<and>
    rs_sent (c_rewards c') = rs_sent (c_rewards c) \<and>
    (\<forall>v. get_user_total_stake (c_funds c') v = get_user_total_stake (c_funds c) v)"
proof -
  let ?u = "us_user_id (c_users c) (caller env)"
  have idle: "\<not> is_global_op_in_progress c" and paused: "not_paused env" and u: "?u \<noteq> 0"
    and val: "validate_unstake_amount c ?u amount = Inr ()"
    using assms(2) by (auto simp: unstake_endpoint_def res_elims Let_def split: if_splits)
  have amount: "amount \<le> stakeable (c_funds c) ?u" "amount = stakeable (c_funds c) ?u \<or> min_stake (c_settings c) \<le> amount"
    using val u by (auto simp: validate_unstake_amount_def stakeable_def Let_def require_eq_Inr split: if_splits)
  have inv: "contract_inv tot c"
    using assms(1) idle by (simp add: global_inv_idle)
  from unstake_run [OF inv call_okD(1) [OF assms(3)] paused idle refl u amount call_okD(3) [OF assms(3)]
      call_okD(6,8) [OF assms(3)]] assms(2) idle
  show ?thesis
    by auto
qed

lemma unstake_keeps:
  assumes "global_inv tot c" and "unstake_endpoint env amount c = Inr c'" and "call_ok tot env c"
  shows "global_inv (cumulated_rewards env) c'"
  using unstake_effect [OF assms] by (simp add: global_inv_def is_global_op_in_progress_def)

lemma claim_effect:
  assumes "global_inv tot c" and "claim_rewards env c = Inr (c', effs)" and "call_ok tot env c"
  shows "\<exists>x rw. \<not> is_global_op_in_progress c \<and> c' = c\<lparr>c_rewards := rw\<rparr> \<and>
    contract_inv (cumulated_rewards env) c' \<and> rs_sent rw = rs_sent (c_rewards c) + x \<and>
    effs = (if 0 < x then [Event (ClaimRewardsEvent (caller env) x), DirectEgld (caller env) x] else [])"
proof -
  let ?u = "us_user_id (c_users c) (caller env)"
  have g: "not_paused env" "check_feature_on env ''claimRewards'' True = Inr ()" "\<not> is_global_op_in_progress c" "?u \<noteq> 0"
    using assms(2) by (auto simp: claim_rewards_def res_elims Let_def split: if_splits)
  have inv: "contract_inv tot c"
    using assms(1) g(3) by (simp add: global_inv_idle)
  obtain x rw where "claim_rewards env c = Inr (c\<lparr>c_rewards := rw\<rparr>,
      if 0 < x then [Event (ClaimRewardsEvent (caller env) x), DirectEgld (caller env) x] else [])"
    "contract_inv (cumulated_rewards env) (c\<lparr>c_rewards := rw\<rparr>)" "rs_sent rw = rs_sent (c_rewards c) + x"
    using claim_rewards_run [OF inv call_okD(1) [OF assms(3)] g(1-3) refl g(4)] by blast
  then show ?thesis
    using assms(2) g(3) by (intro exI [of _ x] exI [of _ rw]) simp
qed

lemma claim_keeps:
  assumes "global_inv tot c" and "claim_rewards env c = Inr (c', effs)" and "call_ok tot env c"
  shows "global_inv (cumulated_rewards env) c'"
  using claim_effect [OF assms] by (auto simp: global_inv_def is_global_op_in_progress_def)

text \<open>Operations under way do not mind unbonding.\<close>

lemma op_inv_unbond:
  assumes inv: "op_inv tot orc c" and fs: "fund_inv fs" and own: "\<And>n. owned_funds (c_funds c) n \<Longrightarrow> owned_funds fs n"
    and kept: "\<And>r. r \<noteq> WithdrawOnly \<Longrightarrow> r \<noteq> DeferredPayment \<Longrightarrow> type_total fs r = type_total (c_funds c) r \<and>
       (\<forall>v. user_total fs v r = user_total (c_funds c) v r)"
  shows "op_inv tot orc (c\<lparr>c_funds := fs\<rparr>)"
proof -
  have rew: "rewards_inv tot (c_settings c) fs (c_rewards c) n" if "rewards_inv tot (c_settings c) (c_funds c) (c_rewards c) n" for n
    by (rule rewards_inv_stake [OF that]) (simp_all add: kept)
  show ?thesis
    using inv fs own rew
    by (cases orc)
      (auto simp: op_inv_def base_inv_def cap_inv_def cap_plan_def op_rewards_def kept
        split: modify_delegation_cap_step.splits)
qed

lemma unbond_keeps:
  assumes "global_inv tot c" and "unbond_user env c = Inr (x, c', effs)" and "call_ok tot env c"
  shows "global_inv tot c'"
proof -
  let ?u = "us_user_id (c_users c) (caller env)"
  have g: "not_paused env" "?u \<noteq> 0"
    using assms(2) by (auto simp: unbond_user_def require_eq_Inr Let_def)
  have room: "id_room 2 (c_funds c)"
    by (rule call_okD(3) [OF assms(3)]) simp
  show ?thesis
  proof (cases "is_global_op_in_progress c")
    case False
    then have "contract_inv tot c"
      using assms(1) by (simp add: global_inv_idle)
    from unbond_run [OF this g(1) refl g(2) room] assms(2) show ?thesis
      using False by (auto simp: global_inv_def is_global_op_in_progress_def)
  next
    case True
    then have inv: "op_inv tot (c_global_op c) c"
      using assms(1) by (simp add: global_inv_def)
    then have fs: "fund_inv (c_funds c)"
      by (simp add: op_inv_def base_inv_def)
    obtain y fs2 where r: "unbond_user env c = Inr (y, c\<lparr>c_funds := fs2\<rparr>, if 0 < y then [DirectEgld (caller env) y] else [])"
      "fund_inv fs2" "\<forall>n. owned_funds (c_funds c) n \<longrightarrow> owned_funds fs2 n"
      "\<forall>r. r \<noteq> WithdrawOnly \<longrightarrow> r \<noteq> DeferredPayment \<longrightarrow> type_total fs2 r = type_total (c_funds c) r \<and>
         (\<forall>v. user_total fs2 v r = user_total (c_funds c) v r)"
      using unbond_effect [OF fs g(1) refl g(2) room] by blast
    have "op_inv tot (c_global_op c) (c\<lparr>c_funds := fs2\<rparr>)"
      using op_inv_unbond [OF inv r(2)] r(3,4) by blast
    then have "global_inv tot (c\<lparr>c_funds := fs2\<rparr>)"
      by (intro global_inv_op) simp
    then show ?thesis
      using r(1) assms(2) by simp
  qed
qed


text \<open>The long operations.\<close>

lemma continue_none: "continue_global_operation env GlobalOpNone c = Inr (Completed, c\<lparr>c_global_op := GlobalOpNone\<rparr>)"
  by (simp add: continue_global_operation_def continue_global_operation_loop.simps global_op_is_none_def)

text \<open>What a call that starts or continues an operation leaves of the stake and the rewards sent.\<close>

definition same_totals :: "contract \<Rightarrow> contract \<Rightarrow> bool" where
  "same_totals c c' \<longleftrightarrow> rs_sent (c_rewards c') = rs_sent (c_rewards c) \<and>
     (\<forall>v. get_user_total_stake (c_funds c') v = get_user_total_stake (c_funds c) v)"

lemma continue_effect:
  assumes "global_inv tot c" and "continue_global_operation_endpoint env c = Inr (status, c')" and "call_ok tot env c"
  shows "global_inv (cumulated_rewards env) c' \<and> same_totals c c' \<and> op_left (c_global_op c') \<le> op_left (c_global_op c) \<and>
    op_target (c_global_op c') (c_settings c') = op_target (c_global_op c) (c_settings c)"
proof (cases "is_global_op_in_progress c")
  case True
  have "check_feature_on env ''continueGlobalOperation'' True = Inr ()"
    using assms(2) by (auto simp: continue_global_operation_endpoint_def res_elims)
  from continue_endpoint_run [OF assms(1) True call_okD(2) [OF assms(3)] this call_ok_ready [OF assms(3)]] assms(2)
  show ?thesis
    by (auto simp: same_totals_def)
next
  case False
  then have "c' = c"
    using assms(2)
    by (cases c) (auto simp: continue_global_operation_endpoint_def res_elims is_global_op_in_progress_iff continue_none)
  then show ?thesis
    using assms(1,3) False contract_inv_arrive [of tot c env] by (simp add: global_inv_idle call_okD(1) same_totals_def)
qed

lemma fee_effect:
  assumes "global_inv tot c" and "set_service_fee_endpoint env fee c = Inr (status, c')" and "call_ok tot env c"
  shows "global_inv (cumulated_rewards env) c' \<and> same_totals c c' \<and> op_left (c_global_op c') = 0 \<and>
    op_target (c_global_op c') (c_settings c') = (c_settings c)\<lparr>service_fee := fee\<rparr>"
proof -
  have g: "\<not> is_global_op_in_progress c" "fee \<le> PERCENTAGE_DENOMINATOR"
    using assms(2) by (simp_all add: set_service_fee_endpoint_def require_eq_Inr)
  have inv: "contract_inv tot c"
    using assms(1) g(1) by (simp add: global_inv_idle)
  from set_service_fee_run [OF inv call_okD(1) [OF assms(3)] g call_okD(3) [OF assms(3)]] assms(2)
  show ?thesis
    by (auto simp: same_totals_def)
qed

lemma modify_guards:
  assumes "modify_total_delegation_cap env new_cap c = Inr (status, c')" and "\<not> bootstrap_mode (c_settings c)"
  shows "new_cap \<le> get_user_stake_of_type (c_funds c) USER_STAKE_TOTALS_ID Active +
      get_user_stake_of_type (c_funds c) USER_STAKE_TOTALS_ID Waiting +
      get_user_stake_of_type (c_funds c) USER_STAKE_TOTALS_ID UnStaked"
    and "total_delegation_cap (c_settings c) < new_cap \<Longrightarrow>
      get_user_stake_of_type (c_funds c) USER_STAKE_TOTALS_ID UnStaked = 0"
    and "new_cap < total_delegation_cap (c_settings c) \<Longrightarrow>
      \<exists>x. total_unprotected (sc_balance env) (cumulated_rewards env) (c_funds c) (c_rewards c) = Inr x \<and>
        total_delegation_cap (c_settings c) - new_cap \<le> x"
  using assms by (auto simp: modify_total_delegation_cap_def only_owner_eq_Inr require_eq_Inr bind_res_eq_Inr Let_def)

lemma modify_guards_bootstrap:
  assumes "modify_total_delegation_cap env new_cap c = Inr (status, c')" and "bootstrap_mode (c_settings c)"
    and "cap_inv c" and "new_cap < get_user_stake_of_type (c_funds c) USER_STAKE_TOTALS_ID Active"
  shows "\<exists>x. total_unprotected (sc_balance env) (cumulated_rewards env) (c_funds c) (c_rewards c) = Inr x \<and>
        get_user_stake_of_type (c_funds c) USER_STAKE_TOTALS_ID Active - new_cap \<le> x"
  using assms cap_inv_boot [OF assms(3,2)]
  by (auto simp: modify_total_delegation_cap_def only_owner_eq_Inr require_eq_Inr bind_res_eq_Inr Let_def USER_STAKE_TOTALS_ID_def)

lemma modify_effect:
  assumes "global_inv tot c" and run: "modify_total_delegation_cap env new_cap c = Inr (status, c')"
    and ok: "call_ok tot env c"
    and exit: "\<not> (bootstrap_mode (c_settings c) \<and> new_cap = get_user_stake_of_type (c_funds c) USER_STAKE_TOTALS_ID Active)"
  shows "global_inv (cumulated_rewards env) c' \<and> same_totals c c' \<and>
    total_delegation_cap (op_target (c_global_op c') (c_settings c')) = new_cap \<and>
    (if bootstrap_mode (c_settings c) then op_left (c_global_op c') = 0
     else \<not> bootstrap_mode (c_settings c') \<and> op_left (c_global_op c') \<le> new_cap - total_delegation_cap (c_settings c))"
proof -
  have g: "caller env = sc_owner env" "\<not> is_global_op_in_progress c"
    using run by (simp_all add: modify_total_delegation_cap_def only_owner_eq_Inr require_eq_Inr)
  have inv: "contract_inv tot c"
    using assms(1) g by (simp add: global_inv_idle)
  note limits = call_okD(3) [OF ok, of 16] call_okD(7,9) [OF ok]
  show ?thesis
  proof (cases "bootstrap_mode (c_settings c)")
    case False
    have "\<not> bootstrap_mode (c_settings c')" if "op_target (c_global_op c') (c_settings c') = (c_settings c)\<lparr>total_delegation_cap := new_cap\<rparr>"
      using that False op_target_simps(1) [of "c_global_op c'" "c_settings c'"] by simp
    with modify_cap_regular_run [OF inv call_okD(1) [OF ok] g False modify_guards [OF run False]] limits run False
    show ?thesis
      by (auto simp: same_totals_def)
  next
    case True
    have "cap_inv c"
      using inv by (simp add: contract_inv_def)
    from modify_cap_bootstrap_run [OF inv call_okD(1) [OF ok] g True _ modify_guards_bootstrap [OF run True this]]
      limits run exit True
    show ?thesis
      by (auto simp: same_totals_def)
  qed
qed

text \<open>Dust cleanups, settings and addresses.\<close>

lemma dust_waiting_keeps:
  assumes "global_inv tot c" and "dust_cleanup_waiting_list env limit c = Inr c'" and "call_ok tot env c"
    and "checkpoint_ok (c_funds c) Waiting (c_dust_checkpoint c)"
  shows "global_inv tot c'"
proof -
  have g: "caller env = sc_owner env" "\<not> is_global_op_in_progress c"
    using assms(2) by (simp_all add: dust_cleanup_waiting_list_def only_owner_eq_Inr require_eq_Inr)
  have "contract_inv tot c"
    using assms(1) g by (simp add: global_inv_idle)
  from dust_cleanup_waiting_list_run [OF this g call_okD(3) [OF assms(3)] assms(4), of limit] assms(2)
  show ?thesis
    using g(2) by (auto simp: global_inv_def is_global_op_in_progress_def)
qed

lemma dust_active_keeps:
  assumes "global_inv tot c" and "dust_cleanup_active env limit c = Inr c'" and "call_ok tot env c"
    and "checkpoint_ok (c_funds c) Active (c_dust_checkpoint c)"
  shows "global_inv (cumulated_rewards env) c'"
proof -
  have g: "caller env = sc_owner env" "\<not> is_global_op_in_progress c"
    using assms(2) by (simp_all add: dust_cleanup_active_def only_owner_eq_Inr require_eq_Inr)
  have "contract_inv tot c"
    using assms(1) g by (simp add: global_inv_idle)
  from dust_cleanup_active_run [OF this call_okD(1) [OF assms(3)] g call_okD(3) [OF assms(3)] assms(4) call_okD(6,8) [OF assms(3)],
      of limit] assms(2)
  show ?thesis
    using g(2) by (auto simp: global_inv_def is_global_op_in_progress_def)
qed

text \<open>The invariant reads neither the unbond delay nor the minimum stake nor the nodes.\<close>

definition same_books :: "contract \<Rightarrow> contract \<Rightarrow> bool" where
  "same_books c c' \<longleftrightarrow> c_funds c' = c_funds c \<and> c_rewards c' = c_rewards c \<and> c_global_op c' = c_global_op c \<and>
     user_inv (c_users c') \<and> us_num_users (c_users c') = us_num_users (c_users c) \<and>
     service_fee (c_settings c') = service_fee (c_settings c) \<and>
     total_delegation_cap (c_settings c') = total_delegation_cap (c_settings c) \<and>
     bootstrap_mode (c_settings c') = bootstrap_mode (c_settings c)"

lemma same_books_keeps:
  assumes "global_inv tot c" and same: "same_books c c'"
  shows "global_inv tot c'"
proof -
  have share: "reward_share (c_settings c') fs u = reward_share (c_settings c) fs u" for fs u
    using same by (simp add: reward_share_def fee_rate_def same_books_def)
  have rew: "rewards_inv tot (c_settings c') (c_funds c') (c_rewards c') n \<longleftrightarrow>
      rewards_inv tot (c_settings c) (c_funds c) (c_rewards c) n" for n
    using same by (simp add: rewards_inv_def reward_liability_def pending_rewards_def share same_books_def)
  have base: "base_inv c \<longrightarrow> base_inv c'" and cap: "cap_inv c' \<longleftrightarrow> cap_inv c"
    using same by (auto simp: base_inv_def cap_inv_def same_books_def Let_def)
  have "op_rewards tot data c' \<longleftrightarrow> op_rewards tot data c" for data
    using same rew by (simp add: op_rewards_def same_books_def)
  then have "op_inv tot orc c \<longrightarrow> op_inv tot orc c'" for orc
    using same rew base cap
    by (cases orc) (auto simp: op_inv_def op_settled_def same_books_def split: modify_delegation_cap_step.splits)
  moreover have "contract_inv tot c \<longrightarrow> contract_inv tot c'"
    using same rew base cap by (auto simp: contract_inv_def same_books_def)
  moreover have "is_global_op_in_progress c' = is_global_op_in_progress c" "c_global_op c' = c_global_op c"
    using same by (simp_all add: is_global_op_in_progress_def same_books_def)
  ultimately show ?thesis
    using assms(1) by (simp add: global_inv_def split: if_splits)
qed

lemma global_inv_users: "global_inv tot c \<Longrightarrow> user_inv (c_users c)"
  by (simp add: global_inv_def op_inv_def contract_inv_def base_inv_def split: if_splits)

lemma update_user_address_endpoint_books:
  assumes "user_inv (c_users c)" and "update_user_address_endpoint addresses c = (counts, c')"
  shows "same_books c c'"
  using assms(2) update_user_address_inv [OF assms(1), of addresses "(0, 0, 0)"]
  by (auto simp: update_user_address_endpoint_def update_user_address_def same_books_def Let_def split: prod.splits)

lemma set_n_blocks_books:
  "user_inv (c_users c) \<Longrightarrow> set_n_blocks_before_unbond_endpoint env n c = Inr c' \<Longrightarrow> same_books c c'"
  by (auto simp: set_n_blocks_before_unbond_endpoint_def only_owner_eq_Inr same_books_def)

lemma set_min_stake_books:
  "user_inv (c_users c) \<Longrightarrow> set_minimum_stake_endpoint env n c = Inr c' \<Longrightarrow> same_books c c'"
  by (auto simp: set_minimum_stake_endpoint_def only_owner_eq_Inr same_books_def)

section \<open>Deployment\<close>

text \<open>A freshly deployed contract.\<close>

lemma totals_empty [simp]: "type_total fund_storage_empty t = 0" "user_total fund_storage_empty u t = 0"
  by (simp_all add: type_total_def user_total_def fund_storage_empty_def fund_list_by_type_def fund_list_by_user_def
      funds_list_default_def)

lemma init_full_inv:
  assumes "init_full env auction fee share n_blocks minimum cap contract_empty = Inr c"
  shows "contract_inv 0 c" and "\<not> is_global_op_in_progress c" and "bootstrap_mode (c_settings c)"
    and "total_delegation_cap (c_settings c) = cap"
    and "c_funds c = fund_storage_empty" and "us_num_users (c_users c) = 1" and "c_nodes c = node_storage_empty"
proof -
  have fee: "fee \<le> PERCENTAGE_DENOMINATOR" and c: "c_funds c = fund_storage_empty" "c_rewards c = reward_storage_empty"
    "c_global_op c = GlobalOpNone" "c_nodes c = node_storage_empty"
    "c_users c = \<lparr>us_user_id = (\<lambda>_. 0)(caller env := 1), us_user_address = (\<lambda>_. None)(1 := Some (caller env)), us_num_users = 1\<rparr>"
    "service_fee (c_settings c) = fee" "bootstrap_mode (c_settings c)" "total_delegation_cap (c_settings c) = cap"
    using assms
    by (auto simp: init_full_def Let_def require_eq_Inr bind_res_eq_Inr set_owner_min_stake_share_validated_def
        contract_empty_def user_storage_empty_def set_user_address_def OWNER_USER_ID_def)
  show "contract_inv 0 c"
    using fee by (auto simp: contract_inv_def base_inv_def cap_inv_def c fund_inv_empty registry_inv_def owned_funds_def
        rewards_inv_def reward_liability_def pending_rewards_def reward_storage_empty_def split: if_splits)
  show "\<not> is_global_op_in_progress c" "bootstrap_mode (c_settings c)" "total_delegation_cap (c_settings c) = cap"
    "c_funds c = fund_storage_empty" "us_num_users (c_users c) = 1" "c_nodes c = node_storage_empty"
    using c by (simp_all add: is_global_op_in_progress_iff)
qed

end
