(* ===== verification/Contract_Calls.thy ===== *)
theory Contract_Calls
  imports Contract_Steps Node_Activation
begin

text \<open>
  Calling the deployed contract: the functions its wasm module exports
  (\<^verbatim>\<open>latest_full/wasm/src/lib.rs\<close>, \<^verbatim>\<open>latest_update/wasm/src/lib.rs\<close>), the state-changing ones
  among them with their arguments, and one definition that runs any of them. It checks what the
  framework checks by the attribute \<^verbatim>\<open>#[payable]\<close>, and returns the contract and the effects.
\<close>

section \<open>Exported functions\<close>

definition latest_full_exports :: "string list" where
  "latest_full_exports =
    [''version'', ''getNumNodes'', ''getNodeId'', ''getNodeSignature'', ''getNodeState'', ''getAllNodeStates'',
     ''getNodeBlockNonceOfUnstake'', ''addNodes'', ''removeNodes'', ''getUserId'', ''getUserAddress'',
     ''getNumUsers'', ''updateUserAddress'', ''userIdsWithoutAddress'', ''fundById'', ''totalStake'',
     ''getUserStake'', ''getUserWithdrawOnlyStake'', ''getUserWaitingStake'', ''getUserActiveStake'',
     ''getUserUnstakedStake'', ''getUserDeferredPaymentStake'', ''getTotalWithdrawOnlyStake'',
     ''getTotalWaitingStake'', ''getTotalActiveStake'', ''getTotalUnstakedStake'',
     ''getTotalDeferredPaymentStake'', ''getUserStakeByType'', ''getTotalStakeByType'',
     ''getAllUserStakeByType'', ''getUserDeferredPaymentList'', ''getFullWaitingList'', ''getFullActiveList'',
     ''stakeNodes'', ''unStakeNodes'', ''unStakeNodesAndTokens'', ''forceNodeUnBondPeriod'', ''unBondNodes'',
     ''unBondAllPossibleNodes'', ''claimUnusedFunds'', ''unJailNodes'', ''unStakeTokens'', ''unBondTokens'',
     ''getAuctionContractAddress'', ''getServiceFee'', ''getTotalDelegationCap'', ''isBootstrapMode'',
     ''getOwnerMinStakeShare'', ''getNumBlocksBeforeUnBond'', ''setNumBlocksBeforeUnBond'',
     ''getMinimumStake'', ''setMinimumStake'', ''getGlobalOperationCheckpoint'',
     ''isGlobalOperationInProgress'', ''getTotalCumulatedRewards'', ''getClaimableRewards'',
     ''getTotalUnclaimedRewards'', ''getTotalUnProtected'', ''validateOwnerStakeShare'',
     ''validateDelegationCapInvariant'', ''continueGlobalOperation'', ''modifyTotalDelegationCap'',
     ''setServiceFee'', ''claimRewards'', ''stake'', ''unStake'', ''getUnStakeable'', ''unBond'',
     ''getUnBondable'', ''dustCleanupCheckpoint'', ''countDustItemsWaitingList'', ''countDustItemsActive'',
     ''dustCleanupWaitingList'', ''dustCleanupActive'', ''dnsRegister'', ''setFeatureFlag'', ''pause'',
     ''unpause'', ''isPaused'', ''callBack'']"

definition latest_update_exports :: "string list" where
  "latest_update_exports =
    [''version'', ''getNumNodes'', ''getNodeId'', ''getNodeSignature'', ''getNodeState'', ''getAllNodeStates'',
     ''getNodeBlockNonceOfUnstake'', ''addNodes'', ''removeNodes'', ''getUserId'', ''getUserAddress'',
     ''getNumUsers'', ''updateUserAddress'', ''userIdsWithoutAddress'', ''fundById'', ''totalStake'',
     ''getUserStake'', ''getUserWithdrawOnlyStake'', ''getUserWaitingStake'', ''getUserActiveStake'',
     ''getUserUnstakedStake'', ''getUserDeferredPaymentStake'', ''getTotalWithdrawOnlyStake'',
     ''getTotalWaitingStake'', ''getTotalActiveStake'', ''getTotalUnstakedStake'',
     ''getTotalDeferredPaymentStake'', ''getUserStakeByType'', ''getTotalStakeByType'',
     ''getAllUserStakeByType'', ''getUserDeferredPaymentList'', ''getFullWaitingList'', ''getFullActiveList'',
     ''stakeNodes'', ''unStakeNodes'', ''unStakeNodesAndTokens'', ''forceNodeUnBondPeriod'', ''unBondNodes'',
     ''unBondAllPossibleNodes'', ''claimUnusedFunds'', ''unJailNodes'', ''unStakeTokens'', ''unBondTokens'',
     ''getAuctionContractAddress'', ''getServiceFee'', ''getTotalDelegationCap'', ''isBootstrapMode'',
     ''getOwnerMinStakeShare'', ''getNumBlocksBeforeUnBond'', ''setNumBlocksBeforeUnBond'',
     ''getMinimumStake'', ''setMinimumStake'', ''getGlobalOperationCheckpoint'',
     ''isGlobalOperationInProgress'', ''getTotalCumulatedRewards'', ''getClaimableRewards'',
     ''getTotalUnclaimedRewards'', ''getTotalUnProtected'', ''validateOwnerStakeShare'',
     ''validateDelegationCapInvariant'', ''continueGlobalOperation'', ''modifyTotalDelegationCap'',
     ''setServiceFee'', ''claimRewards'', ''stake'', ''unStake'', ''getUnStakeable'', ''unBond'',
     ''getUnBondable'', ''dustCleanupCheckpoint'', ''countDustItemsWaitingList'', ''countDustItemsActive'',
     ''dustCleanupWaitingList'', ''dustCleanupActive'', ''dnsRegister'', ''setFeatureFlag'', ''pause'',
     ''unpause'', ''isPaused'', ''callBack'']"

section \<open>Calls\<close>

text \<open>
  The signature and the key that decoding an empty storage entry yields
  are arguments of the model (\<open>missing\<close>), as for the endpoints themselves.
\<close>

datatype endpoint_call =
    CallStake
  | CallUnStake nat
  | CallUnBond
  | CallClaimRewards
  | CallModifyTotalDelegationCap nat
  | CallSetServiceFee nat
  | CallContinueGlobalOperation
  | CallDustCleanupWaitingList nat
  | CallDustCleanupActive nat
  | CallSetNumBlocksBeforeUnBond u64
  | CallSetMinimumStake nat
  | CallUpdateUserAddress "address list"
  | CallAddNodes "(bls_key \<times> bls_signature) list"
  | CallRemoveNodes "bls_key list"
  | CallStakeNodes "bls_signature res" nat "bls_key list"
  | CallUnStakeNodes "bls_key list"
  | CallUnStakeNodesAndTokens "bls_key list"
  | CallForceNodeUnBondPeriod "bls_key list"
  | CallUnBondNodes "bls_key list"
  | CallUnBondAllPossibleNodes "bls_key res"
  | CallClaimUnusedFunds
  | CallUnJailNodes "bls_key list"
  | CallUnStakeTokens nat
  | CallUnBondTokens nat
  | CallBack auction_callback async_call_result

fun endpoint_name :: "endpoint_call \<Rightarrow> string" where
  "endpoint_name CallStake = ''stake''"
| "endpoint_name (CallUnStake amount) = ''unStake''"
| "endpoint_name CallUnBond = ''unBond''"
| "endpoint_name CallClaimRewards = ''claimRewards''"
| "endpoint_name (CallModifyTotalDelegationCap cap) = ''modifyTotalDelegationCap''"
| "endpoint_name (CallSetServiceFee fee) = ''setServiceFee''"
| "endpoint_name CallContinueGlobalOperation = ''continueGlobalOperation''"
| "endpoint_name (CallDustCleanupWaitingList limit) = ''dustCleanupWaitingList''"
| "endpoint_name (CallDustCleanupActive limit) = ''dustCleanupActive''"
| "endpoint_name (CallSetNumBlocksBeforeUnBond n) = ''setNumBlocksBeforeUnBond''"
| "endpoint_name (CallSetMinimumStake n) = ''setMinimumStake''"
| "endpoint_name (CallUpdateUserAddress addresses) = ''updateUserAddress''"
| "endpoint_name (CallAddNodes keys) = ''addNodes''"
| "endpoint_name (CallRemoveNodes keys) = ''removeNodes''"
| "endpoint_name (CallStakeNodes missing amount keys) = ''stakeNodes''"
| "endpoint_name (CallUnStakeNodes keys) = ''unStakeNodes''"
| "endpoint_name (CallUnStakeNodesAndTokens keys) = ''unStakeNodesAndTokens''"
| "endpoint_name (CallForceNodeUnBondPeriod keys) = ''forceNodeUnBondPeriod''"
| "endpoint_name (CallUnBondNodes keys) = ''unBondNodes''"
| "endpoint_name (CallUnBondAllPossibleNodes missing) = ''unBondAllPossibleNodes''"
| "endpoint_name CallClaimUnusedFunds = ''claimUnusedFunds''"
| "endpoint_name (CallUnJailNodes keys) = ''unJailNodes''"
| "endpoint_name (CallUnStakeTokens amount) = ''unStakeTokens''"
| "endpoint_name (CallUnBondTokens amount) = ''unBondTokens''"
| "endpoint_name (CallBack cb result) = ''callBack''"

text \<open>The endpoints with the attribute \<^verbatim>\<open>#[payable("EGLD")]\<close>; callbacks may bring money back.\<close>

fun call_payable :: "endpoint_call \<Rightarrow> bool" where
  "call_payable CallStake = True"
| "call_payable (CallUnJailNodes keys) = True"
| "call_payable (CallBack cb result) = True"
| "call_payable _ = False"

definition without_effects :: "contract res \<Rightarrow> (contract \<times> sc_effect list) res" where
  "without_effects r = bind_res r (\<lambda>c. Inr (c, []))"

definition without_status ::
  "(operation_completion_status \<times> contract) res \<Rightarrow> (contract \<times> sc_effect list) res" where
  "without_status r = bind_res r (\<lambda>(status, c). Inr (c, []))"

definition without_storage :: "contract \<Rightarrow> sc_effect list res \<Rightarrow> (contract \<times> sc_effect list) res" where
  "without_storage c r = bind_res r (\<lambda>effs. Inr (c, effs))"

fun run_endpoint :: "sc_env \<Rightarrow> nat \<Rightarrow> endpoint_call \<Rightarrow> contract \<Rightarrow> (contract \<times> sc_effect list) res" where
  "run_endpoint env payment CallStake c = stake_endpoint env payment c"
| "run_endpoint env payment (CallUnStake amount) c = without_effects (unstake_endpoint env amount c)"
| "run_endpoint env payment CallUnBond c = bind_res (unbond_user env c) (\<lambda>(x, c', effs). Inr (c', effs))"
| "run_endpoint env payment CallClaimRewards c = claim_rewards env c"
| "run_endpoint env payment (CallModifyTotalDelegationCap cap) c = without_status (modify_total_delegation_cap env cap c)"
| "run_endpoint env payment (CallSetServiceFee fee) c = without_status (set_service_fee_endpoint env fee c)"
| "run_endpoint env payment CallContinueGlobalOperation c = without_status (continue_global_operation_endpoint env c)"
| "run_endpoint env payment (CallDustCleanupWaitingList limit) c =
     without_effects (dust_cleanup_waiting_list env limit c)"
| "run_endpoint env payment (CallDustCleanupActive limit) c = without_effects (dust_cleanup_active env limit c)"
| "run_endpoint env payment (CallSetNumBlocksBeforeUnBond n) c =
     without_effects (set_n_blocks_before_unbond_endpoint env n c)"
| "run_endpoint env payment (CallSetMinimumStake n) c = without_effects (set_minimum_stake_endpoint env n c)"
| "run_endpoint env payment (CallUpdateUserAddress addresses) c =
     (let (counts, c') = update_user_address_endpoint addresses c in Inr (c', []))"
| "run_endpoint env payment (CallAddNodes keys) c = without_effects (add_nodes_endpoint env keys c)"
| "run_endpoint env payment (CallRemoveNodes keys) c = without_effects (remove_nodes_endpoint env keys c)"
| "run_endpoint env payment (CallStakeNodes missing amount keys) c = stake_nodes env missing amount keys c"
| "run_endpoint env payment (CallUnStakeNodes keys) c = unstake_nodes_endpoint env keys c"
| "run_endpoint env payment (CallUnStakeNodesAndTokens keys) c = unstake_nodes_and_tokens_endpoint env keys c"
| "run_endpoint env payment (CallForceNodeUnBondPeriod keys) c = without_effects (force_node_unbond_period env keys c)"
| "run_endpoint env payment (CallUnBondNodes keys) c = unbond_specific_nodes_endpoint env keys c"
| "run_endpoint env payment (CallUnBondAllPossibleNodes missing) c = unbond_all_possible_nodes env missing c"
| "run_endpoint env payment CallClaimUnusedFunds c = without_storage c (claim_unused_funds env c)"
| "run_endpoint env payment (CallUnJailNodes keys) c = without_storage c (unjail_nodes env keys payment c)"
| "run_endpoint env payment (CallUnStakeTokens amount) c = Inr (c, unstake_tokens amount c)"
| "run_endpoint env payment (CallUnBondTokens amount) c = Inr (c, unbond_tokens amount c)"
| "run_endpoint env payment (CallBack cb result) c = auction_callback_run env cb result c"

definition call_contract ::
  "string list \<Rightarrow> sc_env \<Rightarrow> nat \<Rightarrow> endpoint_call \<Rightarrow> contract \<Rightarrow> (contract \<times> sc_effect list) res"
where
  "call_contract exports env payment call c =
     require (endpoint_name call \<in> set exports) ''invalid function (not found)''
     (require (payment = 0 \<or> call_payable call) ''function does not accept EGLD payment''
       (run_endpoint env payment call c))"


text \<open>Both contracts export the same functions, every call of the model among them.\<close>

lemma exports_same: "latest_update_exports = latest_full_exports"
  by (simp add: latest_full_exports_def latest_update_exports_def)

lemma call_exported: "endpoint_name call \<in> set latest_full_exports"
  by (cases call) (simp_all add: latest_full_exports_def)

section \<open>Effects\<close>

text \<open>The money that leaves the contract with the effects of a call.\<close>

fun effect_value :: "sc_effect \<Rightarrow> nat" where
  "effect_value (Event e) = 0"
| "effect_value (DirectEgld to amount) = amount"
| "effect_value (AsyncCall to amount call cb) = amount"

definition paid :: "sc_effect list \<Rightarrow> nat" where
  "paid effs = (\<Sum>e\<leftarrow>effs. effect_value e)"

lemma paid_simps [simp]:
  "paid [] = 0" "paid (e # effs) = effect_value e + paid effs" "paid (effs @ effs') = paid effs + paid effs'"
  by (simp_all add: paid_def)

lemma without_eq_Inr:
  "without_effects r = Inr (c, effs) \<longleftrightarrow> r = Inr c \<and> effs = []"
  "without_status t = Inr (c, effs) \<longleftrightarrow> (\<exists>status. t = Inr (status, c)) \<and> effs = []"
  "without_storage d s = Inr (c, effs) \<longleftrightarrow> s = Inr effs \<and> c = d"
  by (auto simp: without_effects_def without_status_def without_storage_def bind_res_eq_Inr)

text \<open>The endpoints that administrate nodes change the nodes only; three of them pay.\<close>

fun node_call :: "endpoint_call \<Rightarrow> bool" where
  "node_call (CallAddNodes keys) = True"
| "node_call (CallRemoveNodes keys) = True"
| "node_call (CallStakeNodes missing amount keys) = True"
| "node_call (CallUnStakeNodes keys) = True"
| "node_call (CallUnStakeNodesAndTokens keys) = True"
| "node_call (CallForceNodeUnBondPeriod keys) = True"
| "node_call (CallUnBondNodes keys) = True"
| "node_call (CallUnBondAllPossibleNodes missing) = True"
| "node_call CallClaimUnusedFunds = True"
| "node_call (CallUnJailNodes keys) = True"
| "node_call (CallUnStakeTokens amount) = True"
| "node_call (CallUnBondTokens amount) = True"
| "node_call (CallBack cb result) = True"
| "node_call _ = False"

fun node_call_value :: "nat \<Rightarrow> endpoint_call \<Rightarrow> nat" where
  "node_call_value payment (CallStakeNodes missing amount keys) = amount"
| "node_call_value payment (CallUnJailNodes keys) = payment"
| "node_call_value payment _ = 0"

definition only_nodes :: "contract \<Rightarrow> contract \<Rightarrow> bool" where
  "only_nodes c c' \<longleftrightarrow> (\<exists>ns. c' = c\<lparr>c_nodes := ns\<rparr>)"

lemma only_nodes_refl [simp]: "only_nodes c c"
  unfolding only_nodes_def by (rule exI [of _ "c_nodes c"]) simp

lemma only_nodes_update [simp]: "only_nodes c (c\<lparr>c_nodes := ns\<rparr>)"
  by (auto simp: only_nodes_def)

lemma callback_only_nodes:
  assumes "auction_callback_run env cb result c = Inr (c', effs)"
  shows "only_nodes c c' \<and> paid effs = 0"
  using assms
  by (cases cb; cases result)
    (auto simp: auction_stake_callback_def auction_stake_callback_ok_def auction_stake_callback_fail_def
      auction_unstake_callback_def auction_unstake_callback_ok_def auction_unstake_callback_fail_def
      auction_unbond_callback_def auction_unbond_callback_ok_def auction_unbond_callback_fail_def
      bind_res_eq_Inr Let_def split: if_splits)

lemma node_call_only_nodes:
  assumes "run_endpoint env payment call c = Inr (c', effs)" and "node_call call"
  shows "only_nodes c c' \<and> paid effs = node_call_value payment call"
proof -
  note defs = without_eq_Inr only_owner_eq_Inr require_eq_Inr bind_res_eq_Inr
  show ?thesis
  proof (cases call)
    case (CallAddNodes keys)
    then show ?thesis
      using assms(1) by (auto simp: defs add_nodes_endpoint_def)
  next
    case (CallRemoveNodes keys)
    then show ?thesis
      using assms(1) by (auto simp: defs remove_nodes_endpoint_def)
  next
    case (CallStakeNodes missing amount keys)
    then show ?thesis
      using assms(1) by (auto simp: defs stake_nodes_def perform_stake_nodes_def Let_def)
  next
    case (CallUnStakeNodes keys)
    then show ?thesis
      using assms(1) by (auto simp: defs unstake_nodes_endpoint_def unstake_nodes_def perform_unstake_nodes_def)
  next
    case (CallUnStakeNodesAndTokens keys)
    then show ?thesis
      using assms(1) by (auto simp: defs unstake_nodes_and_tokens_endpoint_def unstake_nodes_def perform_unstake_nodes_def)
  next
    case (CallForceNodeUnBondPeriod keys)
    then show ?thesis
      using assms(1) by (auto simp: defs force_node_unbond_period_def)
  next
    case (CallUnBondNodes keys)
    then show ?thesis
      using assms(1) by (auto simp: defs unbond_specific_nodes_endpoint_def perform_unbond_def Let_def)
  next
    case (CallUnBondAllPossibleNodes missing)
    then show ?thesis
      using assms(1) by (auto simp: defs unbond_all_possible_nodes_def perform_unbond_def Let_def)
  next
    case CallClaimUnusedFunds
    then show ?thesis
      using assms(1) by (auto simp: defs claim_unused_funds_def)
  next
    case (CallUnJailNodes keys)
    then show ?thesis
      using assms(1) by (auto simp: defs unjail_nodes_def)
  next
    case (CallBack cb result)
    then show ?thesis
      using assms(1) callback_only_nodes by simp
  qed (use assms in \<open>auto simp: unstake_tokens_def unbond_tokens_def\<close>)
qed

text \<open>
  The calls that keep the invariants. Two calls the code accepts are not among them, and each
  breaks an invariant, which is shown with the properties of these operations: a dust cleanup that
  starts from a checkpoint in another list or at an item that is gone, and a change of the cap
  that ends bootstrap mode at exactly the active stake.
\<close>

fun call_guard :: "endpoint_call \<Rightarrow> contract \<Rightarrow> bool" where
  "call_guard (CallModifyTotalDelegationCap cap) c \<longleftrightarrow>
     \<not> (bootstrap_mode (c_settings c) \<and> cap = get_user_stake_of_type (c_funds c) USER_STAKE_TOTALS_ID Active)"
| "call_guard (CallDustCleanupWaitingList limit) c \<longleftrightarrow> checkpoint_ok (c_funds c) Waiting (c_dust_checkpoint c)"
| "call_guard (CallDustCleanupActive limit) c \<longleftrightarrow> checkpoint_ok (c_funds c) Active (c_dust_checkpoint c)"
| "call_guard _ c \<longleftrightarrow> True"

definition safe_call :: "endpoint_call \<Rightarrow> contract \<Rightarrow> bool" where
  "safe_call call c \<longleftrightarrow> call_bounds c \<and> call_guard call c"

lemma safe_callD:
  assumes "safe_call call c" and "env_ok tot env c"
  shows "call_ok tot env c" "call_guard call c"
  using assms by (simp_all add: safe_call_def call_ok_def)

lemma call_contractD:
  assumes "call_contract exports env payment call c = Inr (c', effs)"
  shows "run_endpoint env payment call c = Inr (c', effs)" "payment = 0 \<or> call_payable call"
  using assms by (simp_all add: call_contract_def require_eq_Inr)

lemma books_calls:
  assumes "run_endpoint env payment call c = Inr (c', effs)" and "user_inv (c_users c)"
    and "node_call call \<or> (\<exists>n. call = CallSetNumBlocksBeforeUnBond n) \<or> (\<exists>n. call = CallSetMinimumStake n) \<or>
      (\<exists>as. call = CallUpdateUserAddress as)"
  shows "same_books c c'"
proof (cases "node_call call")
  case True
  then show ?thesis
    using node_call_only_nodes [OF assms(1)] assms(2) by (auto simp: only_nodes_def same_books_def)
next
  case False
  then show ?thesis
    using assms set_n_blocks_books set_min_stake_books update_user_address_endpoint_books
    by (auto simp: without_eq_Inr split: prod.splits)
qed

text \<open>Every exported call.\<close>

lemma call_keeps:
  assumes "call_contract exports env payment call c = Inr (c', effs)" and "global_inv tot c" and "call_ok tot env c"
    and "call_guard call c"
  shows "\<exists>tot'\<in>{tot, cumulated_rewards env}. global_inv tot' c'"
proof -
  note run = call_contractD(1) [OF assms(1)]
  note keeps = stake_keeps [OF assms(2) _ assms(3)] unstake_keeps [OF assms(2) _ assms(3)] unbond_keeps [OF assms(2) _ assms(3)]
    claim_keeps [OF assms(2) _ assms(3)] dust_waiting_keeps [OF assms(2) _ assms(3)] dust_active_keeps [OF assms(2) _ assms(3)]
    modify_effect [OF assms(2) _ assms(3), THEN conjunct1] fee_effect [OF assms(2) _ assms(3), THEN conjunct1]
    continue_effect [OF assms(2) _ assms(3), THEN conjunct1]
  have books: ?thesis if "same_books c c'"
    using same_books_keeps [OF assms(2) that] by simp
  show ?thesis
  proof (cases "node_call call")
    case True
    then show ?thesis
      using books books_calls [OF run global_inv_users [OF assms(2)]] by blast
  next
    case False
    then show ?thesis
      using run assms(4) books books_calls [OF run global_inv_users [OF assms(2)]]
      by (cases call) (auto simp: without_eq_Inr bind_res_eq_Inr intro: keeps split: prod.splits)
  qed
qed

end
