(* ===== verification/Contract_Properties.thy ===== *)
theory Contract_Properties
  imports Contract_Calls Samples
begin

text \<open>
  Properties of the contract as a whole: whom the endpoints refuse and when, and what deployment, upgrade and the registry of users do.
\<close>

section \<open>A deployment\<close>

text \<open>A deployment with a cap of 200 in which a first user stakes 50.\<close>

lemma init_min_stake:
  "init_full env auction fee share n_blocks minimum cap c0 = Inr c \<Longrightarrow> min_stake (c_settings c) = minimum"
  by (auto simp: init_full_def Let_def require_eq_Inr bind_res_eq_Inr)

definition deploy_env :: sc_env where
  "deploy_env = (sample_env sample_owner)\<lparr>cumulated_rewards := 0\<rparr>"

definition deployed :: contract where
  "deployed = projr (init_full deploy_env (replicate 32 9) 1000 500 10 2 200 contract_empty)"

lemma deployed: "init_full deploy_env (replicate 32 9) 1000 500 10 2 200 contract_empty = Inr deployed"
  by (simp add: deployed_def init_full_def PERCENTAGE_DENOMINATOR_def set_owner_min_stake_share_validated_def Let_def)

lemma deployed_call_ok: "call_ok 0 (deploy_env\<lparr>caller := a\<rparr>) deployed"
proof -
  note init = init_full_inv [OF deployed]
  have empty: "type_items fund_storage_empty t = 0" for t
    by (simp add: type_items_def items_where_def fund_by_id_def fund_item_default_def fund_storage_empty_def)
  show ?thesis
    by (simp add: call_ok_def call_bounds_def env_ok_def deploy_env_def init empty id_room_def MAX_AFFECTED_USERS_def
        usize_max_def) (simp add: fund_storage_empty_def)
qed

lemma deployed_stake:
  "\<exists>c. stake_endpoint (deploy_env\<lparr>caller := sample_user\<rparr>) 50 deployed = Inr (c, [Event (StakeEvent sample_user 50)]) \<and>
     get_total_stake (c_funds c) = 50"
proof -
  let ?env = "deploy_env\<lparr>caller := sample_user\<rparr>"
  note init = init_full_inv [OF deployed]
  note ok = deployed_call_ok [of sample_user]
  obtain c where c: "process_stake ?env 50 deployed = Inr (c, [Event (StakeEvent sample_user 50)])"
    "get_user_total_stake (c_funds c) 0 = get_user_total_stake (c_funds deployed) 0 + 50"
    using process_stake_run [OF init(1) call_okD(1) [OF ok] _ call_okD(4) [OF ok] call_okD(3) [OF ok] call_okD(5,7) [OF ok], of 50]
      init(4) by auto
  moreover have "stake_endpoint ?env 50 deployed = Inr (c, [Event (StakeEvent sample_user 50)])"
    using c(1) init(2) deployed
    by (simp add: stake_endpoint_def deploy_env_def sample_env_def init_min_stake [OF deployed])
  ultimately show ?thesis
    by (auto simp: get_total_stake_def init USER_STAKE_TOTALS_ID_def get_user_total_stake_def)
qed

section \<open>Whom the endpoints refuse\<close>

lemma isl_require: "isl (require b msg r) \<longleftrightarrow> (b \<longrightarrow> isl r)"
  by (simp add: require_def)

lemma isl_bind_res: "isl (bind_res r f) \<longleftrightarrow> (\<forall>x. r = Inr x \<longrightarrow> isl (f x))"
  by (simp add: bind_res_def split: sum.splits)

lemma isl_only_owner: "isl (only_owner env r) \<longleftrightarrow> (caller env = sc_owner env \<longrightarrow> isl r)"
  by (simp add: only_owner_def isl_require)

lemmas refused = isl_require isl_bind_res isl_only_owner

text \<open>
  (C25) While a long operation is under way, every endpoint that could interfere with it is refused with an
  error, whoever calls it and with whatever arguments: staking, unstaking and claiming by users, a
  second long operation, the dust cleanups, and the operations that change nodes through the
  auction contract.
\<close>

theorem global_operation_blocks:
  assumes "is_global_op_in_progress c"
  shows "isl (stake_endpoint env payment c) \<and> isl (unstake_endpoint env amount c) \<and> isl (claim_rewards env c) \<and>
    isl (modify_total_delegation_cap env new_cap c) \<and> isl (set_service_fee_endpoint env new_fee c) \<and>
    isl (dust_cleanup_waiting_list env limit c) \<and> isl (dust_cleanup_active env limit c) \<and>
    isl (stake_nodes env missing amount keys c) \<and> isl (unstake_nodes_endpoint env keys c) \<and>
    isl (unstake_nodes_and_tokens_endpoint env keys c) \<and> isl (unbond_specific_nodes_endpoint env keys c) \<and>
    isl (unbond_all_possible_nodes env missing_key c) \<and> isl (claim_unused_funds env c)"
  using assms
  by (simp add: stake_endpoint_def unstake_endpoint_def claim_rewards_def modify_total_delegation_cap_def
      set_service_fee_endpoint_def dust_cleanup_waiting_list_def dust_cleanup_active_def stake_nodes_def
      unstake_nodes_endpoint_def unstake_nodes_and_tokens_endpoint_def unstake_nodes_def
      unbond_specific_nodes_endpoint_def unbond_all_possible_nodes_def claim_unused_funds_def refused Let_def)

theorem global_operation_blocks_witness:
  "isl (stake_endpoint (sample_env sample_user) 5 (sample_contract\<lparr>c_global_op := ChangeServiceFee 7 (compute_all_rewards_data_new 0)\<rparr>))"
  using global_operation_blocks [of "sample_contract\<lparr>c_global_op := ChangeServiceFee 7 (compute_all_rewards_data_new 0)\<rparr>"]
  by (simp add: is_global_op_in_progress_iff)

text \<open>
  (C26) Every endpoint marked \<^verbatim>\<open>#[only_owner]\<close> refuses everybody but the owner: a call by anybody else that
  changes the cap, the unbond delay, the minimum stake or the nodes (adding, removing, staking,
  unstaking, forcing and unbonding them), cleans up dust, unjails nodes or claims unused funds fails
  in every state. Three endpoints of this kind do not have the mark and let anybody through:
  \<^verbatim>\<open>setServiceFee\<close>, which the source describes as the owner's, changes the fee at once in bootstrap
  mode and for everybody, and \<^verbatim>\<open>unStakeTokens\<close> and \<^verbatim>\<open>unBondTokens\<close> send their call to the auction
  contract for everybody.
\<close>

theorem only_owner_administrates:
  assumes "caller env \<noteq> sc_owner env"
  shows "isl (modify_total_delegation_cap env new_cap c) \<and> isl (set_n_blocks_before_unbond_endpoint env n c) \<and>
    isl (set_minimum_stake_endpoint env amount c) \<and> isl (dust_cleanup_waiting_list env limit c) \<and>
    isl (dust_cleanup_active env limit c) \<and> isl (add_nodes_endpoint env kss c) \<and> isl (remove_nodes_endpoint env keys c) \<and>
    isl (stake_nodes env missing amount keys c) \<and> isl (unstake_nodes_endpoint env keys c) \<and>
    isl (unstake_nodes_and_tokens_endpoint env keys c) \<and> isl (force_node_unbond_period env keys c) \<and>
    isl (unbond_specific_nodes_endpoint env keys c) \<and> isl (unbond_all_possible_nodes env missing_key c) \<and>
    isl (claim_unused_funds env c) \<and> isl (unjail_nodes env keys fine c) \<and>
    (new_fee \<le> PERCENTAGE_DENOMINATOR \<longrightarrow> \<not> is_global_op_in_progress c \<longrightarrow> bootstrap_mode (c_settings c) \<longrightarrow>
      set_service_fee_endpoint env new_fee c = Inr (Completed, c\<lparr>c_settings := (c_settings c)\<lparr>service_fee := new_fee\<rparr>\<rparr>)) \<and>
    run_endpoint env 0 (CallUnStakeTokens amount) c = Inr (c, [Event (UnstakeTokensEvent amount),
      AsyncCall (auction_addr (c_settings c)) 0 (AuctionUnStakeTokens amount) None]) \<and>
    run_endpoint env 0 (CallUnBondTokens amount) c = Inr (c, [Event (UnbondTokensEvent amount),
      AsyncCall (auction_addr (c_settings c)) 0 (AuctionUnBondTokens amount) None])"
proof -
  have same: "c\<lparr>c_settings := (c_settings c)\<lparr>service_fee := new_fee\<rparr>\<rparr> = c" if "service_fee (c_settings c) = new_fee"
    using that by (cases c) (cases "c_settings c", simp)
  show ?thesis
    using assms same
    by (simp add: modify_total_delegation_cap_def set_n_blocks_before_unbond_endpoint_def set_minimum_stake_endpoint_def
        dust_cleanup_waiting_list_def dust_cleanup_active_def add_nodes_endpoint_def remove_nodes_endpoint_def
        stake_nodes_def unstake_nodes_endpoint_def unstake_nodes_and_tokens_endpoint_def force_node_unbond_period_def
        unbond_specific_nodes_endpoint_def unbond_all_possible_nodes_def claim_unused_funds_def unjail_nodes_def refused
        set_service_fee_endpoint_def require_def unstake_tokens_def unbond_tokens_def)
qed

theorem only_owner_administrates_witness:
  "isl (modify_total_delegation_cap (sample_env sample_user) 103 sample_contract)"
  using only_owner_administrates [of "sample_env sample_user"] sample_addresses by simp

section \<open>Deployment and upgrade\<close>

text \<open>
  (C34) Deployment. With fee and owner share of at most 100 percent the constructor returns: the deployer is
  the first and only user, nothing is staked, the contract is in bootstrap mode with the given
  cap, and its state is consistent. With a fee or share above 100 percent it fails.
\<close>

theorem init_full_correct:
  "if fee \<le> PERCENTAGE_DENOMINATOR \<and> share \<le> PERCENTAGE_DENOMINATOR
   then \<exists>c. init_full env auction fee share n_blocks minimum cap contract_empty = Inr c \<and> contract_inv 0 c \<and>
     us_user_id (c_users c) (caller env) = OWNER_USER_ID \<and> us_num_users (c_users c) = 1 \<and>
     get_total_stake (c_funds c) = 0 \<and>
     c_settings c = \<lparr>auction_addr = auction, service_fee = fee, total_delegation_cap = cap, bootstrap_mode = True,
       owner_min_stake_share = share, n_blocks_before_unbond = n_blocks, min_stake = minimum\<rparr>
   else isl (init_full env auction fee share n_blocks minimum cap contract_empty)"
proof (cases "fee \<le> PERCENTAGE_DENOMINATOR \<and> share \<le> PERCENTAGE_DENOMINATOR")
  case True
  then obtain c where c: "init_full env auction fee share n_blocks minimum cap contract_empty = Inr c"
    "us_user_id (c_users c) (caller env) = OWNER_USER_ID"
    "c_settings c = \<lparr>auction_addr = auction, service_fee = fee, total_delegation_cap = cap, bootstrap_mode = True,
       owner_min_stake_share = share, n_blocks_before_unbond = n_blocks, min_stake = minimum\<rparr>"
    by (simp add: init_full_def Let_def set_owner_min_stake_share_validated_def contract_empty_def)
  moreover have "get_total_stake fund_storage_empty = 0"
    by (simp add: get_total_stake_def get_user_total_stake_def get_user_stake_of_type_def fund_storage_empty_def
        fund_list_by_type_def funds_list_default_def ALL_TYPES_def USER_STAKE_TOTALS_ID_def)
  ultimately show ?thesis
    using True init_full_inv [OF c(1)] by simp
next
  case False
  then show ?thesis
    by (auto simp: init_full_def Let_def set_owner_min_stake_share_validated_def refused)
qed

text \<open>
  (C35) Upgrade from the genesis contract, which had no delegation cap. When the stored cap is zero the upgrade sets
  it to the active and unstaked stake, after which the invariant that \<open>stake\<close> validates holds;
  otherwise it changes nothing. Running it a second time never changes anything.
\<close>

theorem init_update_correct:
  "c_funds (init_update c) = c_funds c \<and> c_users (init_update c) = c_users c \<and> c_rewards (init_update c) = c_rewards c \<and>
   c_nodes (init_update c) = c_nodes c \<and> init_update (init_update c) = init_update c \<and>
   (if total_delegation_cap (c_settings c) = 0
    then total_delegation_cap (c_settings (init_update c)) =
        get_user_stake_of_type (c_funds c) USER_STAKE_TOTALS_ID Active +
        get_user_stake_of_type (c_funds c) USER_STAKE_TOTALS_ID UnStaked \<and>
      (bootstrap_mode (c_settings c) \<or> validate_delegation_cap_invariant (init_update c) = Inr ())
    else init_update c = c)"
  by (cases c) (auto simp: init_update_def update_total_delegation_cap_if_necessary_def
      validate_delegation_cap_invariant_def Let_def)

section \<open>Dust\<close>

text \<open>
  (C27) Cleaning up the waiting list, from a checkpoint that is 0 or belongs to the waiting list (what
  happens otherwise is stated with stale checkpoints and with checkpoints in the wrong list). The owner's
  call returns, also when the gas limit interrupts it: it keeps the invariant and every user's total
  stake, and it leaves a checkpoint from which the next call can go on. When it started from
  checkpoint 0 and was not interrupted, no dust is left in the waiting list.
\<close>

theorem dust_cleanup_waiting_list_correct:
  assumes "contract_inv tot c" and "caller env = sc_owner env" and "\<not> is_global_op_in_progress c"
    and "id_room 2 (c_funds c)" and "checkpoint_ok (c_funds c) Waiting (c_dust_checkpoint c)"
  shows "\<exists>c'. dust_cleanup_waiting_list env limit c = Inr c' \<and> contract_inv tot c' \<and>
    checkpoint_ok (c_funds c') Waiting (c_dust_checkpoint c') \<and>
    (\<forall>v. get_user_total_stake (c_funds c') v = get_user_total_stake (c_funds c) v) \<and>
    (c_dust_checkpoint c = 0 \<longrightarrow> (\<forall>k. \<not> gas_left env 0 k < DUST_GASLIMIT) \<longrightarrow>
      count_dust_items_waiting_list c' limit = Inr 0)"
  using dust_cleanup_waiting_list_run [OF assms, of limit] by (auto simp: count_dust_items_waiting_list_def)

lemma sample_stake: "get_user_total_stake sample_funds 2 = 53"
  by (simp add: get_user_total_stake_def sample_funds_def sum_of_def sum_where_def sample_entries_def)

theorem dust_cleanup_waiting_list_correct_witness:
  "\<exists>c'. dust_cleanup_waiting_list (sample_env sample_owner) 7 sample_contract = Inr c' \<and> contract_inv 0 c' \<and>
    get_user_total_stake (c_funds c') 2 = 53 \<and> count_dust_items_waiting_list c' 7 = Inr 0"
  using dust_cleanup_waiting_list_correct [OF sample_inv, of "sample_env sample_owner" 7] sample_room [of 2]
  by (auto simp: is_global_op_in_progress_iff checkpoint_ok_def sample_stake sample_env_def DUST_GASLIMIT_def)

text \<open>
  Cleaning up small active funds. They become unstaked and are replaced from the waiting list. The owner's call
  returns, settles the rewards of the users it touches first, and keeps the invariant, every user's
  total stake and the rewards already sent.
\<close>

theorem dust_cleanup_active_correct:
  assumes "contract_inv tot c" and "env_ok tot env c" and "caller env = sc_owner env" and "\<not> is_global_op_in_progress c"
    and "id_room 8 (c_funds c)" and "checkpoint_ok (c_funds c) Active (c_dust_checkpoint c)"
    and "few_items (c_funds c) Waiting"
    and "type_items (c_funds c) UnStaked + type_items (c_funds c) Active \<le> MAX_AFFECTED_USERS"
  shows "\<exists>c'. dust_cleanup_active env limit c = Inr c' \<and> contract_inv (cumulated_rewards env) c' \<and>
    c_nodes c' = c_nodes c \<and> c_users c' = c_users c \<and> rs_sent (c_rewards c') = rs_sent (c_rewards c) \<and>
    (\<forall>v. get_user_total_stake (c_funds c') v = get_user_total_stake (c_funds c) v)"
  using dust_cleanup_active_run [OF assms, of limit] by blast

theorem dust_cleanup_active_correct_witness:
  "\<exists>c'. dust_cleanup_active (sample_env sample_owner) 50 sample_contract = Inr c' \<and> contract_inv 1000 c' \<and>
    get_user_total_stake (c_funds c') 2 = 53"
  using dust_cleanup_active_correct [OF sample_inv sample_env_ok, of sample_owner 50] sample_room [of 8] sample_few sample_items
  by (auto simp: is_global_op_in_progress_iff checkpoint_ok_def sample_stake MAX_AFFECTED_USERS_def)

section \<open>Registry of users\<close>

text \<open>
  (C36) Looking up or creating a user gives every address one id for good: the id is not zero, belongs to
  no other address, and is the one found by every later call, also after other addresses were
  registered; ids of other addresses do not change, and the id leads back to the address.
\<close>

theorem get_or_create_user_correct:
  assumes "user_inv s" and "Suc (Suc (us_num_users s)) < usize_max" and "get_or_create_user a s = (u, s')"
  shows "u \<noteq> 0 \<and> get_user_address missing s' u = Inr a \<and> user_inv s' \<and>
    (\<forall>b. b \<noteq> a \<longrightarrow> us_user_id s' b = us_user_id s b \<and> us_user_id s' b \<noteq> u) \<and>
    (us_user_id s a \<noteq> 0 \<longrightarrow> u = us_user_id s a) \<and>
    (\<forall>b. fst (get_or_create_user a (snd (get_or_create_user b s'))) = u) \<and> get_or_create_user a s' = (u, s')"
proof -
  have room: "Suc (us_num_users s) < usize_max"
    using assms(2) by simp
  have u: "u = us_user_id s' a" "u \<noteq> 0" "us_user_address s' u \<noteq> None"
    using get_or_create_user_id [OF room, of a] assms(3) by simp_all
  have inv: "user_inv s'"
    using user_registry.register_inv [OF assms(1) room, of a] assms(3) by simp
  have num: "Suc (us_num_users s') < usize_max"
    using num_users_mono [OF room, of a] assms(2,3) by simp
  have name: "us_user_address s' u = Some a"
    using u inv unfolding registry_inv_def by (metis not_Some_eq)
  have others: "us_user_id s' b = us_user_id s b \<and> us_user_id s' b \<noteq> u" if "b \<noteq> a" for b
  proof
    show "us_user_id s' b = us_user_id s b"
      using assms(3) that by (auto simp: get_or_create_user_def new_user_def Let_def split: if_splits)
    show "us_user_id s' b \<noteq> u"
      using inv u that unfolding registry_inv_def by metis
  qed
  have known: "us_user_id t a \<noteq> 0 \<Longrightarrow> fst (get_or_create_user a t) = us_user_id t a" for t
    by (simp add: get_or_create_user_def Let_def)
  have later: "fst (get_or_create_user a (snd (get_or_create_user b s'))) = u" for b
  proof -
    have "us_user_id (snd (get_or_create_user b s')) a = u"
      using u by (auto simp: get_or_create_user_def new_user_def Let_def)
    then show ?thesis
      using known u(2) by simp
  qed
  have "get_or_create_user a s' = (u, s')"
    using u by (auto simp: get_or_create_user_def is_empty_user_address_def Let_def)
  moreover have "us_user_id s a \<noteq> 0 \<longrightarrow> u = us_user_id s a"
    using known [of s] assms(3) by simp
  ultimately show ?thesis
    using u(2) name inv others later by (auto simp: get_user_address_def)
qed

theorem get_or_create_user_correct_witness:
  "\<exists>s'. get_or_create_user (replicate 32 3) sample_users = (3, s') \<and> get_user_address (Inl ArrayVecFull) s' 3 = Inr (replicate 32 3) \<and>
    us_user_id s' sample_user = 2 \<and> get_or_create_user (replicate 32 3) s' = (3, s')"
proof -
  have other: "replicate 32 3 \<noteq> sample_owner" "replicate 32 3 \<noteq> sample_user"
    by (simp_all add: sample_owner_def sample_user_def)
  then have "get_or_create_user (replicate 32 3) sample_users = (3, snd (get_or_create_user (replicate 32 3) sample_users))"
    by (simp add: get_or_create_user_def new_user_def sample_users_def usize_add_def usize_max_def Let_def)
  then show ?thesis
    using get_or_create_user_correct [OF sample_user_inv, of "replicate 32 3" 3] other
    by (auto simp: sample_users_def usize_max_def)
qed

lemma update_user_address_counts:
  assumes "update_user_address_loop addresses (x, y, z) s = ((x', y', z'), s')"
    and "x + y + z + length addresses < usize_max"
  shows "x' + y' + z' = x + y + z + length addresses \<and>
    z' = z + length (filter (\<lambda>a. us_user_id s a = 0) addresses)"
  using assms
proof (induction addresses arbitrary: x y z s)
  case (Cons a addresses)
  then show ?case
    by (fastforce simp: Let_def usize_add_small split: if_splits)
qed simp

text \<open>
  The bulk update of addresses fills in missing addresses only: afterwards each listed address of
  a known user is registered for the user's id, no address that was there before changes, no ids
  are created or changed, and the three counters add up to the length of the list.
\<close>

theorem update_user_address_correct:
  assumes "user_inv s" and "update_user_address addresses s = ((updated, not_updated, not_found), s')"
    and "length addresses < usize_max"
  shows "user_inv s' \<and> us_user_id s' = us_user_id s \<and> us_num_users s' = us_num_users s \<and>
    (\<forall>a\<in>set addresses. us_user_id s a \<noteq> 0 \<longrightarrow> get_user_address missing s' (us_user_id s a) = Inr a) \<and>
    (\<forall>u a. us_user_address s u = Some a \<longrightarrow> get_user_address missing s' u = Inr a) \<and>
    updated + not_updated + not_found = length addresses \<and>
    not_found = length (filter (\<lambda>a. us_user_id s a = 0) addresses)"
proof -
  have run: "update_user_address_loop addresses (0, 0, 0) s = ((updated, not_updated, not_found), s')"
    using assms(2) by (simp add: update_user_address_def)
  have "updated + not_updated + not_found = length addresses \<and>
      not_found = length (filter (\<lambda>a. us_user_id s a = 0) addresses)"
    using update_user_address_counts [OF run] assms(3) by simp
  then show ?thesis
    using update_user_address_inv [OF assms(1), of addresses "(0, 0, 0)"]
      update_user_address_filled [OF assms(1), of _ addresses "(0, 0, 0)"]
    by (auto simp: run get_user_address_def)
qed

theorem update_user_address_correct_witness:
  "get_user_address (Inl ArrayVecFull) (snd (update_user_address [sample_user] (sample_users\<lparr>us_user_address := (\<lambda>_. None)\<rparr>))) 2 = Inr sample_user"
proof -
  let ?s = "sample_users\<lparr>us_user_address := (\<lambda>_. None)\<rparr>"
  have inv: "user_inv ?s"
    by (auto simp: registry_inv_def sample_users_def sample_addresses split: if_splits)
  obtain x y z s' where run: "update_user_address [sample_user] ?s = ((x, y, z), s')"
    by (metis prod_cases3 surj_pair)
  show ?thesis
    using update_user_address_correct [OF inv run] by (simp add: run usize_max_def)
qed

end
