(* ===== verification/Ledger.thy ===== *)
theory Ledger
  imports Contract_Calls
begin

text \<open>
  The contract and its balance: as long as the calls are safe, what delegators and users are
  owed is covered by the balance, so every payment of a successful call is.
\<close>

section \<open>Steps with the balance\<close>

text \<open>
  The state: all rewards that arrived so far, the balance, and the contract. Rewards are added
  to the balance by the protocol, none in bootstrap mode, in which no node can be staked; the
  auction contract and others may send money at any time. A call is any of the exported
  functions, by anybody and with any arguments; it sees the balance with its payment, and what
  its effects pay leaves the balance. A call that fails changes nothing. The parameter says
  which calls are considered: with \<open>\<lambda>call c. True\<close> the relation is the whole system,
  with \<open>safe_call\<close> it leaves out the two calls that break the invariants and the states
  close to the limits of the machine.
\<close>

inductive ledger_step ::
    "(endpoint_call \<Rightarrow> contract \<Rightarrow> bool) \<Rightarrow> nat \<times> nat \<times> contract \<Rightarrow> nat \<times> nat \<times> contract \<Rightarrow> bool"
  for admitted where
  rewards_arrive: "\<not> bootstrap_mode (c_settings c) \<Longrightarrow> ledger_step admitted (tot, b, c) (tot + r, b + r, c)"
| money_received: "ledger_step admitted (tot, b, c) (tot, b + y, c)"
| call: "call_contract exports env payment call c = Inr (c', effs) \<Longrightarrow> admitted call c \<Longrightarrow>
    cumulated_rewards env = tot \<Longrightarrow> sc_balance env = b + payment \<Longrightarrow>
    ledger_step admitted (tot, b, c) (tot, b + payment - paid effs, c')"

section \<open>The invariant\<close>

text \<open>
  After bootstrap mode the stake up to the cap may be in staked nodes; during a change of the
  cap this is the new cap already, less what still has to come from the waiting list.
\<close>

definition committed :: "contract \<Rightarrow> nat" where
  "committed c = (if bootstrap_mode (c_settings c) then 0
     else total_delegation_cap (op_target (c_global_op c) (c_settings c)))"

lemma committed_target:
  "committed c = (if bootstrap_mode (op_target (c_global_op c) (c_settings c)) then 0
     else total_delegation_cap (op_target (c_global_op c) (c_settings c)))"
  by (simp add: committed_def)

definition covered :: "nat \<Rightarrow> nat \<Rightarrow> contract \<Rightarrow> bool" where
  "covered tot b c \<longleftrightarrow>
     get_total_stake (c_funds c) + tot + op_left (c_global_op c) \<le> b + rs_sent (c_rewards c) + committed c"

definition ledger_inv :: "nat \<times> nat \<times> contract \<Rightarrow> bool" where
  "ledger_inv s \<longleftrightarrow> (case s of (tot, b, c) \<Rightarrow> (\<exists>tot0\<le>tot. global_inv tot0 c) \<and> covered tot b c \<and>
     (bootstrap_mode (c_settings c) \<longrightarrow> tot = 0))"

text \<open>What the contract must be able to pay out at once, besides the rewards.\<close>

definition payable_stake :: "fund_storage \<Rightarrow> nat" where
  "payable_stake fs = type_total fs WithdrawOnly + type_total fs Waiting + type_total fs DeferredPayment"

lemma total_stake_types:
  "get_total_stake fs = payable_stake fs + type_total fs Active + type_total fs UnStaked"
  by (simp add: get_total_stake_def get_user_total_stake_def ALL_TYPES_def USER_STAKE_TOTALS_ID_def payable_stake_def)

lemma rewards_inv_sent:
  assumes "rewards_inv tot st fs rw n"
  shows "rs_sent rw \<le> tot"
  using rewards_inv_claimable [OF assms] by linarith

lemma settled_sent: "settled tot rw n \<Longrightarrow> rs_sent rw \<le> tot"
  by (simp add: settled_def)

lemma global_inv_sent:
  assumes "global_inv tot c"
  shows "rs_sent (c_rewards c) \<le> tot"
proof (cases "is_global_op_in_progress c")
  case False
  then show ?thesis
    using assms rewards_inv_sent unfolding global_inv_idle [OF False] contract_inv_def by blast
next
  case True
  then have "op_inv tot (c_global_op c) c"
    using assms by (simp add: global_inv_def)
  then show ?thesis
    by (cases "c_global_op c")
      (auto simp: op_inv_def op_rewards_def op_settled_def dest!: rewards_inv_sent settled_sent
        split: modify_delegation_cap_step.splits)
qed

text \<open>The active and the unstaked stake during an operation.\<close>

lemma committed_le:
  assumes "global_inv tot c"
  shows "committed c \<le> type_total (c_funds c) Active + type_total (c_funds c) UnStaked + op_left (c_global_op c)"
proof (cases "is_global_op_in_progress c")
  case False
  then have "cap_inv c" "c_global_op c = GlobalOpNone"
    using assms by (simp_all add: global_inv_idle contract_inv_def is_global_op_in_progress_iff)
  then show ?thesis
    using cap_inv_regular [of c] by (simp add: committed_def)
next
  case True
  then have "op_inv tot (c_global_op c) c"
    using assms by (simp add: global_inv_def)
  then show ?thesis
    using cap_inv_regular [of c]
    by (cases "c_global_op c") (auto simp: op_inv_def committed_def cap_plan_def)
qed

lemma protected:
  assumes "global_inv tot0 c" and "covered tot b c"
  shows "payable_stake (c_funds c) + tot \<le> b + rs_sent (c_rewards c)"
  using committed_le [OF assms(1)] assms(2) by (simp add: covered_def total_stake_types)

lemma total_unprotected_covered:
  assumes "global_inv tot0 c" and "covered tot b c"
  shows "total_unprotected b tot (c_funds c) (c_rewards c) =
    Inr (b + rs_sent (c_rewards c) - tot - payable_stake (c_funds c))"
proof -
  have "payable_stake (c_funds c) + tot \<le> b + rs_sent (c_rewards c)"
    by (rule protected [OF assms])
  then have "tot \<le> b + rs_sent (c_rewards c)" "type_total (c_funds c) Waiting \<le> b + rs_sent (c_rewards c) - tot"
    "type_total (c_funds c) DeferredPayment \<le> b + rs_sent (c_rewards c) - tot - type_total (c_funds c) Waiting"
    "type_total (c_funds c) WithdrawOnly \<le>
      b + rs_sent (c_rewards c) - tot - type_total (c_funds c) Waiting - type_total (c_funds c) DeferredPayment"
    by (simp_all add: payable_stake_def)
  then show ?thesis
    by (simp only: total_unprotected_def USER_STAKE_TOTALS_ID_def get_user_stake_of_type_totals biguint_sub_le
        bind_res_Inr Let_def) (simp add: payable_stake_def)
qed

lemma total_unprotected_le:
  assumes "total_unprotected b tot fs rw = Inr x"
  shows "payable_stake fs + tot + x \<le> b + rs_sent rw"
  using assms
  by (auto simp: total_unprotected_def payable_stake_def USER_STAKE_TOTALS_ID_def bind_res_eq_Inr biguint_sub_eq_Inr Let_def)

section \<open>What each call keeps\<close>

text \<open>The settings under the moves of funds.\<close>

lemma compute_rewards_of_users_settings:
  "compute_rewards_of_users env us c = Inr c' \<Longrightarrow> c_settings c' = c_settings c"
  by (induction us arbitrary: c) (auto simp: bind_res_eq_Inr split: if_splits)

lemma use_waiting_settings:
  assumes "use_waiting_to_replace_unstaked env c = Inr c'"
  shows "total_delegation_cap (c_settings c') = total_delegation_cap (c_settings c) \<and>
    (bootstrap_mode (c_settings c') \<longrightarrow> bootstrap_mode (c_settings c))"
  using assms
  by (auto simp: use_waiting_to_replace_unstaked_def swap_waiting_to_active_compute_rewards_def res_elims Let_def
      dest!: compute_rewards_of_users_settings split: if_splits)

text \<open>A step that pays \<open>x\<close> and leaves no more to cover than before.\<close>

lemma covered_step:
  assumes "covered tot b c" and "x \<le> b + y"
    and "get_total_stake (c_funds c') + op_left (c_global_op c') + x + committed c + rs_sent (c_rewards c) \<le>
      get_total_stake (c_funds c) + op_left (c_global_op c) + y + committed c' + rs_sent (c_rewards c')"
  shows "covered tot (b + y - x) c'"
  using assms by (simp add: covered_def)

lemma committed_idle:
  "\<not> is_global_op_in_progress c \<Longrightarrow>
     committed c = (if bootstrap_mode (c_settings c) then 0 else total_delegation_cap (c_settings c)) \<and>
     op_left (c_global_op c) = 0"
  by (simp add: committed_def is_global_op_in_progress_iff)

lemma committed_moved:
  assumes "\<not> is_global_op_in_progress c" and "c_global_op c' = c_global_op c"
    and "total_delegation_cap (c_settings c') = total_delegation_cap (c_settings c)"
    and "bootstrap_mode (c_settings c') \<longrightarrow> bootstrap_mode (c_settings c)"
  shows "committed c \<le> committed c'" "op_left (c_global_op c') = 0" "op_left (c_global_op c) = 0"
  using assms by (simp_all add: committed_def is_global_op_in_progress_iff)

definition accounts :: "nat \<Rightarrow> contract \<Rightarrow> sc_effect list \<Rightarrow> contract \<Rightarrow> bool" where
  "accounts y c effs c' \<longleftrightarrow>
     get_total_stake (c_funds c') + op_left (c_global_op c') + paid effs + committed c + rs_sent (c_rewards c) \<le>
     get_total_stake (c_funds c) + op_left (c_global_op c) + y + committed c' + rs_sent (c_rewards c') \<and>
     (bootstrap_mode (c_settings c') \<longrightarrow> bootstrap_mode (c_settings c))"

lemma process_stake_settings:
  assumes "process_stake env payment c = Inr (c', effs)"
  shows "total_delegation_cap (c_settings c') = total_delegation_cap (c_settings c) \<and>
    (bootstrap_mode (c_settings c') \<longrightarrow> bootstrap_mode (c_settings c))"
  using assms by (auto simp: process_stake_def bind_res_eq_Inr Let_def split: prod.splits dest!: use_waiting_settings)

lemma stake_accounts:
  assumes "global_inv tot c" and "stake_endpoint env payment c = Inr (c', effs)" and "call_ok tot env c"
  shows "accounts payment c effs c'" "paid effs = 0"
proof -
  have run: "process_stake env payment c = Inr (c', effs)" and idle: "\<not> is_global_op_in_progress c"
    using assms(2) by (simp_all add: stake_endpoint_def require_eq_Inr)
  have inv: "contract_inv tot c"
    using assms(1) idle by (simp add: global_inv_idle)
  from process_stake_run [OF inv call_okD(1) [OF assms(3)] stake_cap_positive [OF run] call_okD(4) [OF assms(3)]
      call_okD(3) [OF assms(3)] call_okD(5,7) [OF assms(3)], of payment]
  have r: "c_global_op c' = c_global_op c" "rs_sent (c_rewards c') = rs_sent (c_rewards c)"
    "get_total_stake (c_funds c') = get_total_stake (c_funds c) + payment" "paid effs = 0"
    using run by (auto simp: get_total_stake_def USER_STAKE_TOTALS_ID_def)
  then show "paid effs = 0" "accounts payment c effs c'"
    using committed_moved [OF idle r(1)] process_stake_settings [OF run] by (auto simp: accounts_def)
qed

lemma unstake_accounts:
  assumes "global_inv tot c" and "unstake_endpoint env amount c = Inr c'" and "call_ok tot env c"
  shows "accounts 0 c [] c'"
proof -
  have r: "\<not> is_global_op_in_progress c" "c_global_op c' = c_global_op c" "rs_sent (c_rewards c') = rs_sent (c_rewards c)"
    "get_total_stake (c_funds c') = get_total_stake (c_funds c)"
    using unstake_effect [OF assms] by (auto simp: get_total_stake_def)
  have "total_delegation_cap (c_settings c') = total_delegation_cap (c_settings c) \<and>
    (bootstrap_mode (c_settings c') \<longrightarrow> bootstrap_mode (c_settings c))"
    using assms(2) by (auto simp: unstake_endpoint_def res_elims Let_def dest!: use_waiting_settings split: if_splits)
  then show ?thesis
    using committed_moved [OF r(1,2)] r by (auto simp: accounts_def)
qed
text \<open>Unbonding pays from what is withdrawn only or deferred.\<close>

lemma unbond_accounts:
  assumes "global_inv tot c" and "unbond_user env c = Inr (z, c', effs)" and "call_ok tot env c"
  shows "accounts 0 c effs c'" "paid effs \<le> payable_stake (c_funds c)"
proof -
  let ?u = "us_user_id (c_users c) (caller env)"
  have g: "not_paused env" "?u \<noteq> 0"
    using assms(2) by (auto simp: unbond_user_def require_eq_Inr Let_def)
  have room: "id_room 2 (c_funds c)"
    by (rule call_okD(3) [OF assms(3)]) simp
  have fs: "fund_inv (c_funds c)"
    using assms(1) by (auto simp: global_inv_def op_inv_def contract_inv_def base_inv_def split: if_splits)
  obtain x fs2 where r: "unbond_user env c = Inr (x, c\<lparr>c_funds := fs2\<rparr>, if 0 < x then [DirectEgld (caller env) x] else [])"
    "\<forall>r. r \<noteq> WithdrawOnly \<longrightarrow> r \<noteq> DeferredPayment \<longrightarrow> type_total fs2 r = type_total (c_funds c) r \<and>
       (\<forall>v. user_total fs2 v r = user_total (c_funds c) v r)"
    "\<forall>v. get_user_total_stake fs2 v + (if v = ?u \<or> v = 0 then x else 0) = get_user_total_stake (c_funds c) v"
    using unbond_effect [OF fs g(1) refl g(2) room] by blast
  have c': "c' = c\<lparr>c_funds := fs2\<rparr>" and x: "paid effs = x"
    using r(1) assms(2) by (auto split: if_splits)
  have less: "get_total_stake fs2 + x = get_total_stake (c_funds c)"
    using spec [OF r(3), of 0] by (simp add: get_total_stake_def USER_STAKE_TOTALS_ID_def)
  then show "accounts 0 c effs c'"
    using x by (simp add: accounts_def c' committed_def)
  show "paid effs \<le> payable_stake (c_funds c)"
    using less x r(2) by (simp add: total_stake_types)
qed

lemma claim_accounts:
  assumes "global_inv tot0 c" and "claim_rewards env c = Inr (c', effs)" and "call_ok tot0 env c"
  shows "accounts 0 c effs c'" "rs_sent (c_rewards c) + paid effs \<le> cumulated_rewards env"
proof -
  obtain x rw where r: "c' = c\<lparr>c_rewards := rw\<rparr>" "contract_inv (cumulated_rewards env) c'"
    "rs_sent rw = rs_sent (c_rewards c) + x" "paid effs = x" "global_inv (cumulated_rewards env) c'"
    using claim_effect [OF assms] claim_keeps [OF assms] by auto
  then show "accounts 0 c effs c'" "rs_sent (c_rewards c) + paid effs \<le> cumulated_rewards env"
    using global_inv_sent [OF r(5)] by (simp_all add: accounts_def committed_def)
qed

lemma same_totals_total: "same_totals c c' \<Longrightarrow> get_total_stake (c_funds c') = get_total_stake (c_funds c)"
  by (simp add: same_totals_def get_total_stake_def)

lemma operation_accounts:
  assumes "same_totals c c'" and "op_left (c_global_op c') + committed c \<le> op_left (c_global_op c) + committed c'"
    and "bootstrap_mode (c_settings c') \<longrightarrow> bootstrap_mode (c_settings c)"
  shows "accounts 0 c [] c'"
  using assms same_totals_total [OF assms(1)] by (simp add: accounts_def same_totals_def)

lemma op_target_boot:
  "op_target orc st = st' \<Longrightarrow> bootstrap_mode st \<longleftrightarrow> bootstrap_mode st'"
  by auto

lemma continue_accounts:
  assumes "global_inv tot c" and "continue_global_operation_endpoint env c = Inr (status, c')" and "call_ok tot env c"
  shows "accounts 0 c [] c'"
proof -
  have r: "same_totals c c'" "op_left (c_global_op c') \<le> op_left (c_global_op c)"
    "op_target (c_global_op c') (c_settings c') = op_target (c_global_op c) (c_settings c)"
    using continue_effect [OF assms] by simp_all
  have "committed c' = committed c"
    unfolding committed_target r(3) ..
  then show ?thesis
    using operation_accounts r op_target_boot [OF r(3)] by simp
qed

lemma fee_accounts:
  assumes "global_inv tot c" and "set_service_fee_endpoint env fee c = Inr (status, c')" and "call_ok tot env c"
  shows "accounts 0 c [] c'"
proof -
  have r: "same_totals c c'" "op_left (c_global_op c') = 0"
    "op_target (c_global_op c') (c_settings c') = (c_settings c)\<lparr>service_fee := fee\<rparr>"
    using fee_effect [OF assms] by simp_all
  have "\<not> is_global_op_in_progress c"
    using assms(2) by (simp add: set_service_fee_endpoint_def require_eq_Inr)
  then have "committed c' = committed c"
    unfolding committed_target r(3) by (simp add: is_global_op_in_progress_iff)
  then show ?thesis
    using operation_accounts r op_target_boot [OF r(3)] by simp
qed

text \<open>Lowering the cap is refused unless the difference is there beyond what is protected already.\<close>

lemma modify_covered:
  assumes "global_inv tot0 c" and run: "modify_total_delegation_cap env new_cap c = Inr (status, c')"
    and ok: "call_ok tot0 env c"
    and exit: "\<not> (bootstrap_mode (c_settings c) \<and> new_cap = get_user_stake_of_type (c_funds c) USER_STAKE_TOTALS_ID Active)"
    and cov: "covered (cumulated_rewards env) (sc_balance env) c"
  shows "covered (cumulated_rewards env) (sc_balance env) c'"
    and "bootstrap_mode (c_settings c') \<longrightarrow> bootstrap_mode (c_settings c)"
proof -
  have idle: "\<not> is_global_op_in_progress c"
    using run by (simp add: modify_total_delegation_cap_def only_owner_eq_Inr require_eq_Inr)
  have r: "same_totals c c'" "total_delegation_cap (op_target (c_global_op c') (c_settings c')) = new_cap"
    "if bootstrap_mode (c_settings c) then op_left (c_global_op c') = 0
     else \<not> bootstrap_mode (c_settings c') \<and> op_left (c_global_op c') \<le> new_cap - total_delegation_cap (c_settings c)"
    using modify_effect [OF assms(1-4)] by simp_all
  have same: "get_total_stake (c_funds c') = get_total_stake (c_funds c)" "rs_sent (c_rewards c') = rs_sent (c_rewards c)"
    using r(1) same_totals_total [OF r(1)] by (simp_all add: same_totals_def)
  show "bootstrap_mode (c_settings c') \<longrightarrow> bootstrap_mode (c_settings c)"
    using r(3) by (auto split: if_splits)
  show "covered (cumulated_rewards env) (sc_balance env) c'"
  proof (cases "\<not> bootstrap_mode (c_settings c) \<and> new_cap < total_delegation_cap (c_settings c)")
    case False
    then show ?thesis
      using cov r(2,3) same committed_idle [OF idle]
      by (auto simp: covered_def committed_def split: if_splits)
  next
    case True
    obtain x where x: "total_unprotected (sc_balance env) (cumulated_rewards env) (c_funds c) (c_rewards c) = Inr x"
      "total_delegation_cap (c_settings c) - new_cap \<le> x"
      using modify_guards(3) [OF run] True by auto
    have "cap_inv c"
      using assms(1) idle by (simp add: global_inv_idle contract_inv_def)
    then have "type_total (c_funds c) Active + type_total (c_funds c) UnStaked = total_delegation_cap (c_settings c)"
      using True by (simp add: cap_inv_regular)
    then show ?thesis
      using total_unprotected_le [OF x(1)] x(2) r(2,3) True same
      by (simp add: covered_def committed_def total_stake_types)
  qed
qed
text \<open>Dust cleanups and settings.\<close>

lemma idle_inv:
  assumes "global_inv tot c" and "\<not> is_global_op_in_progress c"
  shows "contract_inv tot c" "cap_inv c"
  using assms by (simp_all add: global_inv_idle contract_inv_def)

lemma dust_waiting_accounts:
  assumes "global_inv tot c" and "dust_cleanup_waiting_list env limit c = Inr c'" and "call_ok tot env c"
    and "checkpoint_ok (c_funds c) Waiting (c_dust_checkpoint c)"
  shows "accounts 0 c [] c'"
proof -
  have g: "caller env = sc_owner env" "\<not> is_global_op_in_progress c"
    using assms(2) by (simp_all add: dust_cleanup_waiting_list_def only_owner_eq_Inr require_eq_Inr)
  from dust_cleanup_waiting_list_run [OF idle_inv(1) [OF assms(1) g(2)] g call_okD(3) [OF assms(3)] assms(4), of limit] assms(2)
  show ?thesis
    by (auto simp: accounts_def committed_def get_total_stake_def)
qed

lemma dust_active_accounts:
  assumes "global_inv tot c" and "dust_cleanup_active env limit c = Inr c'" and "call_ok tot env c"
    and "checkpoint_ok (c_funds c) Active (c_dust_checkpoint c)"
  shows "accounts 0 c [] c'"
proof -
  have g: "caller env = sc_owner env" "\<not> is_global_op_in_progress c"
    using assms(2) by (simp_all add: dust_cleanup_active_def only_owner_eq_Inr require_eq_Inr)
  from dust_cleanup_active_run [OF idle_inv(1) [OF assms(1) g(2)] call_okD(1) [OF assms(3)] g call_okD(3) [OF assms(3)]
      assms(4) call_okD(6,8) [OF assms(3)], of limit] assms(2)
  have r: "c_global_op c' = c_global_op c" "same_totals c c'"
    by (auto simp: same_totals_def)
  have "total_delegation_cap (c_settings c') = total_delegation_cap (c_settings c) \<and>
    (bootstrap_mode (c_settings c') \<longrightarrow> bootstrap_mode (c_settings c))"
    using assms(2) by (auto simp: dust_cleanup_active_def only_owner_eq_Inr res_elims Let_def dest!: use_waiting_settings)
  then show ?thesis
    using operation_accounts [OF r(2)] committed_moved [OF g(2) r(1)] by simp
qed

lemma same_books_accounts:
  assumes "same_books c c'"
  shows "accounts 0 c [] c'"
proof -
  have "c_global_op c' = c_global_op c" "total_delegation_cap (c_settings c') = total_delegation_cap (c_settings c)"
    "bootstrap_mode (c_settings c') = bootstrap_mode (c_settings c)"
    using assms by (simp_all add: same_books_def)
  then have "committed c' = committed c"
    by (cases "c_global_op c") (simp_all add: committed_def)
  then show ?thesis
    using assms by (simp add: accounts_def same_books_def)
qed

lemma nodes_accounts: "only_nodes c c' \<Longrightarrow> paid effs \<le> y \<Longrightarrow> accounts y c effs c'"
  by (auto simp: only_nodes_def accounts_def committed_def)

text \<open>Staking nodes is refused beyond the unprotected part of the balance.\<close>

lemma stake_nodes_covered:
  assumes "global_inv tot0 c" and "stake_nodes env missing amount keys c = Inr (c', effs)"
    and "tot0 \<le> cumulated_rewards env"
  shows "paid effs \<le> sc_balance env" "covered (cumulated_rewards env) (sc_balance env - paid effs) c'"
proof -
  obtain x where x: "total_unprotected (sc_balance env) (cumulated_rewards env) (c_funds c) (c_rewards c) = Inr x" "amount \<le> x"
    and g: "\<not> bootstrap_mode (c_settings c)" "\<not> is_global_op_in_progress c"
    using assms(2) by (auto simp: stake_nodes_def only_owner_eq_Inr require_eq_Inr bind_res_eq_Inr)
  have run: "run_endpoint env 0 (CallStakeNodes missing amount keys) c = Inr (c', effs)"
    using assms(2) by simp
  then have c': "only_nodes c c'" "paid effs = amount"
    using node_call_only_nodes [OF run] by simp_all
  note le = total_unprotected_le [OF x(1)]
  have sent: "rs_sent (c_rewards c) \<le> cumulated_rewards env"
    using global_inv_sent [OF assms(1)] assms(3) by simp
  show "paid effs \<le> sc_balance env"
    using le x(2) c'(2) sent by linarith
  show "covered (cumulated_rewards env) (sc_balance env - paid effs) c'"
    using le x(2) c' g cap_inv_regular [OF idle_inv(2) [OF assms(1) g(2)]] sent
    by (auto simp: covered_def committed_idle total_stake_types only_nodes_def is_global_op_in_progress_iff committed_def)
qed

section \<open>Every call\<close>

lemma paying_call:
  assumes "covered tot b c" and "accounts y c effs c'" and "paid effs \<le> b + y"
  shows "paid effs \<le> b + y \<and> covered tot (b + y - paid effs) c' \<and>
    (bootstrap_mode (c_settings c') \<longrightarrow> bootstrap_mode (c_settings c))"
  using covered_step [OF assms(1,3)] assms(2,3) by (simp add: accounts_def)

lemma call_covered:
  assumes inv: "global_inv tot0 c" and cov: "covered (cumulated_rewards env) b c"
    and call: "call_contract exports env payment call c = Inr (c', effs)" and ok: "call_ok tot0 env c"
    and guard: "call_guard call c" and balance: "sc_balance env = b + payment"
  shows "paid effs \<le> b + payment \<and> covered (cumulated_rewards env) (b + payment - paid effs) c' \<and>
    (bootstrap_mode (c_settings c') \<longrightarrow> bootstrap_mode (c_settings c))" (is "?P \<and> ?C \<and> ?B")
proof -
  note run = call_contractD [OF call] and pays = paying_call [OF cov]
  have free: "?P \<and> ?C \<and> ?B"
    if "accounts 0 c [] c'" "effs = []" "payment = 0"
    using pays [of 0 "[]" c'] that by simp
  have nodes: "?P \<and> ?C \<and> ?B"
    if "node_call call" "node_call_value payment call \<le> payment"
    using node_call_only_nodes [OF run(1) that(1)] that(2) by (intro pays nodes_accounts) auto
  note sent = global_inv_sent [OF inv] and protected = protected [OF inv cov]
  show ?thesis
  proof (cases call)
    case CallStake
    then show ?thesis
      using stake_accounts [OF inv _ ok] run(1) by (intro pays) auto
  next
    case (CallUnStake amount)
    then show ?thesis
      using unstake_accounts [OF inv _ ok] run by (intro free) (auto simp: without_eq_Inr)
  next
    case CallUnBond
    then obtain x where x: "unbond_user env c = Inr (x, c', effs)" and zero: "payment = 0"
      using run by (auto simp: bind_res_eq_Inr)
    have "paid effs \<le> b"
      using unbond_accounts(2) [OF inv x ok] protected sent call_okD(2) [OF ok] by linarith
    then show ?thesis
      using pays [OF unbond_accounts(1) [OF inv x ok]] zero by simp
  next
    case CallClaimRewards
    then have x: "claim_rewards env c = Inr (c', effs)" and zero: "payment = 0"
      using run by auto
    have "paid effs \<le> b"
      using claim_accounts(2) [OF inv x ok] protected by linarith
    then show ?thesis
      using pays [OF claim_accounts(1) [OF inv x ok]] zero by simp
  next
    case (CallModifyTotalDelegationCap cap)
    then show ?thesis
      using modify_covered [OF inv _ ok, of cap] run guard balance cov by (auto simp: without_eq_Inr)
  next
    case (CallSetServiceFee fee)
    then show ?thesis
      using fee_accounts [OF inv _ ok] run by (intro free) (auto simp: without_eq_Inr)
  next
    case CallContinueGlobalOperation
    then show ?thesis
      using continue_accounts [OF inv _ ok] run by (intro free) (auto simp: without_eq_Inr)
  next
    case (CallDustCleanupWaitingList limit)
    then show ?thesis
      using dust_waiting_accounts [OF inv _ ok] run guard by (intro free) (auto simp: without_eq_Inr)
  next
    case (CallDustCleanupActive limit)
    then show ?thesis
      using dust_active_accounts [OF inv _ ok] run guard by (intro free) (auto simp: without_eq_Inr)
  next
    case (CallSetNumBlocksBeforeUnBond n)
    then show ?thesis
      using same_books_accounts set_n_blocks_books [OF global_inv_users [OF inv]] run
      by (intro free) (auto simp: without_eq_Inr)
  next
    case (CallSetMinimumStake n)
    then show ?thesis
      using same_books_accounts set_min_stake_books [OF global_inv_users [OF inv]] run
      by (intro free) (auto simp: without_eq_Inr)
  next
    case (CallUpdateUserAddress addresses)
    then show ?thesis
      using same_books_accounts update_user_address_endpoint_books [OF global_inv_users [OF inv]] run
      by (intro free) (auto split: prod.splits)
  next
    case (CallStakeNodes missing amount keys)
    then have x: "stake_nodes env missing amount keys c = Inr (c', effs)" and zero: "payment = 0"
      using run by auto
    have "only_nodes c c'"
      using node_call_only_nodes [OF run(1)] CallStakeNodes by simp
    then show ?thesis
      using stake_nodes_covered [OF inv x call_okD(2) [OF ok]] zero balance by (auto simp: only_nodes_def)
  qed (use run nodes in auto)
qed

text \<open>The calls that break an invariant send nothing.\<close>

lemma unsafe_call_pays_nothing:
  assumes "call_contract exports env payment call c = Inr (c', effs)" and "\<not> call_guard call c"
  shows "effs = []"
  using call_contractD(1) [OF assms(1)] assms(2) by (cases call) (auto simp: without_eq_Inr split: prod.splits)

lemma ledger_step_keeps:
  assumes "ledger_step safe_call s s'" and "ledger_inv s"
  shows "ledger_inv s'"
  using assms(1)
proof (cases rule: ledger_step.cases)
  case (rewards_arrive c tot b r)
  then show ?thesis
    using assms(2) unfolding ledger_inv_def covered_def by (auto dest: trans_le_add1)
next
  case (money_received tot b c y)
  then show ?thesis
    using assms(2) by (auto simp: ledger_inv_def covered_def)
next
  case (call exports env payment call c c' effs tot b)
  obtain tot0 where tot0: "tot0 \<le> tot" "global_inv tot0 c" and cov: "covered tot b c"
    and boot: "bootstrap_mode (c_settings c) \<longrightarrow> tot = 0"
    using assms(2) call(1) by (auto simp: ledger_inv_def)
  have "env_ok tot0 env c"
    using call(5) tot0(1) boot by (simp add: env_ok_def)
  note ok = safe_callD [OF call(4) this]
  have "\<exists>tot1\<le>tot. global_inv tot1 c'"
    using call_keeps [OF call(3) tot0(2) ok] call(5) tot0(1) by auto
  then show ?thesis
    using call_covered [OF tot0(2) _ call(3) ok call(6)] cov call(1,2,5) assms(2) by (auto simp: ledger_inv_def)
qed

lemma ledger_protected:
  assumes "ledger_inv (tot, b, c)"
  shows "rs_sent (c_rewards c) \<le> tot" "payable_stake (c_funds c) + (tot - rs_sent (c_rewards c)) \<le> b"
proof -
  obtain tot0 where inv: "global_inv tot0 c" "tot0 \<le> tot" and cov: "covered tot b c"
    using assms by (auto simp: ledger_inv_def)
  show "rs_sent (c_rewards c) \<le> tot"
    using global_inv_sent [OF inv(1)] inv(2) by simp
  then show "payable_stake (c_funds c) + (tot - rs_sent (c_rewards c)) \<le> b"
    using protected [OF inv(1) cov] by simp
qed

lemma ledger_steps_keep: "(ledger_step safe_call)\<^sup>*\<^sup>* s s' \<Longrightarrow> ledger_inv s \<Longrightarrow> ledger_inv s'"
  by (induction rule: rtranclp_induct) (auto intro: ledger_step_keeps)

end
