(* ===== verification/Contract_Types.thy ===== *)
theory Contract_Types
  imports Contract_Calls
begin

text \<open>
  The types of the source, where the model's lists and numbers are wider: addresses have 32 bytes,
  BLS keys 96 and signatures 48, counters are \<^verbatim>\<open>usize\<close>, and a share in ten thousandths is at most
  10000. Calls with arguments of their types store and send nothing else, whatever their order
  and whether or not they fail.
\<close>

section \<open>Types\<close>

abbreviation is_address :: "address \<Rightarrow> bool" where
  "is_address a \<equiv> length a = 32"

abbreviation is_bls_key :: "bls_key \<Rightarrow> bool" where
  "is_bls_key k \<equiv> length k = 96"

abbreviation is_bls_signature :: "bls_signature \<Rightarrow> bool" where
  "is_bls_signature sig \<equiv> length sig = 48"

definition typed_users :: "user_storage \<Rightarrow> bool" where
  "typed_users us \<longleftrightarrow> (\<forall>a. us_user_id us a \<noteq> 0 \<longrightarrow> is_address a) \<and>
     (\<forall>u a. us_user_address us u = Some a \<longrightarrow> is_address a) \<and> us_num_users us < usize_max"

definition typed_nodes :: "node_storage \<Rightarrow> bool" where
  "typed_nodes ns \<longleftrightarrow> (\<forall>k. ns_bls_to_id ns k \<noteq> 0 \<longrightarrow> is_bls_key k) \<and>
     (\<forall>i k. ns_id_to_bls ns i = Some k \<longrightarrow> is_bls_key k) \<and>
     (\<forall>i sig. ns_signature ns i = Some sig \<longrightarrow> is_bls_signature sig) \<and> ns_num_nodes ns < usize_max"

definition typed_settings :: "settings \<Rightarrow> bool" where
  "typed_settings st \<longleftrightarrow> is_address (auction_addr st) \<and> service_fee st \<le> PERCENTAGE_DENOMINATOR \<and>
     owner_min_stake_share st \<le> PERCENTAGE_DENOMINATOR"

fun typed_op :: "global_op_checkpoint \<Rightarrow> bool" where
  "typed_op (ChangeServiceFee f data) \<longleftrightarrow> f \<le> PERCENTAGE_DENOMINATOR"
| "typed_op _ \<longleftrightarrow> True"

definition typed_contract :: "contract \<Rightarrow> bool" where
  "typed_contract c \<longleftrightarrow> typed_users (c_users c) \<and> typed_nodes (c_nodes c) \<and> typed_settings (c_settings c) \<and>
     typed_op (c_global_op c)"

text \<open>Arguments; the outcome of decoding an empty entry is a key or a signature or an error.\<close>

fun typed_call :: "endpoint_call \<Rightarrow> bool" where
  "typed_call (CallUpdateUserAddress addresses) \<longleftrightarrow> (\<forall>a\<in>set addresses. is_address a)"
| "typed_call (CallAddNodes keys) \<longleftrightarrow> (\<forall>(k, sig)\<in>set keys. is_bls_key k \<and> is_bls_signature sig)"
| "typed_call (CallStakeNodes missing amount keys) \<longleftrightarrow> (\<forall>sig. missing = Inr sig \<longrightarrow> is_bls_signature sig)"
| "typed_call (CallUnBondAllPossibleNodes missing) \<longleftrightarrow> (\<forall>k. missing = Inr k \<longrightarrow> is_bls_key k)"
| "typed_call _ \<longleftrightarrow> True"

fun typed_auction_call :: "auction_call \<Rightarrow> bool" where
  "typed_auction_call (AuctionStake n keys) \<longleftrightarrow> (\<forall>(k, sig)\<in>set keys. is_bls_key k \<and> is_bls_signature sig)"
| "typed_auction_call (AuctionUnStake keys) \<longleftrightarrow> (\<forall>k\<in>set keys. is_bls_key k)"
| "typed_auction_call (AuctionUnStakeNodes keys) \<longleftrightarrow> (\<forall>k\<in>set keys. is_bls_key k)"
| "typed_auction_call (AuctionUnBond keys) \<longleftrightarrow> (\<forall>k\<in>set keys. is_bls_key k)"
| "typed_auction_call (AuctionUnBondNodes keys) \<longleftrightarrow> (\<forall>k\<in>set keys. is_bls_key k)"
| "typed_auction_call (AuctionUnJail keys) \<longleftrightarrow> (\<forall>k\<in>set keys. is_bls_key k)"
| "typed_auction_call _ \<longleftrightarrow> True"

fun typed_effect :: "sc_effect \<Rightarrow> bool" where
  "typed_effect (Event e) \<longleftrightarrow> True"
| "typed_effect (DirectEgld to amount) \<longleftrightarrow> is_address to"
| "typed_effect (AsyncCall to amount call cb) \<longleftrightarrow> is_address to \<and> typed_auction_call call"

definition typed_effects :: "sc_effect list \<Rightarrow> bool" where
  "typed_effects effs \<longleftrightarrow> (\<forall>e\<in>set effs. typed_effect e)"

lemma typed_effects_simps [simp]:
  "typed_effects []" "typed_effects (e # effs) \<longleftrightarrow> typed_effect e \<and> typed_effects effs"
  "typed_effects (effs @ effs') \<longleftrightarrow> typed_effects effs \<and> typed_effects effs'"
  by (auto simp: typed_effects_def)

section \<open>Calls that move money only\<close>

definition money_only :: "contract \<Rightarrow> contract \<Rightarrow> bool" where
  "money_only c c' \<longleftrightarrow> c_users c' = c_users c \<and> c_nodes c' = c_nodes c \<and> c_global_op c' = c_global_op c \<and>
     auction_addr (c_settings c') = auction_addr (c_settings c) \<and>
     service_fee (c_settings c') = service_fee (c_settings c) \<and>
     owner_min_stake_share (c_settings c') = owner_min_stake_share (c_settings c)"

lemma money_only_refl [simp]: "money_only c c"
  by (simp add: money_only_def)

lemma money_only_trans: "money_only c c1 \<Longrightarrow> money_only c1 c2 \<Longrightarrow> money_only c c2"
  by (simp add: money_only_def)

lemma money_only_typed: "money_only c c' \<Longrightarrow> typed_contract c' = typed_contract c"
  by (simp add: money_only_def typed_contract_def typed_settings_def)

lemma compute_rewards_of_users_money: "compute_rewards_of_users env us c = Inr c' \<Longrightarrow> money_only c c'"
  by (induction us arbitrary: c) (auto simp: bind_res_eq_Inr money_only_def split: if_splits)

lemma use_waiting_money:
  assumes "use_waiting_to_replace_unstaked env c = Inr c'"
  shows "money_only c c'"
  using assms
  by (auto simp: use_waiting_to_replace_unstaked_def swap_waiting_to_active_compute_rewards_def res_elims Let_def
      dest!: compute_rewards_of_users_money split: if_splits) (simp_all add: money_only_def)

lemma process_stake_money:
  assumes "process_stake env payment c = Inr (c', effs)"
  shows "money_only (c\<lparr>c_users := snd (get_or_create_user (caller env) (c_users c))\<rparr>) c' \<and>
    effs = [Event (StakeEvent (caller env) payment)]"
proof -
  obtain u us where gc: "get_or_create_user (caller env) (c_users c) = (u, us)"
    by (cases "get_or_create_user (caller env) (c_users c)")
  have "use_waiting_to_replace_unstaked env
      (c\<lparr>c_users := us, c_funds := create_waiting (block_nonce env) u payment (c_funds c)\<rparr>) = Inr c'"
    "effs = [Event (StakeEvent (caller env) payment)]"
    using assms by (auto simp: process_stake_def gc Let_def bind_res_eq_Inr)
  then show ?thesis
    using use_waiting_money by (fastforce simp: money_only_def gc)
qed

lemma unstake_money:
  assumes "unstake_endpoint env amount c = Inr c'"
  shows "money_only c c'"
  using assms
  by (auto simp: unstake_endpoint_def res_elims Let_def dest!: use_waiting_money split: if_splits)
    (simp_all add: money_only_def)

lemma dust_money:
  "dust_cleanup_waiting_list env limit c = Inr c' \<Longrightarrow> money_only c c'"
  "dust_cleanup_active env limit c = Inr c' \<Longrightarrow> money_only c c'"
  by (auto simp: dust_cleanup_waiting_list_def dust_cleanup_active_def only_owner_eq_Inr res_elims Let_def
      dest!: use_waiting_money) (simp_all add: money_only_def)

lemma unbond_money:
  assumes "unbond_user env c = Inr (x, c', effs)"
  shows "money_only c c' \<and> us_user_id (c_users c) (caller env) \<noteq> 0 \<and>
    effs = (if 0 < x then [DirectEgld (caller env) x] else [])"
  using assms by (auto simp: unbond_user_def res_elims Let_def money_only_def)

lemma claim_money:
  assumes "claim_rewards env c = Inr (c', effs)"
  shows "money_only c c' \<and> us_user_id (c_users c) (caller env) \<noteq> 0 \<and>
    (\<forall>e\<in>set effs. \<exists>x. e = Event (ClaimRewardsEvent (caller env) x) \<or> e = DirectEgld (caller env) x)"
  using assms
  by (auto simp: claim_rewards_def res_elims Let_def send_rewards_def money_only_def split: if_splits)

section \<open>Users\<close>

lemma get_or_create_user_typed:
  assumes "typed_users us" and "is_address a"
  shows "typed_users (snd (get_or_create_user a us))"
  using assms
  by (auto simp: typed_users_def get_or_create_user_def new_user_def Let_def usize_add_bound)

lemma update_user_address_typed:
  assumes "typed_users us" and "\<forall>a\<in>set addresses. is_address a"
  shows "typed_users (snd (update_user_address_loop addresses counts us))"
  using assms
proof (induction addresses counts us rule: update_user_address_loop.induct)
  case (2 a addresses n m k us)
  have "typed_users (set_user_address u a us)" for u
    using "2.prems" by (auto simp: typed_users_def)
  then show ?case
    using 2 by (auto simp: Let_def)
qed simp

section \<open>Nodes\<close>

text \<open>All operations but two change states only.\<close>

definition states_only :: "node_storage \<Rightarrow> node_storage \<Rightarrow> bool" where
  "states_only ns ns' \<longleftrightarrow> (\<exists>f. ns' = ns\<lparr>ns_state := f\<rparr>)"

lemma states_only_refl [simp]: "states_only ns ns"
  unfolding states_only_def by (rule exI [of _ "ns_state ns"]) simp

lemma states_only_trans: "states_only ns ns1 \<Longrightarrow> states_only ns1 ns2 \<Longrightarrow> states_only ns ns2"
  by (auto simp: states_only_def)

lemma states_only_set [simp]: "states_only ns (set_node_state i st ns)"
  by (auto simp: states_only_def set_node_state_def)

lemma states_only_typed: "states_only ns ns' \<Longrightarrow> typed_nodes ns' = typed_nodes ns"
  by (auto simp: states_only_def typed_nodes_def)

lemma states_only_reads:
  "states_only ns ns' \<Longrightarrow> ns_bls_to_id ns' = ns_bls_to_id ns"
  "states_only ns ns' \<Longrightarrow> get_node_id_to_bls missing ns' = get_node_id_to_bls missing ns"
  "states_only ns ns' \<Longrightarrow> get_node_signature missing' ns' = get_node_signature missing' ns"
  by (auto simp: states_only_def get_node_id_to_bls_def get_node_signature_def fun_eq_iff)

lemma set_node_states_only [simp]: "states_only ns (set_node_states ids st ns)"
  unfolding set_node_states_def by (induction ids arbitrary: ns) (auto intro: states_only_trans [OF states_only_set])

lemma set_node_signature_typed: "typed_nodes ns \<Longrightarrow> is_bls_signature sig \<Longrightarrow> typed_nodes (set_node_signature i sig ns)"
  by (simp add: typed_nodes_def set_node_signature_def)

lemma new_node_typed:
  "typed_nodes ns \<Longrightarrow> is_bls_key k \<Longrightarrow> typed_nodes (ns
     \<lparr>ns_bls_to_id := (ns_bls_to_id ns)(k := i), ns_id_to_bls := (ns_id_to_bls ns)(i := Some k)\<rparr>)"
  by (simp add: typed_nodes_def)

lemma add_nodes_loop_typed:
  assumes "add_nodes_loop keys n ns = Inr (n', ns')" and "typed_nodes ns"
    and "\<forall>(k, sig)\<in>set keys. is_bls_key k \<and> is_bls_signature sig" and "n < usize_max"
  shows "typed_nodes ns' \<and> n' < usize_max"
  using assms
proof (induction keys n ns rule: add_nodes_loop.induct)
  case (2 k sig rest n ns)
  let ?i = "ns_bls_to_id ns k" and ?n = "usize_add n 1"
  have k: "is_bls_key k" "is_bls_signature sig" and rest: "\<forall>(k, sig)\<in>set rest. is_bls_key k \<and> is_bls_signature sig"
    using "2.prems"(3) by auto
  consider "?i = 0" | "?i \<noteq> 0" "get_node_state ns ?i = Removed"
    using "2.prems"(1) by (fastforce simp: Let_def)
  then show ?case
  proof cases
    case 1
    let ?ns = "set_node_signature ?n sig (set_node_state ?n Inactive
      (ns\<lparr>ns_bls_to_id := (ns_bls_to_id ns)(k := ?n), ns_id_to_bls := (ns_id_to_bls ns)(?n := Some k)\<rparr>))"
    have run: "add_nodes_loop rest ?n ?ns = Inr (n', ns')"
      using "2.prems"(1) 1 by (simp add: Let_def)
    have "typed_nodes ?ns"
      using new_node_typed [OF "2.prems"(2) k(1)] states_only_typed [OF states_only_set] k(2)
      by (intro set_node_signature_typed) blast+
    then show ?thesis
      using "2.IH"(1) [OF refl 1 refl refl refl refl refl] run rest usize_add_bound by simp
  next
    case 2
    let ?ns = "set_node_signature ?i sig (set_node_state ?i Inactive ns)"
    have run: "add_nodes_loop rest n ?ns = Inr (n', ns')"
      using "2.prems"(1) 2 by (simp add: Let_def)
    have "typed_nodes ?ns"
      using "2.prems"(2) states_only_typed [OF states_only_set] k(2) by (intro set_node_signature_typed) blast+
    then show ?thesis
      using "2.IH"(2) [OF refl 2] run rest "2.prems"(4) by simp
  qed
qed simp

lemma add_nodes_typed:
  assumes "add_nodes keys ns = Inr ns'" and "typed_nodes ns"
    and "\<forall>(k, sig)\<in>set keys. is_bls_key k \<and> is_bls_signature sig"
  shows "typed_nodes ns'"
proof -
  obtain n ns1 where r: "add_nodes_loop keys (ns_num_nodes ns) ns = Inr (n, ns1)" "ns' = ns1\<lparr>ns_num_nodes := n\<rparr>"
    using assms(1) by (auto simp: add_nodes_def bind_res_eq_Inr)
  then show ?thesis
    using add_nodes_loop_typed [OF r(1) assms(2,3)] assms(2) by (simp add: typed_nodes_def)
qed

lemma remove_nodes_states: "remove_nodes keys ns = Inr ns' \<Longrightarrow> states_only ns ns'"
  by (induction keys arbitrary: ns) (auto simp: Let_def require_eq_Inr intro: states_only_trans [OF states_only_set])

lemma pending_deactivation_states: "pending_deactivation_loop ids ns = Inr ns' \<Longrightarrow> states_only ns ns'"
  by (induction ids arbitrary: ns) (auto simp: require_eq_Inr intro: states_only_trans [OF states_only_set])

lemma force_unbond_states: "force_node_unbond_period_loop keys ns = Inr ns' \<Longrightarrow> states_only ns ns'"
  by (induction keys arbitrary: ns) (auto simp: Let_def require_eq_Inr intro: states_only_trans [OF states_only_set])

lemma revert_states: "revert_to_unbond_period ids ns = Inr ns' \<Longrightarrow> states_only ns ns'"
  by (induction ids arbitrary: ns)
    (auto split: node_state.splits intro: states_only_trans [OF states_only_set])

lemma prepare_states: "states_only ns (snd (prepare_node_for_unbond_if_possible i ns))"
  by (simp add: prepare_node_for_unbond_if_possible_def split: node_state.splits)

text \<open>The loops that collect keys collect known ones, hence keys.\<close>

lemma stake_nodes_loop_typed:
  assumes "stake_nodes_loop missing keys ids ks ns = Inr (ids', ks', ns')" and "typed_nodes ns"
    and "\<forall>(k, sig)\<in>set ks. is_bls_key k \<and> is_bls_signature sig" and "\<forall>sig. missing = Inr sig \<longrightarrow> is_bls_signature sig"
  shows "states_only ns ns' \<and> (\<forall>(k, sig)\<in>set ks'. is_bls_key k \<and> is_bls_signature sig)"
  using assms
proof (induction keys arbitrary: ids ks ns)
  case (Cons k keys)
  let ?ns = "set_node_state (ns_bls_to_id ns k) PendingActivation ns"
  obtain ids1 sig where s: "ns_bls_to_id ns k \<noteq> 0" "get_node_signature missing ns (ns_bls_to_id ns k) = Inr sig"
    "stake_nodes_loop missing keys ids1 (ks @ [(k, sig)]) ?ns = Inr (ids', ks', ns')"
    using Cons.prems(1) by (auto simp: Let_def res_elims)
  have "is_bls_key k" "is_bls_signature sig"
    using s(1,2) Cons.prems(2,4) by (auto simp: typed_nodes_def get_node_signature_def split: option.splits)
  then have "states_only ?ns ns' \<and> (\<forall>(k, sig)\<in>set ks'. is_bls_key k \<and> is_bls_signature sig)"
    using Cons.prems(2-4) states_only_typed [OF states_only_set] by (intro Cons.IH [OF s(3)]) auto
  then show ?case
    using states_only_trans [OF states_only_set] by blast
qed auto

lemma typed_node_key: "typed_nodes ns \<Longrightarrow> ns_bls_to_id ns k \<noteq> 0 \<Longrightarrow> is_bls_key k"
  by (simp add: typed_nodes_def)

lemma unstake_nodes_loop_typed:
  assumes "unstake_nodes_loop ns keys ids = Inr ids'" and "typed_nodes ns"
  shows "\<forall>k\<in>set keys. is_bls_key k"
  using assms(1) by (induction keys arbitrary: ids) (auto simp: Let_def res_elims intro: typed_node_key [OF assms(2)])

lemma unjail_typed:
  assumes "unjail_validation ns keys = Inr ()" and "typed_nodes ns"
  shows "\<forall>k\<in>set keys. is_bls_key k"
  using assms(1) by (induction keys) (auto simp: Let_def require_eq_Inr intro: typed_node_key [OF assms(2)])

lemma unbond_specific_typed:
  assumes "unbond_specific_nodes_loop keys ids ns = Inr (ids', ns')" and "typed_nodes ns"
  shows "states_only ns ns' \<and> (\<forall>k\<in>set keys. is_bls_key k)"
  using assms
proof (induction keys arbitrary: ids ns)
  case (Cons k keys)
  let ?p = "prepare_node_for_unbond_if_possible (ns_bls_to_id ns k) ns"
  obtain ids1 where s: "ns_bls_to_id ns k \<noteq> 0" "unbond_specific_nodes_loop keys ids1 (snd ?p) = Inr (ids', ns')"
    using Cons.prems(1) by (auto simp: Let_def res_elims split: prod.splits)
  have "states_only (snd ?p) ns' \<and> (\<forall>k\<in>set keys. is_bls_key k)"
    using Cons.IH [OF s(2)] Cons.prems(2) states_only_typed [OF prepare_states] by blast
  then show ?case
    using states_only_trans [OF prepare_states] s(1) Cons.prems(2) by (auto simp: typed_nodes_def)
qed simp

lemma unbond_all_typed:
  assumes "unbond_all_loop missing j ids ks ns = Inr (ids', ks', ns')" and "typed_nodes ns"
    and "\<forall>k\<in>set ks. is_bls_key k" and "\<forall>k. missing = Inr k \<longrightarrow> is_bls_key k"
  shows "states_only ns ns' \<and> (\<forall>k\<in>set ks'. is_bls_key k)"
  using assms
proof (induction j arbitrary: ids ks ns)
  case (Suc j)
  let ?p = "prepare_node_for_unbond_if_possible (Suc j) ns"
  have typed: "typed_nodes (snd ?p)"
    using Suc.prems(2) states_only_typed [OF prepare_states] by blast
  have key: "is_bls_key k" if "get_node_id_to_bls missing (snd ?p) (Suc j) = Inr k" for k
    using that typed Suc.prems(4) by (auto simp: typed_nodes_def get_node_id_to_bls_def split: option.splits)
  have "\<exists>ids1 ks1. unbond_all_loop missing j ids1 ks1 (snd ?p) = Inr (ids', ks', ns') \<and> (\<forall>k\<in>set ks1. is_bls_key k)"
    using Suc.prems(1,3) key by (fastforce simp: Let_def res_elims split: prod.splits if_splits)
  then have "states_only (snd ?p) ns' \<and> (\<forall>k\<in>set ks'. is_bls_key k)"
    using Suc.IH typed Suc.prems(4) by blast
  then show ?case
    using states_only_trans [OF prepare_states] by blast
qed simp

section \<open>Operations\<close>

lemma compute_all_rewards_loop_money:
  "compute_all_rewards_loop env n k data c = Inr (b, data', c') \<Longrightarrow> money_only c c'"
proof (induction env n k data c rule: compute_all_rewards_loop.induct)
  case (1 env n k data c)
  show ?case
  proof (cases "last_id data < n \<and> \<not> stop_at_gaslimit env 0 k")
    case True
    then obtain ud where ud: "load_updated_user_rewards (cumulated_rewards env) (c_settings c) (c_funds c) (c_rewards c)
        (last_id data + 1) = Inr ud"
      using "1.prems" by (auto simp: compute_all_rewards_loop.simps [of env n k data c] Let_def bind_res_eq_Inr)
    let ?c = "c\<lparr>c_rewards := store_user_reward_data (last_id data + 1) ud (c_rewards c)\<rparr>"
    have "money_only ?c c'"
      using "1.IH" [OF _ _ refl ud] "1.prems" True ud
      by (simp add: compute_all_rewards_loop.simps [of env n k data c] Let_def)
    then show ?thesis
      by (simp add: money_only_def)
  next
    case False
    then have "c' = c"
      using "1.prems" by (auto simp: compute_all_rewards_loop.simps [of env n k data c] split: if_splits)
    then show ?thesis
      by simp
  qed
qed

lemma compute_all_rewards_money:
  assumes "compute_all_rewards env data c = Inr (rest, c')"
  shows "money_only c c'"
  using assms
  by (auto simp: compute_all_rewards_def Let_def res_elims dest!: compute_all_rewards_loop_money split: if_splits)
    (simp_all add: money_only_def)

lemma step_typed:
  assumes run: "continue_global_operation_step env orc c = Inr (s, orc', c')" and "typed_op orc"
    and "typed_contract (c\<lparr>c_global_op := GlobalOpNone\<rparr>)"
  shows "typed_op orc' \<and> typed_contract (c'\<lparr>c_global_op := GlobalOpNone\<rparr>)"
proof -
  have typed: "typed_contract (c1\<lparr>c_global_op := GlobalOpNone\<rparr>)" if "money_only c c1" for c1
    using assms(3) that by (simp add: money_only_def typed_contract_def typed_settings_def)
  show ?thesis
  proof (cases orc)
    case (ModifyTotalDelegationCap d)
    then show ?thesis
      using run typed assms(3)
      by (cases "cap_step d")
        (auto simp: continue_global_operation_step_def continue_modify_total_delegation_cap_step_def res_elims Let_def
          typed_contract_def typed_settings_def dest!: compute_all_rewards_money split: if_splits option.splits)
  next
    case (ChangeServiceFee f data)
    then show ?thesis
      using run typed assms(2)
      by (auto simp: continue_global_operation_step_def res_elims typed_contract_def typed_settings_def
          dest!: compute_all_rewards_money split: option.splits)
  qed (use assms in \<open>auto simp: continue_global_operation_step_def\<close>)
qed

lemma loop_typed:
  assumes "continue_global_operation_loop env orc c = Inr (s, orc', c')" and "typed_op orc"
    and "typed_contract (c\<lparr>c_global_op := GlobalOpNone\<rparr>)"
  shows "typed_op orc' \<and> typed_contract (c'\<lparr>c_global_op := GlobalOpNone\<rparr>)"
  using assms
proof (induction env orc c rule: continue_global_operation_loop.induct)
  case (1 env orc c)
  note run = "1.prems"(1) [unfolded continue_global_operation_loop.simps [of env orc c]]
  show ?case
  proof (cases "global_op_is_none orc")
    case False
    then obtain s1 orc1 c1 where st: "continue_global_operation_step env orc c = Inr (s1, orc1, c1)"
      "(case s1 of Completed \<Rightarrow> continue_global_operation_loop env orc1 c1
        | InterruptedBeforeOutOfGas \<Rightarrow> Inr (s1, orc1, c1)) = Inr (s, orc', c')"
      using run by (auto simp: bind_res_eq_Inr)
    note typed = step_typed [OF st(1) "1.prems"(2,3)]
    show ?thesis
      using "1.IH" [OF False st(1) refl refl] st(2) typed by (cases s1) auto
  qed (use run "1.prems" in simp)
qed

lemma continue_typed:
  assumes "continue_global_operation env orc c = Inr (s, c')" and "typed_op orc" and "typed_contract c"
  shows "typed_contract c'"
  using assms loop_typed
  by (fastforce simp: continue_global_operation_def bind_res_eq_Inr typed_contract_def)

lemma modify_cap_typed:
  assumes "modify_total_delegation_cap env cap c = Inr (s, c')" and "typed_contract c"
  shows "typed_contract c'"
proof -
  let ?c0 = "c\<lparr>c_settings := (c_settings c)\<lparr>bootstrap_mode := False\<rparr>\<rparr>"
  let ?cap = "c\<lparr>c_settings := (c_settings c)\<lparr>total_delegation_cap := cap\<rparr>\<rparr>"
  have typed: "typed_contract ?c0" "typed_contract ?cap"
    using assms(2) by (simp_all add: typed_contract_def typed_settings_def)
  have go: "typed_contract c'" if "continue_global_operation env (ModifyTotalDelegationCap d) c = Inr (s, c')" for d
    using continue_typed [OF that _ assms(2)] by simp
  have go0: "typed_contract c'" if "continue_global_operation env (ModifyTotalDelegationCap d) ?c0 = Inr (s, c')" for d
    using continue_typed [OF that _ typed(1)] by simp
  show ?thesis
    using assms typed
    by (simp add: modify_total_delegation_cap_def only_owner_eq_Inr require_eq_Inr Let_def split: if_splits)
      (elim conjE go go0 | clarsimp simp: res_elims; elim go go0)+
qed

lemma set_fee_typed:
  assumes "set_service_fee_endpoint env f c = Inr (s, c')" and "typed_contract c"
  shows "typed_contract c'"
  using assms continue_typed [of env "ChangeServiceFee f (compute_all_rewards_data_new (cumulated_rewards env))" c s c']
  by (auto simp: set_service_fee_endpoint_def require_eq_Inr Let_def typed_contract_def typed_settings_def split: if_splits)

section \<open>Calls\<close>

lemma typed_contractD:
  assumes "typed_contract c"
  shows "is_address (auction_addr (c_settings c))" "typed_nodes (c_nodes c)" "typed_users (c_users c)"
    "us_user_id (c_users c) a \<noteq> 0 \<Longrightarrow> is_address a"
  using assms by (auto simp: typed_contract_def typed_settings_def typed_users_def)

lemma typed_contract_nodes: "typed_contract c \<Longrightarrow> typed_nodes ns \<Longrightarrow> typed_contract (c\<lparr>c_nodes := ns\<rparr>)"
  by (simp add: typed_contract_def)

lemma typed_contract_states: "typed_contract c \<Longrightarrow> states_only (c_nodes c) ns \<Longrightarrow> typed_contract (c\<lparr>c_nodes := ns\<rparr>)"
  using states_only_typed [of "c_nodes c" ns] by (simp add: typed_contract_def)

lemma callback_parts_typed:
  assumes "typed_contract c"
  shows "auction_stake_callback_ok ids c = (c', effs) \<Longrightarrow> typed_contract c' \<and> typed_effects effs"
    "auction_stake_callback_fail ids msg c = (c', effs) \<Longrightarrow> typed_contract c' \<and> typed_effects effs"
    "auction_unstake_callback_ok env ids c = (c', effs) \<Longrightarrow> typed_contract c' \<and> typed_effects effs"
    "auction_unstake_callback_fail ids msg c = (c', effs) \<Longrightarrow> typed_contract c' \<and> typed_effects effs"
    "auction_unbond_callback_ok ids c = (c', effs) \<Longrightarrow> typed_contract c' \<and> typed_effects effs"
    "auction_unbond_callback_fail ids msg c = Inr (c', effs) \<Longrightarrow> typed_contract c' \<and> typed_effects effs"
  using assms typed_contract_states [OF assms set_node_states_only] typed_contract_states [OF assms revert_states]
  by (auto simp: auction_stake_callback_ok_def auction_stake_callback_fail_def auction_unstake_callback_ok_def
      auction_unstake_callback_fail_def auction_unbond_callback_ok_def auction_unbond_callback_fail_def
      bind_res_eq_Inr split: if_splits)

lemma callback_typed:
  assumes run: "auction_callback_run env cb result c = Inr (c', effs)" and c: "typed_contract c"
  shows "typed_contract c' \<and> typed_effects effs"
proof (cases cb)
  case (AuctionStakeCallback ids)
  then show ?thesis
  proof (cases result)
    case (AsyncOk answer)
    then obtain okay failed msg where r: "c' = fst (auction_stake_callback_fail failed msg (fst (auction_stake_callback_ok okay c)))"
      "effs = snd (auction_stake_callback_ok okay c) @ snd (auction_stake_callback_fail failed msg (fst (auction_stake_callback_ok okay c)))"
      using run AuctionStakeCallback by (auto simp: auction_stake_callback_def bind_res_eq_Inr Let_def case_prod_unfold)
    note okay = callback_parts_typed(1) [OF c surjective_pairing, of okay]
    show ?thesis
      using okay callback_parts_typed(2) [OF _ surjective_pairing] r by simp
  next
    case (AsyncErr msg)
    then show ?thesis
      using run AuctionStakeCallback callback_parts_typed(2) [OF c] by (simp add: auction_stake_callback_def)
  qed
next
  case (AuctionUnstakeCallback ids)
  then show ?thesis
  proof (cases result)
    case (AsyncOk answer)
    then obtain okay failed msg where r: "c' = fst (auction_unstake_callback_fail failed msg (fst (auction_unstake_callback_ok env okay c)))"
      "effs = snd (auction_unstake_callback_ok env okay c) @ snd (auction_unstake_callback_fail failed msg (fst (auction_unstake_callback_ok env okay c)))"
      using run AuctionUnstakeCallback by (auto simp: auction_unstake_callback_def bind_res_eq_Inr Let_def case_prod_unfold)
    note okay = callback_parts_typed(3) [OF c surjective_pairing, of env okay]
    show ?thesis
      using okay callback_parts_typed(4) [OF _ surjective_pairing] r by simp
  next
    case (AsyncErr msg)
    then show ?thesis
      using run AuctionUnstakeCallback callback_parts_typed(4) [OF c] by (simp add: auction_unstake_callback_def)
  qed
next
  case (AuctionUnbondCallback ids)
  then show ?thesis
  proof (cases result)
    case (AsyncOk answer)
    then obtain okay failed msg e2 where
      r: "auction_unbond_callback_fail failed msg (fst (auction_unbond_callback_ok okay c)) = Inr (c', e2)"
      "effs = snd (auction_unbond_callback_ok okay c) @ e2"
      using run AuctionUnbondCallback by (auto simp: auction_unbond_callback_def bind_res_eq_Inr Let_def case_prod_unfold)
    note okay = callback_parts_typed(5) [OF c surjective_pairing, of okay]
    show ?thesis
      using okay callback_parts_typed(6) [OF _ r(1)] r(2) by simp
  next
    case (AsyncErr msg)
    then show ?thesis
      using run AuctionUnbondCallback callback_parts_typed(6) [OF c] by (simp add: auction_unbond_callback_def)
  qed
qed

lemma stake_nodes_typed:
  assumes "stake_nodes env missing amount keys c = Inr (c', effs)" and c: "typed_contract c"
    and "\<forall>sig. missing = Inr sig \<longrightarrow> is_bls_signature sig"
  shows "typed_contract c' \<and> typed_effects effs"
proof -
  obtain ids ks ns where r: "stake_nodes_loop missing keys [] [] (c_nodes c) = Inr (ids, ks, ns)"
    "c' = c\<lparr>c_nodes := ns\<rparr>" "effs = perform_stake_nodes (c\<lparr>c_nodes := ns\<rparr>) ids ks amount"
    using assms(1) by (auto simp: only_owner_eq_Inr res_elims Let_def stake_nodes_def)
  then show ?thesis
    using stake_nodes_loop_typed [OF r(1) typed_contractD(2) [OF c]] assms(3) typed_contract_states [OF c]
      typed_contractD(1) [OF c] by (simp add: perform_stake_nodes_def)
qed

lemma unstake_nodes_typed:
  assumes "unstake_nodes tokens keys c = Inr (c', effs)" and c: "typed_contract c"
  shows "typed_contract c' \<and> typed_effects effs"
  using assms(1) unstake_nodes_loop_typed [OF _ typed_contractD(2) [OF c]] pending_deactivation_states
    typed_contract_states [OF c] typed_contractD(1) [OF c]
  by (fastforce simp: res_elims unstake_nodes_def perform_unstake_nodes_def)

lemma unbond_specific_nodes_typed:
  assumes "unbond_specific_nodes_endpoint env keys c = Inr (c', effs)" and c: "typed_contract c"
  shows "typed_contract c' \<and> typed_effects effs"
proof -
  obtain ids ns where r: "unbond_specific_nodes_loop keys [] (c_nodes c) = Inr (ids, ns)"
    "c' = c\<lparr>c_nodes := ns\<rparr>" "effs = perform_unbond ids keys c'"
    using assms(1) by (auto simp: only_owner_eq_Inr res_elims Let_def unbond_specific_nodes_endpoint_def)
  then show ?thesis
    using unbond_specific_typed [OF r(1) typed_contractD(2) [OF c]] typed_contract_states [OF c] typed_contractD(1) [OF c]
    by (simp add: perform_unbond_def)
qed

lemma unbond_all_nodes_typed:
  assumes "unbond_all_possible_nodes env missing c = Inr (c', effs)" and c: "typed_contract c"
    and "\<forall>k. missing = Inr k \<longrightarrow> is_bls_key k"
  shows "typed_contract c' \<and> typed_effects effs"
proof -
  obtain ids ks ns where r: "unbond_all_loop missing (ns_num_nodes (c_nodes c)) [] [] (c_nodes c) = Inr (ids, ks, ns)"
    "c' = c\<lparr>c_nodes := ns\<rparr>" "effs = (if ids \<noteq> [] then perform_unbond ids ks c' else [])"
    using assms(1) by (auto simp: only_owner_eq_Inr res_elims Let_def unbond_all_possible_nodes_def)
  have "states_only (c_nodes c) ns \<and> (\<forall>k\<in>set ks. is_bls_key k)"
    by (rule unbond_all_typed [OF r(1) typed_contractD(2) [OF c]]) (use assms(3) in simp_all)
  then show ?thesis
    using typed_contract_states [OF c] typed_contractD(1) [OF c] r(2,3) by (simp add: perform_unbond_def)
qed

lemma unjail_nodes_typed:
  assumes "unjail_nodes env keys payment c = Inr effs" and c: "typed_contract c"
  shows "typed_effects effs"
proof -
  have r: "unjail_validation (c_nodes c) keys = Inr ()"
    "effs = [AsyncCall (auction_addr (c_settings c)) payment (AuctionUnJail keys) None]"
    using assms(1) by (auto simp: only_owner_eq_Inr res_elims unjail_nodes_def)
  then show ?thesis
    using unjail_typed [OF r(1) typed_contractD(2) [OF c]] typed_contractD(1) [OF c] by simp
qed

lemma node_changes_typed:
  assumes c: "typed_contract c"
  shows "add_nodes_endpoint env kss c = Inr c' \<Longrightarrow> \<forall>(k, sig)\<in>set kss. is_bls_key k \<and> is_bls_signature sig \<Longrightarrow> typed_contract c'"
    and "remove_nodes_endpoint env keys c = Inr c' \<Longrightarrow> typed_contract c'"
    and "force_node_unbond_period env keys c = Inr c' \<Longrightarrow> typed_contract c'"
  using add_nodes_typed [OF _ typed_contractD(2) [OF c]] typed_contract_nodes [OF c] remove_nodes_states
    force_unbond_states typed_contract_states [OF c]
  by (auto simp: add_nodes_endpoint_def remove_nodes_endpoint_def force_node_unbond_period_def only_owner_eq_Inr res_elims)

lemmas node_calls_typed = stake_nodes_typed unstake_nodes_typed unbond_specific_nodes_typed unbond_all_nodes_typed
  unjail_nodes_typed node_changes_typed callback_typed

lemma node_call_typed:
  assumes run: "run_endpoint env payment call c = Inr (c', effs)" and "node_call call"
    and c: "typed_contract c" and args: "typed_call call"
  shows "typed_contract c' \<and> typed_effects effs"
proof -
  have "typed_effects effs" if "call = CallClaimUnusedFunds"
    using run that typed_contractD(1) [OF c] by (auto simp: without_eq_Inr claim_unused_funds_def only_owner_eq_Inr require_eq_Inr)
  then show ?thesis
    using assms typed_contractD(1) [OF c]
    by (cases call)
      (auto simp: without_eq_Inr unstake_nodes_endpoint_def unstake_nodes_and_tokens_endpoint_def only_owner_eq_Inr
        unstake_tokens_def unbond_tokens_def dest: node_calls_typed)
qed

lemma operation_calls_typed:
  assumes "typed_contract c"
  shows "modify_total_delegation_cap env cap c = Inr (s, c') \<Longrightarrow> typed_contract c'"
    and "set_service_fee_endpoint env f c = Inr (s, c') \<Longrightarrow> typed_contract c'"
    and "continue_global_operation_endpoint env c = Inr (s, c') \<Longrightarrow> typed_contract c'"
proof -
  have "typed_op (c_global_op c)"
    using assms by (simp add: typed_contract_def)
  then show "continue_global_operation_endpoint env c = Inr (s, c') \<Longrightarrow> typed_contract c'"
    using continue_typed [OF _ _ assms] by (auto simp: continue_global_operation_endpoint_def bind_res_eq_Inr)
qed (use assms modify_cap_typed set_fee_typed in blast)+

lemma stake_typed:
  assumes "stake_endpoint env payment c = Inr (c', effs)" and c: "typed_contract c" and "is_address (caller env)"
  shows "typed_contract c' \<and> typed_effects effs"
proof -
  let ?us = "snd (get_or_create_user (caller env) (c_users c))"
  have "process_stake env payment c = Inr (c', effs)"
    using assms(1) by (simp add: stake_endpoint_def require_eq_Inr)
  moreover have "typed_contract (c\<lparr>c_users := ?us\<rparr>)"
    using c get_or_create_user_typed [OF typed_contractD(3) [OF c] assms(3)] by (simp add: typed_contract_def)
  ultimately show ?thesis
    using process_stake_money [of env payment c c' effs] money_only_typed by auto
qed

lemma update_addresses_typed:
  assumes "update_user_address_endpoint addresses c = (counts, c')" and c: "typed_contract c"
    and "\<forall>a\<in>set addresses. is_address a"
  shows "typed_contract c'"
proof -
  have "c' = c\<lparr>c_users := snd (update_user_address_loop addresses (0, 0, 0) (c_users c))\<rparr>"
    using assms(1) by (simp add: update_user_address_endpoint_def update_user_address_def case_prod_unfold Let_def)
  then show ?thesis
    using c update_user_address_typed [OF typed_contractD(3) [OF c] assms(3)] by (simp add: typed_contract_def)
qed

lemma delegator_call_typed:
  assumes c: "typed_contract c" and caller: "is_address (caller env)"
  shows "claim_rewards env c = Inr (c', effs) \<Longrightarrow> typed_contract c' \<and> typed_effects effs"
    and "unbond_user env c = Inr (x, c', effs) \<Longrightarrow> typed_contract c' \<and> typed_effects effs"
  using claim_money [of env c c' effs] unbond_money [of env c x c' effs] money_only_typed [of c c'] c caller
  by (auto simp: typed_effects_def)

lemma call_typed:
  assumes call: "call_contract exports env payment call c = Inr (c', effs)" and c: "typed_contract c"
    and caller: "is_address (caller env)" and args: "typed_call call"
  shows "typed_contract c' \<and> typed_effects effs"
proof (cases "node_call call")
  case True
  then show ?thesis
    using node_call_typed call_contractD(1) [OF call] assms by blast
next
  case False
  have typed: "money_only c c1 \<Longrightarrow> typed_contract c1" for c1
    using c money_only_typed by blast
  note run = call_contractD(1) [OF call]
  show ?thesis
  proof (cases call)
    case (CallUpdateUserAddress addresses)
    then show ?thesis
      using run args update_addresses_typed [OF _ c] by (auto split: prod.splits)
  next
    case CallUnBond
    then show ?thesis
      using run delegator_call_typed(2) [OF c caller] by (auto simp: bind_res_eq_Inr)
  qed (use False run stake_typed [OF _ c caller] delegator_call_typed(1) [OF c caller] operation_calls_typed [OF c]
      typed unstake_money dust_money c in
    \<open>auto simp: without_eq_Inr only_owner_eq_Inr set_n_blocks_before_unbond_endpoint_def
      set_minimum_stake_endpoint_def typed_contract_def typed_settings_def\<close>)
qed

section \<open>Histories\<close>

text \<open>Any calls one after the other; a call that fails is reverted, and its effects are none.\<close>

fun run_calls ::
  "string list \<Rightarrow> (sc_env \<times> nat \<times> endpoint_call) list \<Rightarrow> contract \<Rightarrow> contract \<times> sc_effect list"
where
  "run_calls exports [] c = (c, [])"
| "run_calls exports ((env, payment, call) # calls) c =
     (case call_contract exports env payment call c of
        Inl e \<Rightarrow> run_calls exports calls c
      | Inr (c1, effs) \<Rightarrow> (let (c2, effs2) = run_calls exports calls c1 in (c2, effs @ effs2)))"

lemma run_calls_typed:
  assumes "typed_contract c" and "\<forall>(env, payment, call)\<in>set calls. is_address (caller env) \<and> typed_call call"
  shows "typed_contract (fst (run_calls exports calls c)) \<and> typed_effects (snd (run_calls exports calls c))"
  using assms
proof (induction exports calls c rule: run_calls.induct)
  case (2 exports env payment call calls c)
  show ?case
  proof (cases "call_contract exports env payment call c")
    case (Inl e)
    then show ?thesis
      using "2.IH"(1) "2.prems" by simp
  next
    case (Inr r)
    obtain c1 effs where r: "r = (c1, effs)"
      by (cases r)
    have "typed_contract c1 \<and> typed_effects effs"
      using call_typed [OF Inr [unfolded r] "2.prems"(1)] "2.prems"(2) by simp
    then show ?thesis
      using "2.IH"(2) [OF Inr r [symmetric]] "2.prems"(2) Inr r by (simp add: Let_def case_prod_unfold)
  qed
qed simp

lemma init_full_typed:
  assumes "init_full env auction fee share n_blocks minimum cap contract_empty = Inr c"
    and "is_address (caller env)" and "is_address auction"
  shows "typed_contract c"
proof -
  have "c_nodes c = node_storage_empty" "c_global_op c = GlobalOpNone" "auction_addr (c_settings c) = auction"
    "service_fee (c_settings c) = fee" "owner_min_stake_share (c_settings c) = share"
    "fee \<le> PERCENTAGE_DENOMINATOR" "share \<le> PERCENTAGE_DENOMINATOR"
    "c_users c = \<lparr>us_user_id = (\<lambda>_. 0)(caller env := 1), us_user_address = (\<lambda>_. None)(1 := Some (caller env)), us_num_users = 1\<rparr>"
    using assms(1)
    by (auto simp: init_full_def Let_def require_eq_Inr bind_res_eq_Inr set_owner_min_stake_share_validated_def
        contract_empty_def user_storage_empty_def set_user_address_def OWNER_USER_ID_def)
  then show ?thesis
    using assms(2,3)
    by (simp add: typed_contract_def typed_users_def typed_nodes_def typed_settings_def node_storage_empty_def usize_max_def)
qed

end
