(* ===== verification/Fund_Check.thy ===== *)
theory Fund_Check
  imports Fund_Contracts
begin

text \<open>
  The consistency check of the test suite (\<^verbatim>\<open>user-fund-storage/tests/fund_module_check.rs\<close>): it
  walks every list, compares the links with the walk and the total with the sum, and panics at
  the first difference. It accepts every storage that satisfies the invariant, and rejects the
  storage that a cleanup from a stale checkpoint leaves behind.
\<close>

section \<open>The check\<close>

text \<open>The loop over the list of a type, with the fuel of the other loops.\<close>

fun check_type_loop :: "nat \<Rightarrow> fund_storage \<Rightarrow> nat \<Rightarrow> nat \<Rightarrow> nat \<Rightarrow> nat \<Rightarrow> nat res" where
  "check_type_loop 0 s last_id i prev_id acc = (if i = 0 then Inr acc else Inl OutOfGas)"
| "check_type_loop (Suc n) s last_id i prev_id acc =
     (if i = 0 then Inr acc
      else
        let fund_item = fund_by_id s i in
        require (type_list_prev fund_item = prev_id) ''type list inconsistency: bad prev''
        (require (type_list_next fund_item = 0 \<longrightarrow> last_id = i) ''type list inconsistency: bad last''
           (check_type_loop n s last_id (type_list_next fund_item) i (acc + balance fund_item))))"

definition check_consistency_for_type :: "fund_storage \<Rightarrow> fund_type \<Rightarrow> unit res" where
  "check_consistency_for_type s t =
     (let type_list = fund_list_by_type s t in
      bind_res (check_type_loop (loop_fuel s) s (list_last type_list) (list_first type_list) 0 0) (\<lambda>sum.
      require (sum = total_balance type_list) ''type list inconsistency: bad sum'' (Inr ())))"

fun check_user_type_loop :: "nat \<Rightarrow> fund_storage \<Rightarrow> nat \<Rightarrow> nat \<Rightarrow> nat \<Rightarrow> nat \<Rightarrow> nat \<Rightarrow> nat res" where
  "check_user_type_loop 0 s u last_id i prev_id acc = (if i = 0 then Inr acc else Inl OutOfGas)"
| "check_user_type_loop (Suc n) s u last_id i prev_id acc =
     (if i = 0 then Inr acc
      else
        let fund_item = fund_by_id s i in
        require (user_id fund_item = u) ''user-type list inconsistency: bad user_id''
        (require (user_list_prev fund_item = prev_id) ''user-type list inconsistency: bad prev''
        (require (user_list_next fund_item = 0 \<longrightarrow> last_id = i) ''user-type list inconsistency: bad list last''
           (check_user_type_loop n s u last_id (user_list_next fund_item) i (acc + balance fund_item)))))"

definition check_consistency_for_user_type :: "fund_storage \<Rightarrow> nat \<Rightarrow> fund_type \<Rightarrow> unit res" where
  "check_consistency_for_user_type s u t =
     (let user_type_list = fund_list_by_user s u t in
      bind_res (check_user_type_loop (loop_fuel s) s u (list_last user_type_list) (list_first user_type_list) 0 0) (\<lambda>sum.
      require (sum = total_balance user_type_list) ''user-type list inconsistency: bad sum'' (Inr ())))"

fun check_users :: "fund_storage \<Rightarrow> fund_type \<Rightarrow> nat list \<Rightarrow> unit res" where
  "check_users s t [] = Inr ()"
| "check_users s t (u # us) = bind_res (check_consistency_for_user_type s u t) (\<lambda>_. check_users s t us)"

fun check_types :: "fund_storage \<Rightarrow> nat \<Rightarrow> fund_type list \<Rightarrow> unit res" where
  "check_types s num_users [] = Inr ()"
| "check_types s num_users (t # ts) =
     bind_res (check_consistency_for_type s t) (\<lambda>_.
     bind_res (check_users s t [1..<num_users + 1]) (\<lambda>_. check_types s num_users ts))"

definition check_consistency :: "fund_storage \<Rightarrow> nat \<Rightarrow> unit res" where
  "check_consistency s num_users = check_types s num_users ALL_TYPES"

section \<open>A consistent storage passes\<close>

lemma filter_split_links:
  assumes "wf_funds a" and "filter P (a_entries a) = pre @ e # rem"
  shows "next_of (ids_where P (a_entries a)) (eid e) = first_of (map eid rem)"
    and "prev_of (ids_where P (a_entries a)) (eid e) = last_of (map eid pre)"
    and "last_of (ids_where P (a_entries a)) = last_of (eid e # map eid rem)"
    and "fund_by_id (concrete a) (eid e) = conc_item (a_entries a) e" and "eid e \<noteq> 0" and "P e"
    and "rem \<noteq> [] \<Longrightarrow> first_of (map eid rem) \<noteq> 0"
proof -
  have ids: "ids_where P (a_entries a) = map eid pre @ eid e # map eid rem"
    by (simp add: ids_where_def assms(2))
  have d: "distinct (map eid pre @ eid e # map eid rem)"
    using ids_where_distinct [OF assms(1), of P] by (simp add: ids)
  show "next_of (ids_where P (a_entries a)) (eid e) = first_of (map eid rem)"
    "prev_of (ids_where P (a_entries a)) (eid e) = last_of (map eid pre)"
    using next_of_split [OF d] prev_of_split [OF d] by (simp_all add: ids)
  show "last_of (ids_where P (a_entries a)) = last_of (eid e # map eid rem)"
    by (simp add: ids last_of_append)
  have e: "e \<in> set (a_entries a) \<and> P e"
    using arg_cong [OF assms(2), of set] by auto
  then show "fund_by_id (concrete a) (eid e) = conc_item (a_entries a) e" "P e" "eid e \<noteq> 0"
    using fund_by_id_concrete [OF assms(1)] wf_pos [OF assms(1)] by auto
  have "0 \<notin> set (ids_where P (a_entries a))"
    by (rule ids_where_nz [OF assms(1)])
  then show "rem \<noteq> [] \<Longrightarrow> first_of (map eid rem) \<noteq> 0"
    using first_of_in [of "map eid rem"] by (auto simp: ids)
qed

lemma check_type_loop_concrete:
  assumes wf: "wf_funds a" and "filter (of_type t) (a_entries a) = pre @ rem" and "length rem \<le> n"
  shows "check_type_loop n (concrete a) (last_of (ids_where (of_type t) (a_entries a))) (first_of (map eid rem))
      (last_of (map eid pre)) acc = Inr (acc + sum_list (map ebal rem))"
  using assms(2,3)
proof (induction rem arbitrary: n pre acc)
  case Nil
  then show ?case
    by (cases n) simp_all
next
  case (Cons e rem)
  obtain n' where n: "n = Suc n'"
    using Cons.prems(2) by (cases n) auto
  note l = filter_split_links [OF wf Cons.prems(1)]
  have t: "etype e = t"
    using l(6) by (simp add: of_type_def)
  have "first_of (map eid rem) = 0 \<longrightarrow> last_of (eid e # map eid rem) = eid e"
    using l(7) by (cases rem) (auto simp: last_of_Cons)
  then show ?case
    using Cons.IH [of "pre @ [e]" n'] Cons.prems l(1-5)
    by (auto simp: n Let_def conc_item_def t require_def last_of_append last_of_simps(2) [of "[]", simplified])
qed

lemma check_user_type_loop_concrete:
  assumes wf: "wf_funds a" and "filter (of_user u t) (a_entries a) = pre @ rem" and "length rem \<le> n"
  shows "check_user_type_loop n (concrete a) u (last_of (ids_where (of_user u t) (a_entries a))) (first_of (map eid rem))
      (last_of (map eid pre)) acc = Inr (acc + sum_list (map ebal rem))"
  using assms(2,3)
proof (induction rem arbitrary: n pre acc)
  case Nil
  then show ?case
    by (cases n) simp_all
next
  case (Cons e rem)
  obtain n' where n: "n = Suc n'"
    using Cons.prems(2) by (cases n) auto
  note l = filter_split_links [OF wf Cons.prems(1)]
  have t: "etype e = t" "euser e = u"
    using l(6) by (simp_all add: of_user_def)
  have "first_of (map eid rem) = 0 \<longrightarrow> last_of (eid e # map eid rem) = eid e"
    using l(7) by (cases rem) (auto simp: last_of_Cons)
  then show ?case
    using Cons.IH [of "pre @ [e]" n'] Cons.prems l(1-5)
    by (auto simp: n Let_def conc_item_def t require_def last_of_append last_of_simps(2) [of "[]", simplified])
qed

lemma check_type_concrete:
  assumes "wf_funds a"
  shows "check_consistency_for_type (concrete a) t = Inr ()"
  using check_type_loop_concrete [OF assms append_Nil [symmetric], of t "Suc (a_max a)" 0] length_chain_of [OF assms, of Forwards "of_type t"]
  by (cases "filter (of_type t) (a_entries a)")
    (simp_all add: check_consistency_for_type_def Let_def loop_fuel_def chain_of_def sum_where_def ids_where_def require_def
      funds_list_default_def list_head_def fund_list_by_type_def del: check_type_loop.simps)

lemma check_user_type_concrete:
  assumes "wf_funds a"
  shows "check_consistency_for_user_type (concrete a) u t = Inr ()"
  using check_user_type_loop_concrete [OF assms append_Nil [symmetric], of u t "Suc (a_max a)" 0] length_chain_of [OF assms, of Forwards "of_user u t"]
  by (cases "filter (of_user u t) (a_entries a)")
    (simp_all add: check_consistency_for_user_type_def Let_def loop_fuel_def chain_of_def sum_where_def ids_where_def require_def
      funds_list_default_def list_head_def fund_list_by_user_def del: check_user_type_loop.simps)

lemma check_consistency_accepts:
  assumes "fund_inv s"
  shows "check_consistency s num_users = Inr ()"
proof -
  obtain a where wf: "wf_funds a" and s: "s = concrete a"
    using assms by (rule fund_invE)
  have users: "check_users s t us = Inr ()" for t us
    by (induction us) (simp_all add: s check_user_type_concrete [OF wf])
  have "check_types s num_users ts = Inr ()" for ts
    by (induction ts) (simp_all add: users s [symmetric] check_type_concrete [OF wf, folded s])
  then show ?thesis
    by (simp add: check_consistency_def)
qed

text \<open>What the check rejects: a list that has lost its head but kept its total.\<close>

lemma check_consistency_rejects:
  assumes "list_first (fund_list_by_type s WithdrawOnly) = 0" and "0 < type_total s WithdrawOnly"
  shows "check_consistency s num_users = Inl (ScPanic ''type list inconsistency: bad sum'')"
  using assms
  by (simp add: check_consistency_def ALL_TYPES_def check_consistency_for_type_def loop_fuel_def type_total_def
      require_def Let_def bind_res_def)

end
