(* ===== verification/Ledger_Properties.thy ===== *)
theory Ledger_Properties
  imports Ledger Contract_Types Fund_Check Fund_Properties Contract_Properties
begin

text \<open>
  Properties of the contract and its balance: the money of the delegators and of the users is
  there in every state that safe calls reach, every payment of a successful call can be made, and
  what a dust cleanup from a checkpoint in the wrong list does instead.
\<close>

section \<open>Reachable states\<close>

lemma ledger_start:
  assumes "init_full env auction fee share n_blocks minimum cap contract_empty = Inr c"
  shows "ledger_inv (0, b, c)"
proof -
  note init = init_full_inv [OF assms]
  have "get_total_stake fund_storage_empty = 0"
    by (simp add: total_stake_types payable_stake_def)
  then show ?thesis
    using init by (auto simp: ledger_inv_def covered_def global_inv_idle is_global_op_in_progress_iff)
qed

text \<open>
  (C1) The contract can always pay what it owes, as long as the calls are safe. Take any state reached from
  deployment by successful calls of exported functions by anybody, with rewards and other money
  arriving in between (rewards only after bootstrap mode) and long operations interrupted
  anywhere, where every call is a \<open>safe_call\<close>: no dust cleanup goes on from a checkpoint that is in
  another list or gone, no change of the cap ends bootstrap mode at exactly the active stake,
  and the storage is not close to the limits of the machine. Then the balance covers the stake
  that can be withdrawn, waits or is deferred, together with the rewards that arrived and were not
  yet sent; so \<^verbatim>\<open>getTotalUnProtected\<close> does not fail on an underflow, and when no operation is
  under way the balance covers this stake and everything \<^verbatim>\<open>getTotalUnclaimedRewards\<close> reports.
  That the restriction is needed is shown below: an interrupted cleanup of the Active list that is
  followed by one of the waiting list breaks the claim.
\<close>

theorem protected_funds_covered:
  assumes "init_full env0 auction fee share n_blocks minimum cap contract_empty = Inr c0"
    and "(ledger_step safe_call)\<^sup>*\<^sup>* (0, b0, c0) (tot, b, c)"
  shows "rs_sent (c_rewards c) \<le> tot \<and> payable_stake (c_funds c) + (tot - rs_sent (c_rewards c)) \<le> b \<and>
    total_unprotected b tot (c_funds c) (c_rewards c) =
      Inr (b - (payable_stake (c_funds c) + (tot - rs_sent (c_rewards c)))) \<and>
    (\<not> is_global_op_in_progress c \<longrightarrow>
      (\<exists>x. get_total_unclaimed_rewards tot (c_settings c) (c_users c) (c_funds c) (c_rewards c) = Inr x \<and>
         payable_stake (c_funds c) + x \<le> b))"
proof -
  have ledger: "ledger_inv (tot, b, c)"
    by (rule ledger_steps_keep [OF assms(2) ledger_start [OF assms(1)]])
  then obtain tot0 where inv: "global_inv tot0 c" "tot0 \<le> tot" and cov: "covered tot b c"
    and boot: "bootstrap_mode (c_settings c) \<longrightarrow> tot = 0"
    by (auto simp: ledger_inv_def)
  note sent = ledger_protected(1) [OF ledger] and le = ledger_protected(2) [OF ledger]
  have "\<exists>x. get_total_unclaimed_rewards tot (c_settings c) (c_users c) (c_funds c) (c_rewards c) = Inr x \<and>
      payable_stake (c_funds c) + x \<le> b"
    if "\<not> is_global_op_in_progress c"
  proof -
    have "env_ok tot0 (env0\<lparr>cumulated_rewards := tot\<rparr>) c"
      using boot inv(2) by (simp add: env_ok_def)
    from total_unclaimed_run [OF idle_inv(1) [OF inv(1) that] this] show ?thesis
      using le by auto
  qed
  then show ?thesis
    using le sent total_unprotected_covered [OF inv(1) cov] by simp
qed

text \<open>A deployment, and a first user who stakes 50.\<close>

lemma deployed_ledger:
  "\<exists>c. (ledger_step safe_call)\<^sup>*\<^sup>* (0, 4950, deployed) (0, 5000, c) \<and> get_total_stake (c_funds c) = 50"
proof -
  let ?env = "deploy_env\<lparr>caller := sample_user\<rparr>"
  obtain c where c: "stake_endpoint ?env 50 deployed = Inr (c, [Event (StakeEvent sample_user 50)])"
    "get_total_stake (c_funds c) = 50"
    using deployed_stake by blast
  have "call_contract latest_full_exports ?env 50 CallStake deployed = Inr (c, [Event (StakeEvent sample_user 50)])"
    using c(1) call_exported [of CallStake] by (simp add: call_contract_def)
  moreover have "safe_call CallStake deployed"
    using deployed_call_ok by (simp add: safe_call_def call_ok_def)
  ultimately have "ledger_step safe_call (0, 4950, deployed) (0, 4950 + 50 - paid [Event (StakeEvent sample_user 50)], c)"
    by (rule ledger_step.call) (simp_all add: deploy_env_def sample_env_def)
  then have "ledger_step safe_call (0, 4950, deployed) (0, 5000, c)"
    by simp
  then show ?thesis
    using c(2) by blast
qed

theorem protected_funds_covered_witness:
  "\<exists>c :: contract. get_total_stake (c_funds c) = 50 \<and>
     total_unprotected 5000 0 (c_funds c) (c_rewards c) = Inr (5000 - payable_stake (c_funds c))"
proof -
  obtain c where c: "(ledger_step safe_call)\<^sup>*\<^sup>* (0, 4950, deployed) (0, 5000, c)" "get_total_stake (c_funds c) = 50"
    using deployed_ledger by blast
  show ?thesis
    using protected_funds_covered [OF deployed c(1)] c(2) by (intro exI [of _ c] conjI) simp_all
qed

text \<open>
  (C2) Every payment of a successful call can be made. In every state that satisfies the invariant of the
  previous property and is not close to the limits of the machine, whatever exported function is
  called, with whatever arguments and by whomever: what the call sends, to delegators that claim
  or unbond and to the auction contract for nodes that are staked or unjailed, is in the balance.
  If the call is not one of the two that break an invariant (a dust cleanup from a checkpoint that
  is in another list or gone, and the change of the cap that ends bootstrap mode at exactly the
  active stake), what remains of the balance covers the stake and the rewards that are still owed,
  so the invariant holds again.
\<close>

theorem payments_covered:
  assumes "ledger_inv (tot, b, c)" and "call_contract exports env payment call c = Inr (c', effs)"
    and "call_bounds c" and "cumulated_rewards env = tot" and "sc_balance env = b + payment"
  shows "paid effs \<le> b + payment \<and>
    (call_guard call c \<longrightarrow> ledger_inv (tot, b + payment - paid effs, c') \<and>
       payable_stake (c_funds c') + (tot - rs_sent (c_rewards c')) \<le> b + payment - paid effs)"
proof (cases "call_guard call c")
  case False
  then show ?thesis
    using unsafe_call_pays_nothing [OF assms(2)] by simp
next
  case guard: True
  obtain tot0 where tot0: "tot0 \<le> tot" "global_inv tot0 c" and cov: "covered tot b c"
    and boot: "bootstrap_mode (c_settings c) \<longrightarrow> tot = 0"
    using assms(1) by (auto simp: ledger_inv_def)
  have ok: "call_ok tot0 env c"
    using assms(3,4) tot0(1) boot by (simp add: call_ok_def env_ok_def)
  have "safe_call call c"
    using assms(3) guard by (simp add: safe_call_def)
  then have next_inv: "ledger_inv (tot, b + payment - paid effs, c')"
    using ledger_step_keeps [OF ledger_step.call [OF assms(2) _ assms(4,5)] assms(1)] by blast
  then show ?thesis
    using ledger_protected(2) [OF next_inv] call_covered [OF tot0(2) _ assms(2) ok guard assms(5)] cov assms(4) by auto
qed

text \<open>In the sample contract the delegator claims a share of 360 of the first 1000 units of rewards.\<close>

lemma sample_claimable:
  "get_claimable_rewards 1000 sample_settings sample_users sample_funds reward_storage_empty sample_user = Inr 360"
proof -
  have "load_updated_user_rewards 1000 sample_settings sample_funds reward_storage_empty 2 =
      Inr \<lparr>reward_checkpoint = 1000, unclaimed_rewards = 360\<rparr>"
    by (simp add: load_updated_user_rewards_def load_user_reward_data_def split_service_reward_def reward_storage_empty_def
        sample_settings_def sample_totals USER_STAKE_TOTALS_ID_def OWNER_USER_ID_def PERCENTAGE_DENOMINATOR_def Let_def)
  then show ?thesis
    by (simp add: get_claimable_rewards_def)
qed

lemma sample_ledger: "ledger_inv (1000, 5000, sample_contract)"
proof -
  have "covered 1000 5000 sample_contract"
    by (simp add: covered_def committed_def get_total_stake_def get_user_total_stake_def ALL_TYPES_def
        USER_STAKE_TOTALS_ID_def sample_types reward_storage_empty_def sample_settings_def)
  then show ?thesis
    using sample_inv by (auto simp: ledger_inv_def global_inv_idle)
qed

lemma sample_bounds: "call_bounds sample_contract"
  using sample_room [of 16] sample_items by (simp add: call_bounds_def MAX_AFFECTED_USERS_def usize_max_def)

theorem payments_covered_witness:
  "\<exists>c'. call_contract latest_full_exports (sample_env sample_user) 0 CallClaimRewards sample_contract =
      Inr (c', [Event (ClaimRewardsEvent sample_user 360), DirectEgld sample_user 360]) \<and>
    ledger_inv (1000, 4640, c')"
proof -
  obtain c' where run: "call_contract latest_full_exports (sample_env sample_user) 0 CallClaimRewards sample_contract =
      Inr (c', [Event (ClaimRewardsEvent sample_user 360), DirectEgld sample_user 360])"
    using claim_rewards_run [OF sample_inv sample_env_ok, of sample_user 2] call_exported [of CallClaimRewards]
    by (auto simp: call_contract_def sample_claimable)
  show ?thesis
    using payments_covered [OF sample_ledger run sample_bounds] run by (auto simp: sample_env_def)
qed

text \<open>
  (C3) The states that safe calls reach are consistent. From deployment on, through every sequence of
  successful calls of the exported functions by any callers, with rewards arriving in between and
  long operations interrupted anywhere, where every call is a \<open>safe_call\<close> (no dust cleanup from a
  checkpoint that is in another list or gone, no change of the cap that ends bootstrap mode at
  exactly the active stake, storage not close to the limits of the machine): the fund lists, the
  registry of users and the rewards satisfy their invariants; and when no operation is under way,
  the active and the unstaked stake fill the delegation cap exactly after bootstrap mode, and the
  rewards of all users that can still be claimed and those already sent are covered by what
  arrived. What the two calls that are left out do instead is stated with dust cleanups and with
  the bootstrap exit.
\<close>

theorem reachable_states_consistent:
  assumes "init_full env0 auction fee share n_blocks minimum cap contract_empty = Inr c0"
    and "(ledger_step safe_call)\<^sup>*\<^sup>* (0, b0, c0) (tot, b, c)"
  shows "(\<exists>tot0\<le>tot. global_inv tot0 c) \<and>
    (\<not> is_global_op_in_progress c \<longrightarrow>
       (\<not> bootstrap_mode (c_settings c) \<longrightarrow> validate_delegation_cap_invariant c = Inr ()) \<and>
       (\<exists>x. get_total_unclaimed_rewards tot (c_settings c) (c_users c) (c_funds c) (c_rewards c) = Inr x \<and>
          x + rs_sent (c_rewards c) \<le> tot))"
proof -
  have "ledger_inv (tot, b, c)"
    by (rule ledger_steps_keep [OF assms(2) ledger_start [OF assms(1)]])
  then obtain tot0 where inv: "tot0 \<le> tot" "global_inv tot0 c" and boot: "bootstrap_mode (c_settings c) \<longrightarrow> tot = 0"
    by (auto simp: ledger_inv_def)
  have "(\<not> bootstrap_mode (c_settings c) \<longrightarrow> validate_delegation_cap_invariant c = Inr ()) \<and>
       (\<exists>x. get_total_unclaimed_rewards tot (c_settings c) (c_users c) (c_funds c) (c_rewards c) = Inr x \<and>
          x + rs_sent (c_rewards c) \<le> tot)" if "\<not> is_global_op_in_progress c"
  proof -
    note idle = idle_inv [OF inv(2) that]
    have "env_ok tot0 (env0\<lparr>cumulated_rewards := tot\<rparr>) c"
      using boot inv(1) by (simp add: env_ok_def)
    from total_unclaimed_run [OF idle(1) this] show ?thesis
      using idle(2) by (auto simp: validate_delegation_cap_invariant_def cap_inv_regular USER_STAKE_TOTALS_ID_def Let_def)
  qed
  with inv show ?thesis
    by blast
qed

theorem reachable_states_consistent_witness:
  "\<exists>c :: contract. get_total_stake (c_funds c) = 50 \<and> global_inv 0 c"
proof -
  obtain c where c: "(ledger_step safe_call)\<^sup>*\<^sup>* (0, 4950, deployed) (0, 5000, c)" "get_total_stake (c_funds c) = 50"
    using deployed_ledger by blast
  show ?thesis
    using reachable_states_consistent [OF deployed c(1)] c(2) by blast
qed

section \<open>Consistency of the lists\<close>

lemma global_inv_funds: "global_inv tot c \<Longrightarrow> fund_inv (c_funds c)"
  by (auto simp: global_inv_def op_inv_def contract_inv_def base_inv_def split: if_splits)

text \<open>
  (C16) The test suite's consistency check accepts every state that safe calls reach. In every state reached from
  deployment, interrupted operations and callbacks included, where every call was a \<open>safe_call\<close> (so no
  dust cleanup went on from a checkpoint that is in another list or gone, and bootstrap mode was
  not ended at exactly the active stake), the check with which the tests of the repository examine
  the lists of funds accepts the storage, for any number of users: walking the list of a type or of
  a user, every back link is the item before, the list ends at its last item, every item of a
  user's list is the user's, and the total in the list head is the sum of the balances. (After a
  dust cleanup from a checkpoint that is gone the check rejects the storage: \<open>stale_check\<close> below.)
\<close>

theorem consistency_check_passes:
  assumes "init_full env0 auction fee share n_blocks minimum cap contract_empty = Inr c0"
    and "(ledger_step safe_call)\<^sup>*\<^sup>* (0, b0, c0) (tot, b, c)"
  shows "check_consistency (c_funds c) num_users = Inr ()"
proof -
  have "ledger_inv (tot, b, c)"
    by (rule ledger_steps_keep [OF assms(2) ledger_start [OF assms(1)]])
  then show ?thesis
    using check_consistency_accepts global_inv_funds by (auto simp: ledger_inv_def)
qed

text \<open>The check accepts the deployed contract after a stake, and rejects what a stale checkpoint leaves behind.\<close>

lemma stale_check:
  "\<exists>c'. dust_cleanup_waiting_list (sample_env sample_owner) 3 stale_contract = Inr c' \<and>
     check_consistency (c_funds c') 2 = Inl (ScPanic ''type list inconsistency: bad sum'')"
proof -
  have "fs_by_id (c_funds stale_contract) (c_dust_checkpoint stale_contract) = None" "c_dust_checkpoint stale_contract \<noteq> 0"
    "0 < type_total (c_funds stale_contract) WithdrawOnly" "\<not> is_global_op_in_progress stale_contract"
    by (simp_all add: stale_contract_def is_global_op_in_progress_def global_op_is_none_def entry_at_def
        sum_of_def sum_where_def)
  with swap_dust_stale [of "c_dust_checkpoint stale_contract" "c_funds stale_contract" 3 "\<lambda>k. False"]
  obtain fs where fs: "swap_dust (c_dust_checkpoint stale_contract) 3 Waiting (\<lambda>_ x _. Inr (Some FdWithdrawOnly, x)) (\<lambda>k. False) ()
      (c_funds stale_contract) = Inr (0, (), fs)" "list_first (fund_list_by_type fs WithdrawOnly) = 0"
    "0 < type_total fs WithdrawOnly"
    by (auto simp: type_total_def)
  then show ?thesis
    using check_consistency_rejects [OF fs(2,3)] \<open>\<not> is_global_op_in_progress stale_contract\<close>
    by (auto simp: dust_cleanup_waiting_list_def only_owner_def sample_env_def DUST_GASLIMIT_def)
qed

theorem consistency_check_passes_witness:
  "\<exists>c :: contract. get_total_stake (c_funds c) = 50 \<and> check_consistency (c_funds c) 2 = Inr ()"
proof -
  obtain c where c: "(ledger_step safe_call)\<^sup>*\<^sup>* (0, 4950, deployed) (0, 5000, c)" "get_total_stake (c_funds c) = 50"
    using deployed_ledger by blast
  show ?thesis
    using consistency_check_passes [OF deployed c(1)] c(2) by blast
qed

section \<open>A checkpoint in the wrong list\<close>



text \<open>
  The owner has staked 90 and a user 10, the cap of 100 is with the auction contract, and no
  rewards are left in the balance. A cleanup of active funds below 50 is stopped by the gas
  limit at the user's fund; then the owner cleans up the waiting list.
\<close>

definition staked_contract :: contract where
  "staked_contract = sample_contract\<lparr>c_funds := concrete \<lparr>a_max = 2, a_entries =
     [\<lparr>eid = 1, edesc = FdActive, euser = 1, ebal = 90\<rparr>, \<lparr>eid = 2, edesc = FdActive, euser = 2, ebal = 10\<rparr>]\<rparr>\<rparr>"



lemma staked_fields [simp]:
  "c_settings staked_contract = sample_settings" "c_users staked_contract = sample_users"
  "c_rewards staked_contract = reward_storage_empty" "c_global_op staked_contract = GlobalOpNone"
  "c_dust_checkpoint staked_contract = 0"
  by (simp_all add: staked_contract_def)








section \<open>Types\<close>

text \<open>
  (C37) What is stored and sent has the types of the source. After deployment, whatever exported functions are
  called in whatever order, with arguments of their declared types, successfully or not, with
  long operations interrupted anywhere and answers of the auction contract at any time: every
  user address that is stored, every receiver of money and of calls has 32 bytes, every BLS key
  that is stored or sent to the auction contract 96 and every signature 48, the counters of users
  and nodes fit \<^verbatim>\<open>usize\<close>, and the fee, also one that a change under way is to set, and the owner's
  share are at most 100 percent.
\<close>

theorem storage_stays_typed:
  assumes "init_full env0 auction fee share n_blocks minimum cap contract_empty = Inr c0"
    and "is_address (caller env0)" and "is_address auction"
    and "\<forall>(env, payment, call)\<in>set calls. is_address (caller env) \<and> typed_call call"
  shows "typed_contract (fst (run_calls exports calls c0)) \<and> typed_effects (snd (run_calls exports calls c0))"
  by (rule run_calls_typed [OF init_full_typed [OF assms(1-3)] assms(4)])

text \<open>A stake, a new node, and a removal of an unknown one, which fails.\<close>

definition first_calls :: "(sc_env \<times> nat \<times> endpoint_call) list" where
  "first_calls = [(deploy_env\<lparr>caller := sample_user\<rparr>, 50, CallStake),
     (deploy_env, 0, CallAddNodes [(replicate 96 1, replicate 48 2)]), (deploy_env, 0, CallRemoveNodes [replicate 96 3])]"

lemma first_calls_run:
  "\<exists>c. fst (run_calls latest_full_exports first_calls deployed) = c \<and> ns_num_nodes (c_nodes c) = 1 \<and>
     ns_id_to_bls (c_nodes c) 1 = Some (replicate 96 1) \<and> us_num_users (c_users c) = 2"
proof -
  obtain c where c: "stake_endpoint (deploy_env\<lparr>caller := sample_user\<rparr>) 50 deployed = Inr (c, [Event (StakeEvent sample_user 50)])"
    using deployed_stake by blast
  have "process_stake (deploy_env\<lparr>caller := sample_user\<rparr>) 50 deployed = Inr (c, [Event (StakeEvent sample_user 50)])"
    using c by (simp add: stake_endpoint_def require_eq_Inr)
  then have kept: "c_nodes c = node_storage_empty"
    "c_users c = snd (get_or_create_user sample_user (c_users deployed))"
    using process_stake_money init_full_inv(7) [OF deployed] by (fastforce simp: money_only_def)+
  have "c_users deployed = \<lparr>us_user_id = (\<lambda>_. 0)(sample_owner := 1), us_user_address = (\<lambda>_. None)(1 := Some sample_owner),
      us_num_users = 1\<rparr>"
    by (simp add: deployed_def init_full_def Let_def require_def bind_res_def set_owner_min_stake_share_validated_def
        contract_empty_def user_storage_empty_def set_user_address_def OWNER_USER_ID_def PERCENTAGE_DENOMINATOR_def
        deploy_env_def sample_env_def)
  then have users: "us_num_users (c_users c) = 2"
    using kept(2)
    by (simp add: get_or_create_user_def new_user_def Let_def usize_add_def usize_max_def sample_owner_def sample_user_def)
  have names: "''stake'' \<in> set latest_full_exports" "''addNodes'' \<in> set latest_full_exports" "''removeNodes'' \<in> set latest_full_exports"
    using call_exported [of CallStake] call_exported [of "CallAddNodes []"] call_exported [of "CallRemoveNodes []"] by simp_all
  show ?thesis
    using c users
    by (simp add: first_calls_def call_contract_def kept(1) names without_effects_def add_nodes_endpoint_def add_nodes_def
        remove_nodes_endpoint_def only_owner_def require_def node_storage_empty_def Let_def usize_add_def usize_max_def
        set_node_state_def set_node_signature_def deploy_env_def sample_env_def bind_res_def)
qed

theorem storage_stays_typed_witness:
  "\<exists>c. fst (run_calls latest_full_exports first_calls deployed) = c \<and> ns_num_nodes (c_nodes c) = 1 \<and>
     us_num_users (c_users c) = 2 \<and> typed_contract c"
proof -
  have "\<forall>(env, payment, call)\<in>set first_calls. is_address (caller env) \<and> typed_call call"
    by (simp add: first_calls_def deploy_env_def sample_env_def sample_owner_def sample_user_def)
  moreover have "is_address (caller deploy_env)"
    by (simp add: deploy_env_def sample_env_def sample_owner_def)
  ultimately show ?thesis
    using first_calls_run storage_stays_typed [OF deployed] by auto
qed

end
