(* ===== verification/Auction_Mock.thy ===== *)
theory Auction_Mock
  imports Node_Properties
begin

text \<open>
  The stand-in for the auction contract (\<^verbatim>\<open>auction-mock/src\<close>) that the scenario tests of the
  repository deploy: it records the keys it is given and fails where it was told to. An answer
  is the flat list of buffers that is sent back: each failed key, followed by its error code.
  Splitting it into the pairs the callbacks take is done by the framework and is an argument.
\<close>

section \<open>The contract\<close>

record auction_mock =
  am_stake_per_node :: nat
  am_num_nodes :: nat
  am_stake_bls_key :: "nat \<Rightarrow> u8 list option"
  am_stake_bls_sig :: "nat \<Rightarrow> u8 list option"
  am_unstake_bls_key :: "nat \<Rightarrow> u8 list option"
  am_unbond_bls_key :: "nat \<Rightarrow> u8 list option"
  am_staking_failure :: bool
  am_bls_deliberate_error :: "u8 list \<Rightarrow> u8"
  am_unjailed :: "bls_key list"

definition set_bls_deliberate_error :: "u8 list \<Rightarrow> u8 \<Rightarrow> auction_mock \<Rightarrow> auction_mock" where
  "set_bls_deliberate_error k err_code m =
     m\<lparr>am_bls_deliberate_error := (am_bls_deliberate_error m)(k := err_code)\<rparr>"

definition set_staking_failure :: "bool \<Rightarrow> auction_mock \<Rightarrow> auction_mock" where
  "set_staking_failure will_fail m = m\<lparr>am_staking_failure := will_fail\<rparr>"

fun mock_stake_loop :: "(u8 list \<times> u8 list) list \<Rightarrow> nat \<Rightarrow> u8 list list \<Rightarrow> auction_mock \<Rightarrow> nat \<times> u8 list list \<times> auction_mock" where
  "mock_stake_loop [] new_num_nodes result_err_data m = (new_num_nodes, result_err_data, m)"
| "mock_stake_loop ((k, sig) # pairs) new_num_nodes result_err_data m =
     (let n = usize_add new_num_nodes 1;
          m1 = m\<lparr>am_stake_bls_key := (am_stake_bls_key m)(n \<mapsto> k), am_stake_bls_sig := (am_stake_bls_sig m)(n \<mapsto> sig)\<rparr>;
          err_code = am_bls_deliberate_error m1 k in
      mock_stake_loop pairs n (if 0 < err_code then result_err_data @ [k, [err_code]] else result_err_data) m1)"

definition mock_stake ::
  "nat \<Rightarrow> (u8 list \<times> u8 list) list \<Rightarrow> nat \<Rightarrow> auction_mock \<Rightarrow> (u8 list list \<times> auction_mock) res" where
  "mock_stake num_nodes bls_keys_signatures payment m =
     require ((num_nodes * 2) mod usize_max = 2 * length bls_keys_signatures) ''incorrect number of arguments''
     (require (\<not> am_staking_failure m) ''auction smart contract deliberate error''
     (let expected_payment = num_nodes * am_stake_per_node m in
      require (payment = expected_payment) ''incorrect payment to auction mock''
      (let (new_num_nodes, result_err_data, m1) = mock_stake_loop bls_keys_signatures (am_num_nodes m) [] m in
       Inr (result_err_data, m1\<lparr>am_num_nodes := new_num_nodes\<rparr>))))"

fun mock_unstake_loop :: "u8 list list \<Rightarrow> nat \<Rightarrow> u8 list list \<Rightarrow> auction_mock \<Rightarrow> u8 list list \<times> auction_mock" where
  "mock_unstake_loop [] n result_err_data m = (result_err_data, m)"
| "mock_unstake_loop (k # keys) n result_err_data m =
     (let m1 = m\<lparr>am_unstake_bls_key := (am_unstake_bls_key m)(n \<mapsto> k)\<rparr>;
          err_code = am_bls_deliberate_error m1 k in
      mock_unstake_loop keys (Suc n) (if 0 < err_code then result_err_data @ [k, [err_code]] else result_err_data) m1)"

definition mock_unstake_endpoint :: "u8 list list \<Rightarrow> auction_mock \<Rightarrow> (u8 list list \<times> auction_mock) res" where
  "mock_unstake_endpoint bls_keys m =
     require (\<not> am_staking_failure m) ''auction smart contract deliberate error''
       (Inr (mock_unstake_loop bls_keys 0 [] m))"

definition mock_unstake_nodes_endpoint :: "u8 list list \<Rightarrow> auction_mock \<Rightarrow> (u8 list list \<times> auction_mock) res" where
  "mock_unstake_nodes_endpoint bls_keys m = mock_unstake_endpoint bls_keys m"

fun mock_unbond_loop :: "u8 list list \<Rightarrow> nat \<Rightarrow> u8 list list \<Rightarrow> auction_mock \<Rightarrow> u8 list list \<times> auction_mock" where
  "mock_unbond_loop [] n result_err_data m = (result_err_data, m)"
| "mock_unbond_loop (k # keys) n result_err_data m =
     (let m1 = m\<lparr>am_unbond_bls_key := (am_unbond_bls_key m)(n \<mapsto> k)\<rparr>;
          err_code = am_bls_deliberate_error m1 k in
      mock_unbond_loop keys (Suc n) (if 0 < err_code then result_err_data @ [k, [err_code]] else result_err_data) m1)"

text \<open>The second component is what is sent to the caller.\<close>

definition mock_unbond_endpoint ::
  "address \<Rightarrow> u8 list list \<Rightarrow> auction_mock \<Rightarrow> (u8 list list \<times> sc_effect list \<times> auction_mock) res" where
  "mock_unbond_endpoint mock_caller bls_keys m =
     require (\<not> am_staking_failure m) ''auction smart contract deliberate error''
     (let (result_err_data, m1) = mock_unbond_loop bls_keys 0 [] m;
          unbond_stake = am_stake_per_node m1 * length bls_keys in
      Inr (result_err_data, [DirectEgld mock_caller unbond_stake], m1))"

definition mock_unbond_nodes_endpoint ::
  "address \<Rightarrow> u8 list list \<Rightarrow> auction_mock \<Rightarrow> (u8 list list \<times> sc_effect list \<times> auction_mock) res" where
  "mock_unbond_nodes_endpoint mock_caller bls_keys m = mock_unbond_endpoint mock_caller bls_keys m"

definition mock_unstake_tokens :: "nat \<Rightarrow> auction_mock \<Rightarrow> auction_mock" where
  "mock_unstake_tokens amount m = m"

definition mock_unbond_tokens :: "address \<Rightarrow> nat \<Rightarrow> auction_mock \<Rightarrow> sc_effect list \<times> auction_mock" where
  "mock_unbond_tokens mock_caller amount m = ([DirectEgld mock_caller amount], m)"

definition mock_claim :: "auction_mock \<Rightarrow> auction_mock" where
  "mock_claim m = m"

definition mock_unjail_endpoint :: "bls_key list \<Rightarrow> nat \<Rightarrow> auction_mock \<Rightarrow> auction_mock" where
  "mock_unjail_endpoint bls_keys fine_payment m = m\<lparr>am_unjailed := bls_keys\<rparr>"

section \<open>Answers\<close>

text \<open>What the answer reports: the keys with a deliberate error, and their codes.\<close>

definition deliberate_errors :: "auction_mock \<Rightarrow> u8 list list \<Rightarrow> (u8 list \<times> u8) list" where
  "deliberate_errors m keys =
     map (\<lambda>k. (k, am_bls_deliberate_error m k)) (filter (\<lambda>k. 0 < am_bls_deliberate_error m k) keys)"

definition flat_answer :: "(u8 list \<times> u8) list \<Rightarrow> u8 list list" where
  "flat_answer errs = concat (map (\<lambda>(k, e). [k, [e]]) errs)"

lemma flat_answer_simps [simp]: "flat_answer [] = []" "flat_answer ((k, e) # errs) = k # [e] # flat_answer errs"
  by (simp_all add: flat_answer_def)

lemma mock_stake_loop_answer:
  "\<exists>n m'. mock_stake_loop pairs n0 acc m = (n, acc @ flat_answer (deliberate_errors m (map fst pairs)), m')"
proof (induction pairs arbitrary: n0 acc m)
  case (Cons p pairs)
  obtain k sig where p: "p = (k, sig)"
    by (cases p)
  let ?n = "usize_add n0 1" and ?e = "am_bls_deliberate_error m k"
  let ?m = "m\<lparr>am_stake_bls_key := (am_stake_bls_key m)(?n \<mapsto> k), am_stake_bls_sig := (am_stake_bls_sig m)(?n \<mapsto> sig)\<rparr>"
  have "deliberate_errors ?m keys = deliberate_errors m keys" for keys
    by (simp add: deliberate_errors_def)
  then have "\<exists>n m'. mock_stake_loop pairs ?n acc' ?m = (n, acc' @ flat_answer (deliberate_errors m (map fst pairs)), m')" for acc'
    using Cons.IH [of ?n acc' ?m] by simp
  from this [of "if 0 < ?e then acc @ [k, [?e]] else acc"] show ?case
    by (auto simp: p deliberate_errors_def Let_def)
qed (simp add: deliberate_errors_def)

lemma mock_stake_answer:
  "mock_stake n pairs payment m = Inr (answer, m') \<Longrightarrow> answer = flat_answer (deliberate_errors m (map fst pairs))"
  using mock_stake_loop_answer [of pairs "am_num_nodes m" "[]" m]
  by (auto simp: mock_stake_def require_eq_Inr Let_def)

text \<open>
  The outcome of the call as the callback gets it. The mock sends a code as one byte, the callback
  reads a status of 32 bits.
\<close>

definition read_codes :: "(u8 list \<times> u8) list \<Rightarrow> (bls_key \<times> u32) list" where
  "read_codes errs = map (\<lambda>(k, e). (k, ucast e)) errs"

lemma status_eq_0: "(ucast (e :: u8) :: u32) = 0 \<longleftrightarrow> e = 0"
  by transfer (simp add: take_bit_eq_mod)

definition mock_outcome ::
  "(u8 list list \<Rightarrow> (bls_key \<times> u32) list) \<Rightarrow> string \<Rightarrow> (u8 list list \<times> auction_mock) res \<Rightarrow> async_call_result" where
  "mock_outcome parse msg r = (case r of Inl _ \<Rightarrow> AsyncErr msg | Inr (answer, _) \<Rightarrow> AsyncOk (parse answer))"

lemma reported_errors:
  assumes "node_inv ns" and "k \<in> set keys" and "ns_bls_to_id ns k \<noteq> 0"
  shows "ns_bls_to_id ns k \<in> reported ns (read_codes (deliberate_errors m keys)) \<longleftrightarrow> am_bls_deliberate_error m k \<noteq> 0"
proof -
  have inj: "ns_bls_to_id ns k' = ns_bls_to_id ns k \<Longrightarrow> k' = k" for k'
    using assms(1,3) unfolding node_inv_def registry_inv_def by metis
  show ?thesis
  proof
    assume "ns_bls_to_id ns k \<in> reported ns (read_codes (deliberate_errors m keys))"
    then obtain k' e where k': "ns_bls_to_id ns k' = ns_bls_to_id ns k" "(k', e) \<in> set (deliberate_errors m keys)"
      unfolding reported_def read_codes_def by force
    have "k' = k"
      by (rule inj [OF k'(1)])
    then show "am_bls_deliberate_error m k \<noteq> 0"
      using k'(2) by (auto simp: deliberate_errors_def)
  next
    assume e: "am_bls_deliberate_error m k \<noteq> 0"
    then have "(k, am_bls_deliberate_error m k) \<in> set (deliberate_errors m keys)"
      using assms(2) by (auto simp: deliberate_errors_def word_neq_0_conv)
    then have "(k, ucast (am_bls_deliberate_error m k)) \<in> set (read_codes (deliberate_errors m keys))"
      unfolding read_codes_def by force
    then show "ns_bls_to_id ns k \<in> reported ns (read_codes (deliberate_errors m keys))"
      using e status_eq_0 unfolding reported_def by blast
  qed
qed

section \<open>Staking nodes from end to end\<close>

text \<open>
  (C14) Staking nodes with the mock. In every state reached by node operations and callbacks (with \<^verbatim>\<open>forceNodeUnBondPeriod\<close>
  used on no node in a pending state), when \<open>stakeNodes\<close> returns, the call it sends is
  executed by the mock and the callback is run with the outcome, the callback returns, and then: if
  the mock refused the call (wrong payment or a deliberate failure of staking), all nodes of the
  call are inactive again; otherwise exactly the nodes whose key has no deliberate error are
  active, and the others are inactive again.
\<close>

theorem staking_with_mock:
  assumes "c_nodes c0 = node_storage_empty" and "(node_step none_pending)\<^sup>*\<^sup>* (c0, []) (c, p)"
    and "stake_nodes env missing amount keys c =
      Inr (c1, [AsyncCall auction amount (AuctionStake n pairs) (Some (AuctionStakeCallback ids))])"
    and "\<And>errs. parse (flat_answer errs) = read_codes errs"
  shows "\<exists>c2 effs. auction_stake_callback ids (mock_outcome parse msg (mock_stake n pairs amount m)) c1 = Inr (c2, effs) \<and>
    (\<forall>k\<in>set keys. get_node_state (c_nodes c2) (ns_bls_to_id (c_nodes c) k) =
       (if am_staking_failure m \<or> amount \<noteq> length keys * am_stake_per_node m \<or> am_bls_deliberate_error m k \<noteq> 0
        then Inactive else NodeActive))"
proof -
  let ?ns = "c_nodes c" and ?r = "mock_outcome parse msg (mock_stake n pairs amount m)"
  have inv: "node_sys_inv (c, p)"
    by (rule node_steps_inv [OF assms(2) node_sys_inv_start [OF assms(1)]])
  have sent: "c1 = c\<lparr>c_nodes := move_nodes (ids_of_keys ?ns keys) (\<lambda>_. PendingActivation) ?ns\<rparr>" "n = length keys"
    "map fst pairs = keys" "ids = ids_of_keys ?ns keys" "0 \<notin> set ids" "length keys \<le> MAX_NODES_PER_OPERATION"
    using stake_nodes_eq [OF assms(3)] by auto
  have "node_sys_inv (c1, [] @ AuctionStakeCallback ids # p)"
    using stake_step_ok [OF inv assms(3)] by simp
  from stake_answer_ok [OF this, of ?r]
  obtain c2 effs where r: "auction_stake_callback ids ?r c1 = Inr (c2, effs)"
    "\<forall>i\<in>set ids. ns_state (c_nodes c2) i = (if i \<in> failed_ids (c_nodes c1) ids ?r then Inactive else NodeActive)"
    by blast
  have pairs: "length pairs = length keys" "length keys * 2 < usize_max"
    using sent(3,6) by (auto simp: MAX_NODES_PER_OPERATION_def usize_max_def)
  have "ns_bls_to_id ?ns k \<in> failed_ids (c_nodes c1) ids ?r \<longleftrightarrow>
      am_staking_failure m \<or> amount \<noteq> length keys * am_stake_per_node m \<or> am_bls_deliberate_error m k \<noteq> 0"
    if k: "k \<in> set keys" for k
  proof -
    have id: "ns_bls_to_id ?ns k \<in> set ids" "ns_bls_to_id ?ns k \<noteq> 0"
      using sent(4,5) k by (auto simp: ids_of_keys_def)
    have rep: "ns_bls_to_id ?ns k \<in> reported (c_nodes c1) errs \<longleftrightarrow> ns_bls_to_id ?ns k \<in> reported ?ns errs" for errs
      by (simp add: sent(1) reported_def)
    show ?thesis
    proof (cases "mock_stake n pairs amount m")
      case (Inl e)
      then have "am_staking_failure m \<or> amount \<noteq> length keys * am_stake_per_node m"
        using pairs sent(2) by (auto simp: mock_stake_def require_def Let_def split: if_splits prod.splits)
      then show ?thesis
        using Inl id by (auto simp: mock_outcome_def failed_ids_def)
    next
      case (Inr a)
      then obtain answer m' where a: "mock_stake n pairs amount m = Inr (answer, m')"
        by (cases a) simp
      have no: "\<not> am_staking_failure m" "amount = length keys * am_stake_per_node m"
        using a sent(2) by (simp_all add: mock_stake_def require_eq_Inr Let_def)
      have "ns_bls_to_id ?ns k \<in> failed_ids (c_nodes c1) ids ?r \<longleftrightarrow>
          ns_bls_to_id ?ns k \<in> reported ?ns (read_codes (deliberate_errors m keys))"
        using id(1) rep mock_stake_answer [OF a] by (simp add: a mock_outcome_def failed_ids_def assms(4) sent(3))
      also have "\<dots> \<longleftrightarrow> am_bls_deliberate_error m k \<noteq> 0"
        using inv by (intro reported_errors k id(2)) (simp add: node_sys_inv_def)
      finally show ?thesis
        using no by simp
    qed
  qed
  then have "\<forall>k\<in>set keys. get_node_state (c_nodes c2) (ns_bls_to_id ?ns k) =
       (if am_staking_failure m \<or> amount \<noteq> length keys * am_stake_per_node m \<or> am_bls_deliberate_error m k \<noteq> 0
        then Inactive else NodeActive)"
    using r(2) sent(4) by (auto simp: get_node_state_def ids_of_keys_def)
  with r(1) show ?thesis
    by blast
qed

text \<open>A sample: one node, a stake of 50 per node, and a key with a deliberate error.\<close>

definition sample_mock :: "u8 \<Rightarrow> auction_mock" where
  "sample_mock err_code = \<lparr>am_stake_per_node = 50, am_num_nodes = 0, am_stake_bls_key = (\<lambda>_. None), am_stake_bls_sig = (\<lambda>_. None),
     am_unstake_bls_key = (\<lambda>_. None), am_unbond_bls_key = (\<lambda>_. None), am_staking_failure = False,
     am_bls_deliberate_error = (\<lambda>_. 0)(sample_key := err_code), am_unjailed = []\<rparr>"

fun sample_parse :: "u8 list list \<Rightarrow> (bls_key \<times> u32) list" where
  "sample_parse (k # [e] # rest) = (k, ucast e) # sample_parse rest"
| "sample_parse _ = []"

lemma sample_parse: "sample_parse (flat_answer errs) = read_codes errs"
  by (induction errs) (auto simp: read_codes_def)

lemma sample_added: "(node_step none_pending)\<^sup>*\<^sup>* (sample_contract, []) (sample_contract\<lparr>c_nodes := sample_nodes\<rparr>, [])"
proof -
  have "add_nodes_endpoint (sample_env sample_owner) [(sample_key, sample_sig)] sample_contract =
      Inr (sample_contract\<lparr>c_nodes := sample_nodes\<rparr>)"
    using sample_add by (simp add: add_nodes_endpoint_def only_owner_def sample_contract_def)
  then have "node_step none_pending (sample_contract, []) (sample_contract\<lparr>c_nodes := sample_nodes\<rparr>, [])"
    by (rule node_step.add) (simp add: sample_contract_def node_storage_empty_def usize_max_def)
  then show ?thesis
    by (rule r_into_rtranclp)
qed

theorem staking_with_mock_witness:
  "\<exists>c effs. auction_stake_callback [1]
      (mock_outcome sample_parse ''failed'' (mock_stake 1 [(sample_key, sample_sig)] 50 (sample_mock 3))) (fst sample_staking) =
      Inr (c, effs) \<and> get_node_state (c_nodes c) 1 = Inactive"
proof -
  have "stake_nodes (sample_env sample_owner) (Inl OutOfGas) 50 [sample_key] (sample_contract\<lparr>c_nodes := sample_nodes\<rparr>) =
      Inr (fst sample_staking, [AsyncCall (replicate 32 9) 50 (AuctionStake 1 [(sample_key, sample_sig)])
        (Some (AuctionStakeCallback [1]))])"
    using sample_stake_nodes by (simp add: sample_staking_def)
  from staking_with_mock [OF sample_start sample_added this sample_parse, of "''failed''" "sample_mock 3"]
  show ?thesis
    by (auto simp: sample_mock_def sample_nodes_def)
qed

section \<open>Endpoint names\<close>

text \<open>
  The functions that the wasm module of the mock exports (\<^verbatim>\<open>auction-mock/wasm/src/lib.rs\<close>), and
  the endpoint each call of the contract goes to (\<^verbatim>\<open>latest/src/auction_proxy.rs\<close>).
\<close>

definition auction_mock_exports :: "string list" where
  "auction_mock_exports =
    [''stake'', ''unStake'', ''unStakeNodes'', ''unBond'', ''unBondNodes'', ''unStakeTokens'', ''unBondTokens'',
     ''claim'', ''unJail'', ''setBlsDeliberateError'', ''getBlsDeliberateError'']"

fun auction_call_name :: "auction_call \<Rightarrow> string" where
  "auction_call_name (AuctionStake num_nodes keys) = ''stake''"
| "auction_call_name (AuctionUnStake keys) = ''unStake''"
| "auction_call_name (AuctionUnStakeNodes keys) = ''unStakeNodes''"
| "auction_call_name (AuctionUnBond keys) = ''unBond''"
| "auction_call_name (AuctionUnBondNodes keys) = ''unBondNodes''"
| "auction_call_name (AuctionUnStakeTokens amount) = ''unStakeTokens''"
| "auction_call_name (AuctionUnBondTokens amount) = ''unBondTokens''"
| "auction_call_name AuctionClaim = ''claim''"
| "auction_call_name (AuctionUnJail keys) = ''unJail''"

lemma auction_calls_exported: "auction_call_name call \<in> set auction_mock_exports"
  by (cases call) (simp_all add: auction_mock_exports_def)

end
