(* ===== verification/Old_Serialization.thy ===== *)
theory Old_Serialization
  imports Node_Config Fund_Types
begin

text \<open>
  The hand-written codecs that the derived ones replaced
  (\<^verbatim>\<open>user-fund-storage/fuzz/old_serialization\<close>, \<^verbatim>\<open>node-storage/fuzz/old_serialization\<close>). The
  input of a decoder is the list of bytes that are left, the result of an encoder the bytes it
  appends or an error. The codecs of numbers and the step from nested to top-level encoding belong to the
  framework: they are the argument \<open>cd\<close> and the functions \<open>to_top\<close> and \<open>from_nested\<close>. Each
  function of the source exists twice, once returning errors and once leaving through \<open>exit\<close>; leaving
  is the left value here, too.
\<close>

section \<open>Codecs of the framework\<close>

datatype decode_error =
    INVALID_VALUE
  | INPUT_TOO_SHORT
  | INPUT_TOO_LONG

type_synonym 'a decoded = "decode_error + 'a"
type_synonym 'a decoder = "u8 list \<Rightarrow> ('a \<times> u8 list) decoded"

definition bind_dec :: "'a decoded \<Rightarrow> ('a \<Rightarrow> 'b decoded) \<Rightarrow> 'b decoded" where
  "bind_dec r f = (case r of Inl e \<Rightarrow> Inl e | Inr x \<Rightarrow> f x)"

lemma bind_dec_simps [simp]: "bind_dec (Inl e) f = Inl e" "bind_dec (Inr x) f = f x"
  by (simp_all add: bind_dec_def)

definition read_byte :: "u8 decoder" where
  "read_byte input = (case input of [] \<Rightarrow> Inl INPUT_TOO_SHORT | b # rest \<Rightarrow> Inr (b, rest))"

lemma read_byte_Cons [simp]: "read_byte (b # rest) = Inr (b, rest)"
  by (simp add: read_byte_def)

text \<open>
  An encoder ends with an error, whose type \<open>'e\<close> is the framework's, or with the bytes it appended; what
  it had written before an error is thrown away with the output. A sequence of encoders, each followed
  by the question mark of the source, stops at the first error.
\<close>

type_synonym 'e encoded = "'e + u8 list"

fun enc_all :: "'e encoded list \<Rightarrow> 'e encoded" where
  "enc_all [] = Inr []"
| "enc_all (Inl e # rs) = Inl e"
| "enc_all (Inr bs # rs) = (case enc_all rs of Inl e \<Rightarrow> Inl e | Inr bs' \<Rightarrow> Inr (bs @ bs'))"

record 'e number_codecs =
  enc_u64 :: "u64 \<Rightarrow> 'e encoded"
  dec_u64 :: "u64 decoder"
  enc_usize :: "u32 \<Rightarrow> 'e encoded"
  dec_usize :: "u32 decoder"
  enc_biguint :: "nat \<Rightarrow> 'e encoded"
  dec_biguint :: "nat decoder"

text \<open>
  What was written reads back: the encoder ended without an error, and the decoder, on what it wrote followed by
  anything, gives the value and leaves what follows.
\<close>

definition reads_back :: "'e encoded \<Rightarrow> 'a decoder \<Rightarrow> 'a \<Rightarrow> bool" where
  "reads_back r dec x \<longleftrightarrow> (case r of Inl e \<Rightarrow> False | Inr bs \<Rightarrow> \<forall>rest. dec (bs @ rest) = Inr (x, rest))"

lemma reads_back_simps [simp]:
  "reads_back (Inl e) dec x = False" "reads_back (Inr bs) dec x = (\<forall>rest. dec (bs @ rest) = Inr (x, rest))"
  by (simp_all add: reads_back_def)

lemma reads_backE:
  assumes "reads_back r dec x"
  obtains bs where "r = Inr bs" and "\<And>rest. dec (bs @ rest) = Inr (x, rest)"
  using assms by (cases r) auto

text \<open>
  The contract of a nested codec: a decoder reads back what the encoder wrote and not more, for
  the values the encoder can write.
\<close>

locale nested_codec =
  fixes ok :: "'a \<Rightarrow> bool" and enc :: "'a \<Rightarrow> 'e encoded" and dec :: "'a decoder"
  assumes reads: "ok x \<Longrightarrow> reads_back (enc x) dec x"
begin

text \<open>No encoding is a proper prefix of another one, so encodings can be put in a row.\<close>

lemma enc_prefix_free:
  assumes "ok x" and "ok y" and "enc x = Inr xs" and "enc y = Inr ys" and "xs @ r = ys @ s"
  shows "x = y \<and> r = s"
proof -
  have "dec (xs @ r) = Inr (x, r)" "dec (ys @ s) = Inr (y, s)"
    using reads [OF assms(1)] reads [OF assms(2)] assms(3,4) by simp_all
  then show ?thesis
    using assms(5) by simp
qed

lemma enc_nonempty:
  assumes "ok x" and "ok y" and "x \<noteq> y" and "enc x = Inr bs"
  shows "bs \<noteq> []"
proof
  assume "bs = []"
  moreover obtain ys where "enc y = Inr ys"
    using reads [OF assms(2)] by (cases "enc y") simp_all
  ultimately show False
    using enc_prefix_free [OF assms(1,2,4), of ys ys "[]"] assms(3) by simp
qed

end

definition codecs_ok :: "nat \<Rightarrow> 'e number_codecs \<Rightarrow> bool" where
  "codecs_ok N cd \<longleftrightarrow> 1 < N \<and> nested_codec (\<lambda>_. True) (enc_u64 cd) (dec_u64 cd) \<and>
     nested_codec (\<lambda>_. True) (enc_usize cd) (dec_usize cd) \<and>
     nested_codec (\<lambda>z. z < N) (enc_biguint cd) (dec_biguint cd)"

lemma codecs_okD:
  assumes "codecs_ok N cd"
  shows "reads_back (enc_u64 cd x) (dec_u64 cd) x" "reads_back (enc_usize cd y) (dec_usize cd) y"
    "z < N \<Longrightarrow> reads_back (enc_biguint cd z) (dec_biguint cd) z"
  using assms nested_codec.reads [of "\<lambda>_. True" "enc_u64 cd" "dec_u64 cd"]
    nested_codec.reads [of "\<lambda>_. True" "enc_usize cd" "dec_usize cd"]
    nested_codec.reads [of "\<lambda>z. z < N" "enc_biguint cd" "dec_biguint cd"]
  by (simp_all add: codecs_ok_def)

text \<open>A sequence of encoders reads back step by step: what the first one wrote, then the rest.\<close>

lemma reads_back_Cons:
  assumes "reads_back r d x" and "reads_back (enc_all rs) (f x) y"
    and "\<And>input. dec input = bind_dec (d input) (\<lambda>(x, rest). f x rest)"
  shows "reads_back (enc_all (r # rs)) dec y"
  using assms(1,2) by (elim reads_backE) (simp add: assms(3))

text \<open>A discriminant in front of one field.\<close>

lemma reads_back_tagged:
  assumes "reads_back r d x" and "\<And>input. dec (b # input) = bind_dec (d input) (\<lambda>(x, rest). Inr (f x, rest))"
  shows "reads_back (enc_all [Inr [b], r]) dec (f x)"
  using assms(1) by (elim reads_backE) (simp add: assms(2))

section \<open>Fund types and descriptions\<close>

datatype old_fund_type = OldWithdrawOnly | OldWaiting | OldActive | OldUnStaked | OldDeferredPayment

datatype old_fund_description =
    OldFdWithdrawOnly
  | OldFdWaiting u64
  | OldFdActive
  | OldFdUnStaked u64
  | OldFdDeferredPayment u64

definition DISCR_WITHDRAW_ONLY :: u8 where "DISCR_WITHDRAW_ONLY = 0"
definition DISCR_WAITING :: u8 where "DISCR_WAITING = 1"
definition DISCR_PENDING_ACT :: u8 where "DISCR_PENDING_ACT = 2"
definition DISCR_ACTIVE_FAILED :: u8 where "DISCR_ACTIVE_FAILED = 3"
definition DISCR_ACTIVE :: u8 where "DISCR_ACTIVE = 4"
definition DISCR_UNSTAKED :: u8 where "DISCR_UNSTAKED = 5"
definition DISCR_DEF_PAYMENT :: u8 where "DISCR_DEF_PAYMENT = 6"

lemmas discriminants = DISCR_WITHDRAW_ONLY_def DISCR_WAITING_def DISCR_ACTIVE_def DISCR_UNSTAKED_def DISCR_DEF_PAYMENT_def

fun old_fund_type_of :: "old_fund_description \<Rightarrow> old_fund_type" where
  "old_fund_type_of OldFdWithdrawOnly = OldWithdrawOnly"
| "old_fund_type_of (OldFdWaiting created) = OldWaiting"
| "old_fund_type_of OldFdActive = OldActive"
| "old_fund_type_of (OldFdUnStaked created) = OldUnStaked"
| "old_fund_type_of (OldFdDeferredPayment created) = OldDeferredPayment"

fun old_fund_type_discriminant :: "old_fund_type \<Rightarrow> u8" where
  "old_fund_type_discriminant OldWithdrawOnly = DISCR_WITHDRAW_ONLY"
| "old_fund_type_discriminant OldWaiting = DISCR_WAITING"
| "old_fund_type_discriminant OldActive = DISCR_ACTIVE"
| "old_fund_type_discriminant OldUnStaked = DISCR_UNSTAKED"
| "old_fund_type_discriminant OldDeferredPayment = DISCR_DEF_PAYMENT"

definition old_fund_discriminant :: "old_fund_description \<Rightarrow> u8" where
  "old_fund_discriminant d = old_fund_type_discriminant (old_fund_type_of d)"

definition fund_description_dep_encode :: "'e number_codecs \<Rightarrow> old_fund_description \<Rightarrow> 'e encoded" where
  "fund_description_dep_encode cd d =
     (case d of
        OldFdWithdrawOnly \<Rightarrow> Inr [DISCR_WITHDRAW_ONLY]
      | OldFdWaiting created \<Rightarrow> enc_all [Inr [DISCR_WAITING], enc_u64 cd created]
      | OldFdActive \<Rightarrow> Inr [DISCR_ACTIVE]
      | OldFdUnStaked created \<Rightarrow> enc_all [Inr [DISCR_UNSTAKED], enc_u64 cd created]
      | OldFdDeferredPayment created \<Rightarrow> enc_all [Inr [DISCR_DEF_PAYMENT], enc_u64 cd created])"

definition fund_description_dep_decode :: "'e number_codecs \<Rightarrow> old_fund_description decoder" where
  "fund_description_dep_decode cd input =
     bind_dec (read_byte input) (\<lambda>(discriminant, rest).
       if discriminant = DISCR_WITHDRAW_ONLY then Inr (OldFdWithdrawOnly, rest)
       else if discriminant = DISCR_WAITING then
         bind_dec (dec_u64 cd rest) (\<lambda>(created, rest'). Inr (OldFdWaiting created, rest'))
       else if discriminant = DISCR_ACTIVE then Inr (OldFdActive, rest)
       else if discriminant = DISCR_UNSTAKED then
         bind_dec (dec_u64 cd rest) (\<lambda>(created, rest'). Inr (OldFdUnStaked created, rest'))
       else if discriminant = DISCR_DEF_PAYMENT then
         bind_dec (dec_u64 cd rest) (\<lambda>(created, rest'). Inr (OldFdDeferredPayment created, rest'))
       else Inl INVALID_VALUE)"

definition fund_type_dep_encode :: "old_fund_type \<Rightarrow> 'e encoded" where
  "fund_type_dep_encode t =
     (case t of
        OldWithdrawOnly \<Rightarrow> Inr [DISCR_WITHDRAW_ONLY]
      | OldWaiting \<Rightarrow> Inr [DISCR_WAITING]
      | OldActive \<Rightarrow> Inr [DISCR_ACTIVE]
      | OldUnStaked \<Rightarrow> Inr [DISCR_UNSTAKED]
      | OldDeferredPayment \<Rightarrow> Inr [DISCR_DEF_PAYMENT])"

definition fund_type_dep_decode :: "old_fund_type decoder" where
  "fund_type_dep_decode input =
     bind_dec (read_byte input) (\<lambda>(discriminant, rest).
       if discriminant = DISCR_WITHDRAW_ONLY then Inr (OldWithdrawOnly, rest)
       else if discriminant = DISCR_WAITING then Inr (OldWaiting, rest)
       else if discriminant = DISCR_ACTIVE then Inr (OldActive, rest)
       else if discriminant = DISCR_UNSTAKED then Inr (OldUnStaked, rest)
       else if discriminant = DISCR_DEF_PAYMENT then Inr (OldDeferredPayment, rest)
       else Inl INVALID_VALUE)"

interpretation fund_type_codec: nested_codec "\<lambda>_. True" fund_type_dep_encode fund_type_dep_decode
proof
  show "reads_back (fund_type_dep_encode x) fund_type_dep_decode x" for x
    by (cases x) (simp_all add: fund_type_dep_decode_def fund_type_dep_encode_def discriminants)
qed

lemma fund_description_codec:
  assumes "codecs_ok N cd"
  shows "nested_codec (\<lambda>_. True) (fund_description_dep_encode cd) (fund_description_dep_decode cd)"
proof
  note tagged = reads_back_tagged [OF codecs_okD(1) [OF assms]]
  show "reads_back (fund_description_dep_encode cd x) (fund_description_dep_decode cd) x" for x
    by (cases x; simp only: fund_description_dep_encode_def old_fund_description.case; (rule tagged)?)
      (simp_all add: fund_description_dep_decode_def discriminants)
qed

section \<open>Fund items and list heads\<close>

record old_fund_item =
  oi_fund_desc :: old_fund_description
  oi_user_id :: u32
  oi_balance :: nat
  oi_type_list_next :: u32
  oi_type_list_prev :: u32
  oi_user_list_next :: u32
  oi_user_list_prev :: u32

definition fund_item_is_zero_value :: "old_fund_item \<Rightarrow> bool" where
  "fund_item_is_zero_value it \<longleftrightarrow> oi_balance it = 0 \<and> oi_type_list_next it = 0 \<and> oi_type_list_prev it = 0 \<and>
     oi_user_list_next it = 0 \<and> oi_user_list_prev it = 0"

definition fund_item_zero_value :: old_fund_item where
  "fund_item_zero_value = \<lparr>oi_fund_desc = OldFdWithdrawOnly, oi_user_id = 0, oi_balance = 0, oi_type_list_next = 0,
     oi_type_list_prev = 0, oi_user_list_next = 0, oi_user_list_prev = 0\<rparr>"

definition fund_item_dep_encode :: "'e number_codecs \<Rightarrow> old_fund_item \<Rightarrow> 'e encoded" where
  "fund_item_dep_encode cd it = enc_all
     [fund_description_dep_encode cd (oi_fund_desc it), enc_usize cd (oi_user_id it), enc_biguint cd (oi_balance it),
      enc_usize cd (oi_type_list_next it), enc_usize cd (oi_type_list_prev it),
      enc_usize cd (oi_user_list_next it), enc_usize cd (oi_user_list_prev it)]"

definition fund_item_dep_decode :: "'e number_codecs \<Rightarrow> old_fund_item decoder" where
  "fund_item_dep_decode cd input =
     bind_dec (fund_description_dep_decode cd input) (\<lambda>(fund_desc, r1).
     bind_dec (dec_usize cd r1) (\<lambda>(user_id, r2).
     bind_dec (dec_biguint cd r2) (\<lambda>(balance, r3).
     bind_dec (dec_usize cd r3) (\<lambda>(type_list_next, r4).
     bind_dec (dec_usize cd r4) (\<lambda>(type_list_prev, r5).
     bind_dec (dec_usize cd r5) (\<lambda>(user_list_next, r6).
     bind_dec (dec_usize cd r6) (\<lambda>(user_list_prev, r7).
       Inr (\<lparr>oi_fund_desc = fund_desc, oi_user_id = user_id, oi_balance = balance,
              oi_type_list_next = type_list_next, oi_type_list_prev = type_list_prev,
              oi_user_list_next = user_list_next, oi_user_list_prev = user_list_prev\<rparr>, r7))))))))"

definition fund_item_top_encode :: "'e number_codecs \<Rightarrow> ('e encoded \<Rightarrow> 'e encoded) \<Rightarrow> old_fund_item \<Rightarrow> 'e encoded" where
  "fund_item_top_encode cd to_top it =
     (if fund_item_is_zero_value it then Inr [] else to_top (fund_item_dep_encode cd it))"

definition fund_item_top_decode ::
  "'e number_codecs \<Rightarrow> (old_fund_item decoder \<Rightarrow> u8 list \<Rightarrow> old_fund_item decoded) \<Rightarrow> u8 list \<Rightarrow> old_fund_item decoded" where
  "fund_item_top_decode cd from_nested input =
     (if length input = 0 then Inr fund_item_zero_value else from_nested (fund_item_dep_decode cd) input)"

record old_funds_list_info =
  ol_total_balance :: nat
  ol_first :: u32
  ol_last :: u32

definition funds_list_is_empty :: "old_funds_list_info \<Rightarrow> bool" where
  "funds_list_is_empty l \<longleftrightarrow> ol_total_balance l = 0 \<and> ol_first l = 0 \<and> ol_last l = 0"

definition funds_list_zero_value :: old_funds_list_info where
  "funds_list_zero_value = \<lparr>ol_total_balance = 0, ol_first = 0, ol_last = 0\<rparr>"

definition funds_list_dep_encode :: "'e number_codecs \<Rightarrow> old_funds_list_info \<Rightarrow> 'e encoded" where
  "funds_list_dep_encode cd l =
     enc_all [enc_biguint cd (ol_total_balance l), enc_usize cd (ol_first l), enc_usize cd (ol_last l)]"

definition funds_list_dep_decode :: "'e number_codecs \<Rightarrow> old_funds_list_info decoder" where
  "funds_list_dep_decode cd input =
     bind_dec (dec_biguint cd input) (\<lambda>(total_balance, r1).
     bind_dec (dec_usize cd r1) (\<lambda>(first, r2).
     bind_dec (dec_usize cd r2) (\<lambda>(last, r3).
       Inr (\<lparr>ol_total_balance = total_balance, ol_first = first, ol_last = last\<rparr>, r3))))"

definition funds_list_top_encode :: "'e number_codecs \<Rightarrow> ('e encoded \<Rightarrow> 'e encoded) \<Rightarrow> old_funds_list_info \<Rightarrow> 'e encoded" where
  "funds_list_top_encode cd to_top l = (if funds_list_is_empty l then Inr [] else to_top (funds_list_dep_encode cd l))"

definition funds_list_top_decode ::
  "'e number_codecs \<Rightarrow> (old_funds_list_info decoder \<Rightarrow> u8 list \<Rightarrow> old_funds_list_info decoded) \<Rightarrow> u8 list
     \<Rightarrow> old_funds_list_info decoded" where
  "funds_list_top_decode cd from_nested input =
     (if length input = 0 then Inr funds_list_zero_value else from_nested (funds_list_dep_decode cd) input)"

lemma fund_item_codec:
  assumes "codecs_ok N cd"
  shows "nested_codec (\<lambda>it. oi_balance it < N) (fund_item_dep_encode cd) (fund_item_dep_decode cd)"
proof
  note numbers = codecs_okD [OF assms] and desc = nested_codec.reads [OF fund_description_codec [OF assms] TrueI]
  show "reads_back (fund_item_dep_encode cd it) (fund_item_dep_decode cd) it" if "oi_balance it < N" for it
    unfolding fund_item_dep_encode_def
    by (rule reads_back_Cons [OF desc _ fund_item_dep_decode_def], rule reads_back_Cons [OF numbers(2) _ refl],
        rule reads_back_Cons [OF numbers(3) [OF that] _ refl], (rule reads_back_Cons [OF numbers(2) _ refl])+) simp
qed

lemma funds_list_codec:
  assumes "codecs_ok N cd"
  shows "nested_codec (\<lambda>l. ol_total_balance l < N) (funds_list_dep_encode cd) (funds_list_dep_decode cd)"
proof
  note numbers = codecs_okD [OF assms]
  show "reads_back (funds_list_dep_encode cd l) (funds_list_dep_decode cd) l" if "ol_total_balance l < N" for l
    unfolding funds_list_dep_encode_def
    by (rule reads_back_Cons [OF numbers(3) [OF that] _ funds_list_dep_decode_def],
        (rule reads_back_Cons [OF numbers(2) _ refl])+) simp
qed

section \<open>Node states\<close>

datatype old_node_state =
    OldInactive
  | OldPendingActivation
  | OldActivationFailed
  | OldNodeActive
  | OldPendingDeactivation
  | OldUnBondPeriod u64
  | OldPendingUnBond u64
  | OldRemoved

fun old_node_discriminant :: "old_node_state \<Rightarrow> u8" where
  "old_node_discriminant OldInactive = 0"
| "old_node_discriminant OldPendingActivation = 1"
| "old_node_discriminant OldActivationFailed = 2"
| "old_node_discriminant OldNodeActive = 3"
| "old_node_discriminant OldPendingDeactivation = 4"
| "old_node_discriminant (OldUnBondPeriod started) = 5"
| "old_node_discriminant (OldPendingUnBond unbond_started) = 6"
| "old_node_discriminant OldRemoved = 7"

definition node_state_dep_encode :: "'e number_codecs \<Rightarrow> old_node_state \<Rightarrow> 'e encoded" where
  "node_state_dep_encode cd st =
     (case st of
        OldInactive \<Rightarrow> Inr [0]
      | OldPendingActivation \<Rightarrow> Inr [1]
      | OldActivationFailed \<Rightarrow> Inr [2]
      | OldNodeActive \<Rightarrow> Inr [3]
      | OldPendingDeactivation \<Rightarrow> Inr [4]
      | OldUnBondPeriod started \<Rightarrow> enc_all [Inr [5], enc_u64 cd started]
      | OldPendingUnBond unbond_started \<Rightarrow> enc_all [Inr [6], enc_u64 cd unbond_started]
      | OldRemoved \<Rightarrow> Inr [7])"

definition node_state_dep_decode :: "'e number_codecs \<Rightarrow> old_node_state decoder" where
  "node_state_dep_decode cd input =
     bind_dec (read_byte input) (\<lambda>(discriminant, rest).
       if discriminant = 0 then Inr (OldInactive, rest)
       else if discriminant = 1 then Inr (OldPendingActivation, rest)
       else if discriminant = 2 then Inr (OldActivationFailed, rest)
       else if discriminant = 3 then Inr (OldNodeActive, rest)
       else if discriminant = 4 then Inr (OldPendingDeactivation, rest)
       else if discriminant = 5 then
         bind_dec (dec_u64 cd rest) (\<lambda>(started, rest'). Inr (OldUnBondPeriod started, rest'))
       else if discriminant = 6 then
         bind_dec (dec_u64 cd rest) (\<lambda>(unbond_started, rest'). Inr (OldPendingUnBond unbond_started, rest'))
       else if discriminant = 7 then Inr (OldRemoved, rest)
       else Inl INVALID_VALUE)"

lemma node_state_codec:
  assumes "codecs_ok N cd"
  shows "nested_codec (\<lambda>_. True) (node_state_dep_encode cd) (node_state_dep_decode cd)"
proof
  note tagged = reads_back_tagged [OF codecs_okD(1) [OF assms]]
  show "reads_back (node_state_dep_encode cd x) (node_state_dep_decode cd) x" for x
    by (cases x; simp only: node_state_dep_encode_def old_node_state.case; (rule tagged)?)
      (simp_all add: node_state_dep_decode_def)
qed

section \<open>Decoders that leave through exit\<close>

text \<open>
  In the second variant of a decoder an error does not return: \<open>exit\<close> is called and never comes
  back. The caller goes on with what was read: the variants take the rest of the computation as
  their last argument.
\<close>

type_synonym ('a, 'r) exit_decoder = "(decode_error \<Rightarrow> 'r) \<Rightarrow> u8 list \<Rightarrow> ('a \<Rightarrow> u8 list \<Rightarrow> 'r) \<Rightarrow> 'r"

record 'r exit_codecs =
  xdec_u64 :: "(u64, 'r) exit_decoder"
  xdec_usize :: "(u32, 'r) exit_decoder"
  xdec_biguint :: "(nat, 'r) exit_decoder"

definition read_byte_or_exit :: "(u8, 'r) exit_decoder" where
  "read_byte_or_exit exit input k = (case input of [] \<Rightarrow> exit INPUT_TOO_SHORT | b # rest \<Rightarrow> k b rest)"

definition fund_description_dep_decode_or_exit :: "'r exit_codecs \<Rightarrow> (old_fund_description, 'r) exit_decoder" where
  "fund_description_dep_decode_or_exit xd exit input k =
     read_byte_or_exit exit input (\<lambda>discriminant rest.
       if discriminant = DISCR_WITHDRAW_ONLY then k OldFdWithdrawOnly rest
       else if discriminant = DISCR_WAITING then xdec_u64 xd exit rest (\<lambda>created. k (OldFdWaiting created))
       else if discriminant = DISCR_ACTIVE then k OldFdActive rest
       else if discriminant = DISCR_UNSTAKED then xdec_u64 xd exit rest (\<lambda>created. k (OldFdUnStaked created))
       else if discriminant = DISCR_DEF_PAYMENT then xdec_u64 xd exit rest (\<lambda>created. k (OldFdDeferredPayment created))
       else exit INVALID_VALUE)"

definition fund_type_dep_decode_or_exit :: "(old_fund_type, 'r) exit_decoder" where
  "fund_type_dep_decode_or_exit exit input k =
     read_byte_or_exit exit input (\<lambda>discriminant rest.
       if discriminant = DISCR_WITHDRAW_ONLY then k OldWithdrawOnly rest
       else if discriminant = DISCR_WAITING then k OldWaiting rest
       else if discriminant = DISCR_ACTIVE then k OldActive rest
       else if discriminant = DISCR_UNSTAKED then k OldUnStaked rest
       else if discriminant = DISCR_DEF_PAYMENT then k OldDeferredPayment rest
       else exit INVALID_VALUE)"

definition fund_item_dep_decode_or_exit :: "'r exit_codecs \<Rightarrow> (old_fund_item, 'r) exit_decoder" where
  "fund_item_dep_decode_or_exit xd exit input k =
     fund_description_dep_decode_or_exit xd exit input (\<lambda>fund_desc r1.
     xdec_usize xd exit r1 (\<lambda>user_id r2.
     xdec_biguint xd exit r2 (\<lambda>balance r3.
     xdec_usize xd exit r3 (\<lambda>type_list_next r4.
     xdec_usize xd exit r4 (\<lambda>type_list_prev r5.
     xdec_usize xd exit r5 (\<lambda>user_list_next r6.
     xdec_usize xd exit r6 (\<lambda>user_list_prev r7.
       k \<lparr>oi_fund_desc = fund_desc, oi_user_id = user_id, oi_balance = balance,
          oi_type_list_next = type_list_next, oi_type_list_prev = type_list_prev,
          oi_user_list_next = user_list_next, oi_user_list_prev = user_list_prev\<rparr> r7)))))))"

definition funds_list_dep_decode_or_exit :: "'r exit_codecs \<Rightarrow> (old_funds_list_info, 'r) exit_decoder" where
  "funds_list_dep_decode_or_exit xd exit input k =
     xdec_biguint xd exit input (\<lambda>total_balance r1.
     xdec_usize xd exit r1 (\<lambda>first r2.
     xdec_usize xd exit r2 (\<lambda>last r3.
       k \<lparr>ol_total_balance = total_balance, ol_first = first, ol_last = last\<rparr> r3)))"

definition node_state_dep_decode_or_exit :: "'r exit_codecs \<Rightarrow> (old_node_state, 'r) exit_decoder" where
  "node_state_dep_decode_or_exit xd exit input k =
     read_byte_or_exit exit input (\<lambda>discriminant rest.
       if discriminant = 0 then k OldInactive rest
       else if discriminant = 1 then k OldPendingActivation rest
       else if discriminant = 2 then k OldActivationFailed rest
       else if discriminant = 3 then k OldNodeActive rest
       else if discriminant = 4 then k OldPendingDeactivation rest
       else if discriminant = 5 then xdec_u64 xd exit rest (\<lambda>started. k (OldUnBondPeriod started))
       else if discriminant = 6 then xdec_u64 xd exit rest (\<lambda>unbond_started. k (OldPendingUnBond unbond_started))
       else if discriminant = 7 then k OldRemoved rest
       else exit INVALID_VALUE)"

definition finish :: "(decode_error \<Rightarrow> 'r) \<Rightarrow> ('a \<times> u8 list) decoded \<Rightarrow> ('a \<Rightarrow> u8 list \<Rightarrow> 'r) \<Rightarrow> 'r" where
  "finish exit r k = (case r of Inl e \<Rightarrow> exit e | Inr (x, rest) \<Rightarrow> k x rest)"

lemma finish_simps [simp]:
  "finish exit (Inl e) k = exit e" "finish exit (Inr (x, rest)) k = k x rest"
  "finish exit (bind_dec r f) k = (case r of Inl e \<Rightarrow> exit e | Inr x \<Rightarrow> finish exit (f x) k)"
  "finish exit (if b then r else r') k = (if b then finish exit r k else finish exit r' k)"
  by (simp_all add: finish_def bind_dec_def split: sum.splits)

definition exits_ok :: "'e number_codecs \<Rightarrow> 'r exit_codecs \<Rightarrow> bool" where
  "exits_ok cd xd \<longleftrightarrow> (\<forall>exit input k. xdec_u64 xd exit input k = finish exit (dec_u64 cd input) k) \<and>
     (\<forall>exit input k. xdec_usize xd exit input k = finish exit (dec_usize cd input) k) \<and>
     (\<forall>exit input k. xdec_biguint xd exit input k = finish exit (dec_biguint cd input) k)"

lemma exits_okD:
  assumes "exits_ok cd xd"
  shows "xdec_u64 xd exit input k = finish exit (dec_u64 cd input) k"
    "xdec_usize xd exit input k' = finish exit (dec_usize cd input) k'"
    "xdec_biguint xd exit input k'' = finish exit (dec_biguint cd input) k''"
  using assms unfolding exits_ok_def by blast+

lemma read_byte_exit: "read_byte_or_exit exit input k = finish exit (read_byte input) k"
  by (simp add: read_byte_or_exit_def read_byte_def finish_def split: list.splits)

lemma finish_bind: "finish exit (bind_dec r (\<lambda>(x, rest). f x rest)) k = finish exit r (\<lambda>x rest. finish exit (f x rest) k)"
  by (simp add: finish_def bind_dec_def split: sum.splits prod.splits)

lemma variants_agree:
  assumes "exits_ok cd xd"
  shows "fund_description_dep_decode_or_exit xd exit input k = finish exit (fund_description_dep_decode cd input) k"
    and "fund_type_dep_decode_or_exit exit input k' = finish exit (fund_type_dep_decode input) k'"
    and "fund_item_dep_decode_or_exit xd exit input l = finish exit (fund_item_dep_decode cd input) l"
    and "funds_list_dep_decode_or_exit xd exit input m = finish exit (funds_list_dep_decode cd input) m"
    and "node_state_dep_decode_or_exit xd exit input n = finish exit (node_state_dep_decode cd input) n"
proof -
  note exits = exits_okD [OF assms] read_byte_exit
  show desc: "fund_description_dep_decode_or_exit xd exit input k = finish exit (fund_description_dep_decode cd input) k" for input k
    by (simp add: fund_description_dep_decode_or_exit_def fund_description_dep_decode_def exits finish_bind
        del: finish_simps(3) cong: if_cong)
  show "fund_type_dep_decode_or_exit exit input k' = finish exit (fund_type_dep_decode input) k'"
    by (simp add: fund_type_dep_decode_or_exit_def fund_type_dep_decode_def exits finish_bind del: finish_simps(3) cong: if_cong)
  show "fund_item_dep_decode_or_exit xd exit input l = finish exit (fund_item_dep_decode cd input) l"
    by (simp add: fund_item_dep_decode_or_exit_def fund_item_dep_decode_def exits desc finish_bind del: finish_simps(3))
  show "funds_list_dep_decode_or_exit xd exit input m = finish exit (funds_list_dep_decode cd input) m"
    by (simp add: funds_list_dep_decode_or_exit_def funds_list_dep_decode_def exits finish_bind del: finish_simps(3))
  show "node_state_dep_decode_or_exit xd exit input n = finish exit (node_state_dep_decode cd input) n"
    by (simp add: node_state_dep_decode_or_exit_def node_state_dep_decode_def exits finish_bind del: finish_simps(3) cong: if_cong)
qed

section \<open>Properties\<close>

text \<open>The position of an old fund type or node state among the constructors of the current one.\<close>

fun current_fund_type :: "old_fund_type \<Rightarrow> fund_type" where
  "current_fund_type OldWithdrawOnly = WithdrawOnly"
| "current_fund_type OldWaiting = Waiting"
| "current_fund_type OldActive = Active"
| "current_fund_type OldUnStaked = UnStaked"
| "current_fund_type OldDeferredPayment = DeferredPayment"

definition current_layout :: "fund_type list" where
  "current_layout = [WithdrawOnly, Waiting, PendingAct, ActiveFailed, Active, UnStaked, DeferredPayment]"

fun current_node_state :: "old_node_state \<Rightarrow> node_state" where
  "current_node_state OldInactive = Inactive"
| "current_node_state OldPendingActivation = PendingActivation"
| "current_node_state OldActivationFailed = ActivationFailed"
| "current_node_state OldNodeActive = NodeActive"
| "current_node_state OldPendingDeactivation = PendingDeactivation"
| "current_node_state (OldUnBondPeriod started) = UnBondPeriod started"
| "current_node_state (OldPendingUnBond unbond_started) = PendingUnBond unbond_started"
| "current_node_state OldRemoved = Removed"

lemma encodings_nonempty:
  assumes "codecs_ok N cd"
  shows "oi_balance it < N \<Longrightarrow> fund_item_dep_encode cd it = Inr bs \<Longrightarrow> bs \<noteq> []"
    and "ol_total_balance l < N \<Longrightarrow> funds_list_dep_encode cd l = Inr bs \<Longrightarrow> bs \<noteq> []"
proof -
  have "it \<noteq> it\<lparr>oi_user_id := oi_user_id it + 1\<rparr>" "l \<noteq> l\<lparr>ol_first := ol_first l + 1\<rparr>"
    by (cases it; simp) (cases l; simp)
  then show "oi_balance it < N \<Longrightarrow> fund_item_dep_encode cd it = Inr bs \<Longrightarrow> bs \<noteq> []"
    and "ol_total_balance l < N \<Longrightarrow> funds_list_dep_encode cd l = Inr bs \<Longrightarrow> bs \<noteq> []"
    using nested_codec.enc_nonempty [OF fund_item_codec [OF assms], of it "it\<lparr>oi_user_id := oi_user_id it + 1\<rparr>" bs]
      nested_codec.enc_nonempty [OF funds_list_codec [OF assms], of l "l\<lparr>ol_first := ol_first l + 1\<rparr>" bs] by simp_all
qed

lemma zero_values: "fund_item_is_zero_value fund_item_zero_value" "funds_list_is_empty l \<longleftrightarrow> l = funds_list_zero_value"
  by (cases l; simp add: fund_item_is_zero_value_def fund_item_zero_value_def funds_list_is_empty_def
      funds_list_zero_value_def)+

text \<open>
  (C39) What the old codecs wrote can be read back. Encoding ends without an error, and decoding the encoding
  gives the value and leaves what came after it: for fund types, fund descriptions, node states, fund items and
  list heads. A stored item
  reads back as it was, except that an item without balance and links reads back as the zero
  value (its user and description are dropped); a stored list head reads back as it was. Unknown discriminants
  are errors. The discriminants are those of the current enums, in which the unused
  types are kept as placeholders.
\<close>

theorem old_codecs_roundtrip:
  fixes cd :: "'e number_codecs"
  assumes "codecs_ok N cd" and "\<And>bs. to_top (Inr bs) = Inr bs"
    and "\<And>d bs x. d bs = Inr (x, []) \<Longrightarrow> item_from_nested d bs = Inr x"
    and "\<And>d bs x. d bs = Inr (x, []) \<Longrightarrow> list_from_nested d bs = Inr x"
  shows "reads_back (fund_type_dep_encode t :: 'e encoded) fund_type_dep_decode t \<and>
    reads_back (fund_description_dep_encode cd d) (fund_description_dep_decode cd) d \<and>
    reads_back (node_state_dep_encode cd st) (node_state_dep_decode cd) st \<and>
    (oi_balance it < N \<longrightarrow> reads_back (fund_item_dep_encode cd it) (fund_item_dep_decode cd) it \<and>
       (\<exists>bs. fund_item_top_encode cd to_top it = Inr bs \<and> fund_item_top_decode cd item_from_nested bs =
         Inr (if fund_item_is_zero_value it then fund_item_zero_value else it))) \<and>
    (ol_total_balance l < N \<longrightarrow> reads_back (funds_list_dep_encode cd l) (funds_list_dep_decode cd) l \<and>
       (\<exists>bs. funds_list_top_encode cd to_top l = Inr bs \<and> funds_list_top_decode cd list_from_nested bs = Inr l)) \<and>
    (b \<notin> {0, 1, 4, 5, 6} \<longrightarrow> fund_type_dep_decode (b # rest) = Inl INVALID_VALUE \<and>
       fund_description_dep_decode cd (b # rest) = Inl INVALID_VALUE) \<and>
    (7 < b \<longrightarrow> node_state_dep_decode cd (b # rest) = Inl INVALID_VALUE) \<and>
    current_layout ! unat (old_fund_type_discriminant t) = current_fund_type t \<and>
    node_discriminant (current_node_state st) = old_node_discriminant st"
proof -
  note item = nested_codec.reads [OF fund_item_codec [OF assms(1)]]
    and list = nested_codec.reads [OF funds_list_codec [OF assms(1)]]
  have "\<exists>bs. fund_item_top_encode cd to_top it = Inr bs \<and> fund_item_top_decode cd item_from_nested bs =
      Inr (if fund_item_is_zero_value it then fund_item_zero_value else it)" if small: "oi_balance it < N"
  proof -
    obtain bs where bs: "fund_item_dep_encode cd it = Inr bs" "\<And>rest. fund_item_dep_decode cd (bs @ rest) = Inr (it, rest)"
      using item [OF small] by (rule reads_backE) blast
    have "item_from_nested (fund_item_dep_decode cd) bs = Inr it"
      using bs(2) [of "[]"] by (intro assms(3)) simp
    then show ?thesis
      using encodings_nonempty(1) [OF assms(1) small bs(1)]
      by (simp add: fund_item_top_decode_def fund_item_top_encode_def assms(2) bs(1))
  qed
  moreover have "\<exists>bs. funds_list_top_encode cd to_top l = Inr bs \<and> funds_list_top_decode cd list_from_nested bs = Inr l"
    if small: "ol_total_balance l < N"
  proof -
    obtain bs where bs: "funds_list_dep_encode cd l = Inr bs" "\<And>rest. funds_list_dep_decode cd (bs @ rest) = Inr (l, rest)"
      using list [OF small] by (rule reads_backE) blast
    have "list_from_nested (funds_list_dep_decode cd) bs = Inr l"
      using bs(2) [of "[]"] by (intro assms(4)) simp
    then show ?thesis
      using encodings_nonempty(2) [OF assms(1) small bs(1)]
      by (simp add: funds_list_top_decode_def funds_list_top_encode_def zero_values assms(2) bs(1))
  qed
  moreover have "b \<notin> {0, 1, 4, 5, 6} \<longrightarrow> fund_type_dep_decode (b # rest) = Inl INVALID_VALUE \<and>
       fund_description_dep_decode cd (b # rest) = Inl INVALID_VALUE"
    by (simp add: fund_type_dep_decode_def fund_description_dep_decode_def discriminants)
  moreover have "7 < b \<longrightarrow> node_state_dep_decode cd (b # rest) = Inl INVALID_VALUE"
    by (auto simp: node_state_dep_decode_def word_less_nat_alt)
  moreover have "current_layout ! unat (old_fund_type_discriminant t) = current_fund_type t"
    by (cases t) (simp_all add: current_layout_def discriminants)
  moreover have "node_discriminant (current_node_state st) = old_node_discriminant st"
    by (cases st) simp_all
  ultimately show ?thesis
    using item list fund_type_codec.reads nested_codec.reads [OF fund_description_codec [OF assms(1)]]
      nested_codec.reads [OF node_state_codec [OF assms(1)]] by blast
qed

text \<open>
  A big-endian codec of numbers: fixed widths, and a length in front of a big number, which has to fit into
  eight bytes.
\<close>

fun be_bytes :: "nat \<Rightarrow> nat \<Rightarrow> u8 list" where
  "be_bytes 0 n = []"
| "be_bytes (Suc k) n = be_bytes k (n div 256) @ [of_nat n]"

definition be_value :: "u8 list \<Rightarrow> nat" where
  "be_value bs = foldl (\<lambda>a b. a * 256 + unat b) 0 bs"

definition be_decode :: "nat \<Rightarrow> nat decoder" where
  "be_decode k input =
     (if length input < k then Inl INPUT_TOO_SHORT else Inr (be_value (take k input), drop k input))"

fun byte_length :: "nat \<Rightarrow> nat" where
  "byte_length n = (if n = 0 then 0 else Suc (byte_length (n div 256)))"

declare byte_length.simps [simp del]

definition big_endian :: "string number_codecs" where
  "big_endian = \<lparr>enc_u64 = (\<lambda>x. Inr (be_bytes 8 (unat x))),
     dec_u64 = (\<lambda>i. bind_dec (be_decode 8 i) (\<lambda>(n, r). Inr (of_nat n, r))),
     enc_usize = (\<lambda>x. Inr (be_bytes 4 (unat x))),
     dec_usize = (\<lambda>i. bind_dec (be_decode 4 i) (\<lambda>(n, r). Inr (of_nat n, r))),
     enc_biguint = (\<lambda>z. if byte_length z \<le> 8 then Inr (be_bytes 4 (byte_length z) @ be_bytes (byte_length z) z)
       else Inl ''number too big''),
     dec_biguint = (\<lambda>i. bind_dec (be_decode 4 i) (\<lambda>(k, r). be_decode k r))\<rparr>"

lemma be_length [simp]: "length (be_bytes k n) = k"
  by (induction k arbitrary: n) simp_all

lemma be_value_bytes: "n < 256 ^ k \<Longrightarrow> be_value (be_bytes k n) = n"
proof (induction k arbitrary: n)
  case (Suc k)
  then have "be_value (be_bytes k (n div 256)) = n div 256"
    by (intro Suc.IH) (simp add: less_mult_imp_div_less mult.commute)
  then show ?case
    by (simp add: be_value_def unat_of_nat)
qed (simp add: be_value_def)

lemma be_roundtrip: "n < 256 ^ k \<Longrightarrow> be_decode k (be_bytes k n @ rest) = Inr (n, rest)"
  by (simp add: be_decode_def be_value_bytes)

lemma byte_length_bound: "n < 256 ^ byte_length n"
proof (induction n rule: byte_length.induct)
  case (1 n)
  show ?case
  proof (cases "n = 0")
    case False
    then have "n div 256 < 256 ^ byte_length (n div 256)"
      by (rule 1)
    then show ?thesis
      using False by (simp add: byte_length.simps [of n] div_less_iff_less_mult mult.commute)
  qed (simp add: byte_length.simps)
qed

lemma byte_length_le: "n < 256 ^ k \<Longrightarrow> byte_length n \<le> k"
proof (induction k arbitrary: n)
  case (Suc k)
  then have "byte_length (n div 256) \<le> k"
    by (intro Suc.IH) (simp add: less_mult_imp_div_less mult.commute)
  then show ?case
    by (simp add: byte_length.simps [of n])
qed (simp add: byte_length.simps)

lemma big_endian_ok: "codecs_ok (2 ^ 64) big_endian"
proof -
  have u64: "be_decode 8 (be_bytes 8 (unat x) @ rest) = Inr (unat x, rest)" for x :: u64 and rest
    by (intro be_roundtrip unsigned_less [THEN order_less_le_trans]) simp
  have u32: "be_decode 4 (be_bytes 4 (unat x) @ rest) = Inr (unat x, rest)" for x :: u32 and rest
    by (intro be_roundtrip unsigned_less [THEN order_less_le_trans]) simp
  have big: "be_decode 4 (be_bytes 4 (byte_length z) @ rest) = Inr (byte_length z, rest)" if "z < 2 ^ 64" for z rest
    using byte_length_le [of z 8] that by (intro be_roundtrip) simp
  have le: "byte_length z \<le> 8" if "z < 2 ^ 64" for z
    using byte_length_le [of z 8] that by simp
  show ?thesis
    unfolding codecs_ok_def nested_codec_def
    by (auto simp: big_endian_def u64 u32 big le be_roundtrip [OF byte_length_bound])
qed

definition sample_from_nested :: "'a decoder \<Rightarrow> u8 list \<Rightarrow> 'a decoded" where
  "sample_from_nested d bs = bind_dec (d bs) (\<lambda>(x, rest). if rest = [] then Inr x else Inl INPUT_TOO_LONG)"

definition sample_item :: old_fund_item where
  "sample_item = \<lparr>oi_fund_desc = OldFdWaiting 7, oi_user_id = 2, oi_balance = 1000, oi_type_list_next = 0,
     oi_type_list_prev = 3, oi_user_list_next = 0, oi_user_list_prev = 1\<rparr>"

theorem old_codecs_roundtrip_witness:
  "(\<exists>bs. fund_item_top_encode big_endian id sample_item = Inr bs \<and>
      fund_item_top_decode big_endian sample_from_nested bs = Inr sample_item) \<and>
    fund_type_dep_decode [2] = Inl INVALID_VALUE"
  using old_codecs_roundtrip [OF big_endian_ok, of id sample_from_nested sample_from_nested _ _ _ sample_item _ 2]
  by (simp add: sample_from_nested_def sample_item_def fund_item_is_zero_value_def)

text \<open>
  The two variants of each decoder agree: on every input the variant that leaves through \<open>exit\<close> goes on
  with the value and the rest that the other variant returns, and leaves with the error the other
  variant returns.
\<close>

theorem old_decoder_variants_agree:
  assumes "exits_ok cd xd"
  shows "fund_description_dep_decode_or_exit xd exit input k1 =
      (case fund_description_dep_decode cd input of Inl e \<Rightarrow> exit e | Inr (x, rest) \<Rightarrow> k1 x rest) \<and>
    fund_type_dep_decode_or_exit exit input k2 =
      (case fund_type_dep_decode input of Inl e \<Rightarrow> exit e | Inr (x, rest) \<Rightarrow> k2 x rest) \<and>
    fund_item_dep_decode_or_exit xd exit input k3 =
      (case fund_item_dep_decode cd input of Inl e \<Rightarrow> exit e | Inr (x, rest) \<Rightarrow> k3 x rest) \<and>
    funds_list_dep_decode_or_exit xd exit input k4 =
      (case funds_list_dep_decode cd input of Inl e \<Rightarrow> exit e | Inr (x, rest) \<Rightarrow> k4 x rest) \<and>
    node_state_dep_decode_or_exit xd exit input k5 =
      (case node_state_dep_decode cd input of Inl e \<Rightarrow> exit e | Inr (x, rest) \<Rightarrow> k5 x rest)"
  using variants_agree [OF assms] unfolding finish_def by blast

definition big_endian_exits :: "'r exit_codecs" where
  "big_endian_exits = \<lparr>xdec_u64 = (\<lambda>exit input. finish exit (dec_u64 big_endian input)),
     xdec_usize = (\<lambda>exit input. finish exit (dec_usize big_endian input)),
     xdec_biguint = (\<lambda>exit input. finish exit (dec_biguint big_endian input))\<rparr>"

lemma big_endian_exits_ok: "exits_ok big_endian big_endian_exits"
  by (simp add: exits_ok_def big_endian_exits_def)

theorem old_decoder_variants_agree_witness:
  "fund_type_dep_decode_or_exit Inl [4, 9] (\<lambda>t rest. Inr (t, rest)) = Inr (OldActive, [9]) \<and>
    node_state_dep_decode_or_exit (big_endian_exits :: (decode_error + old_node_state \<times> u8 list) exit_codecs) Inl [8]
      (\<lambda>st rest. Inr (st, rest)) = Inl INVALID_VALUE"
proof -
  have "fund_type_dep_decode_or_exit Inl [4, 9] (\<lambda>t rest. Inr (t, rest)) = fund_type_dep_decode [4, 9]"
    using old_decoder_variants_agree [OF big_endian_exits_ok, of Inl "[4, 9]" _ "\<lambda>t rest. Inr (t, rest)"]
    by (simp split: sum.splits)
  moreover have "node_state_dep_decode_or_exit (big_endian_exits :: (decode_error + old_node_state \<times> u8 list) exit_codecs)
      Inl [8] (\<lambda>st rest. Inr (st, rest)) = node_state_dep_decode big_endian [8]"
    using old_decoder_variants_agree [OF big_endian_exits_ok, of Inl "[8]" _ _ _ _ "\<lambda>st rest. Inr (st, rest)"]
    by (simp split: sum.splits)
  ultimately show ?thesis
    by (simp add: fund_type_dep_decode_def node_state_dep_decode_def discriminants)
qed

end
