(* ===== verification/Old_Exits.thy ===== *)
theory Old_Exits
  imports Old_Serialization
begin

text \<open>
  The rest of the old codecs: the classification of the old fund types, the top-level codecs that
  take the step from the nested ones, the encoders and the top-level codecs that leave through
  \<open>exit\<close>, and the keys and signatures of nodes (\<^verbatim>\<open>node-storage/fuzz/old_serialization/bls_key.rs\<close>,
  \<^verbatim>\<open>bls_sig.rs\<close>).
\<close>

section \<open>Classification of fund types\<close>

definition OLD_ALL_TYPES :: "old_fund_type list" where
  "OLD_ALL_TYPES = [OldWithdrawOnly, OldWaiting, OldActive, OldUnStaked, OldDeferredPayment]"

definition NR_DISCRIMINANTS :: u8 where "NR_DISCRIMINANTS = 7"

definition old_allow_coalesce :: "old_fund_type \<Rightarrow> bool" where
  "old_allow_coalesce t =
     (case t of OldWithdrawOnly \<Rightarrow> True | OldDeferredPayment \<Rightarrow> True | _ \<Rightarrow> False)"

definition old_is_stake :: "old_fund_type \<Rightarrow> bool" where
  "old_is_stake t = (case t of OldWaiting \<Rightarrow> True | OldActive \<Rightarrow> True | OldUnStaked \<Rightarrow> True | _ \<Rightarrow> False)"

definition old_funds_in_contract :: "old_fund_type \<Rightarrow> bool" where
  "old_funds_in_contract t =
     (case t of OldWithdrawOnly \<Rightarrow> True | OldWaiting \<Rightarrow> True | OldDeferredPayment \<Rightarrow> True | _ \<Rightarrow> False)"

section \<open>Top-level codecs\<close>

text \<open>
  \<^verbatim>\<open>top_encode_from_nested\<close> and \<^verbatim>\<open>top_decode_from_nested\<close> are functions of the framework: arguments, as for
  the fund items.
\<close>

definition fund_description_top_encode ::
  "'e number_codecs \<Rightarrow> ('e encoded \<Rightarrow> 'e encoded) \<Rightarrow> old_fund_description \<Rightarrow> 'e encoded" where
  "fund_description_top_encode cd to_top d = to_top (fund_description_dep_encode cd d)"

definition fund_description_top_decode ::
  "'e number_codecs \<Rightarrow> (old_fund_description decoder \<Rightarrow> u8 list \<Rightarrow> old_fund_description decoded) \<Rightarrow> u8 list
     \<Rightarrow> old_fund_description decoded" where
  "fund_description_top_decode cd from_nested input = from_nested (fund_description_dep_decode cd) input"

definition fund_type_top_encode :: "('e encoded \<Rightarrow> 'e encoded) \<Rightarrow> old_fund_type \<Rightarrow> 'e encoded" where
  "fund_type_top_encode to_top t = to_top (fund_type_dep_encode t)"

definition fund_type_top_decode ::
  "(old_fund_type decoder \<Rightarrow> u8 list \<Rightarrow> old_fund_type decoded) \<Rightarrow> u8 list \<Rightarrow> old_fund_type decoded" where
  "fund_type_top_decode from_nested input = from_nested fund_type_dep_decode input"

definition node_state_top_encode :: "'e number_codecs \<Rightarrow> ('e encoded \<Rightarrow> 'e encoded) \<Rightarrow> old_node_state \<Rightarrow> 'e encoded" where
  "node_state_top_encode cd to_top st = to_top (node_state_dep_encode cd st)"

definition node_state_top_decode ::
  "'e number_codecs \<Rightarrow> (old_node_state decoder \<Rightarrow> u8 list \<Rightarrow> old_node_state decoded) \<Rightarrow> u8 list \<Rightarrow> old_node_state decoded" where
  "node_state_top_decode cd from_nested input = from_nested (node_state_dep_decode cd) input"

section \<open>Encoders that leave through exit\<close>

text \<open>An encoder of this kind appends to what was written, and goes on with the whole.\<close>

type_synonym ('e, 'r) exit_writer = "('e \<Rightarrow> 'r) \<Rightarrow> u8 list \<Rightarrow> (u8 list \<Rightarrow> 'r) \<Rightarrow> 'r"

record ('e, 'r) exit_encoders =
  xenc_u64 :: "u64 \<Rightarrow> ('e, 'r) exit_writer"
  xenc_usize :: "u32 \<Rightarrow> ('e, 'r) exit_writer"
  xenc_biguint :: "nat \<Rightarrow> ('e, 'r) exit_writer"

definition fund_description_dep_encode_or_exit ::
  "('e, 'r) exit_encoders \<Rightarrow> old_fund_description \<Rightarrow> ('e, 'r) exit_writer" where
  "fund_description_dep_encode_or_exit xe d exit dest k =
     (case d of
        OldFdWithdrawOnly \<Rightarrow> k (dest @ [DISCR_WITHDRAW_ONLY])
      | OldFdWaiting created \<Rightarrow> xenc_u64 xe created exit (dest @ [DISCR_WAITING]) k
      | OldFdActive \<Rightarrow> k (dest @ [DISCR_ACTIVE])
      | OldFdUnStaked created \<Rightarrow> xenc_u64 xe created exit (dest @ [DISCR_UNSTAKED]) k
      | OldFdDeferredPayment created \<Rightarrow> xenc_u64 xe created exit (dest @ [DISCR_DEF_PAYMENT]) k)"

definition fund_type_dep_encode_or_exit :: "old_fund_type \<Rightarrow> ('e, 'r) exit_writer" where
  "fund_type_dep_encode_or_exit t exit dest k =
     (case t of
        OldWithdrawOnly \<Rightarrow> k (dest @ [DISCR_WITHDRAW_ONLY])
      | OldWaiting \<Rightarrow> k (dest @ [DISCR_WAITING])
      | OldActive \<Rightarrow> k (dest @ [DISCR_ACTIVE])
      | OldUnStaked \<Rightarrow> k (dest @ [DISCR_UNSTAKED])
      | OldDeferredPayment \<Rightarrow> k (dest @ [DISCR_DEF_PAYMENT]))"

definition fund_item_dep_encode_or_exit :: "('e, 'r) exit_encoders \<Rightarrow> old_fund_item \<Rightarrow> ('e, 'r) exit_writer" where
  "fund_item_dep_encode_or_exit xe it exit dest k =
     fund_description_dep_encode_or_exit xe (oi_fund_desc it) exit dest (\<lambda>d1.
     xenc_usize xe (oi_user_id it) exit d1 (\<lambda>d2.
     xenc_biguint xe (oi_balance it) exit d2 (\<lambda>d3.
     xenc_usize xe (oi_type_list_next it) exit d3 (\<lambda>d4.
     xenc_usize xe (oi_type_list_prev it) exit d4 (\<lambda>d5.
     xenc_usize xe (oi_user_list_next it) exit d5 (\<lambda>d6.
     xenc_usize xe (oi_user_list_prev it) exit d6 k))))))"

definition funds_list_dep_encode_or_exit ::
  "('e, 'r) exit_encoders \<Rightarrow> old_funds_list_info \<Rightarrow> ('e, 'r) exit_writer" where
  "funds_list_dep_encode_or_exit xe l exit dest k =
     xenc_biguint xe (ol_total_balance l) exit dest (\<lambda>d1.
     xenc_usize xe (ol_first l) exit d1 (\<lambda>d2.
     xenc_usize xe (ol_last l) exit d2 k))"

definition node_state_dep_encode_or_exit :: "('e, 'r) exit_encoders \<Rightarrow> old_node_state \<Rightarrow> ('e, 'r) exit_writer" where
  "node_state_dep_encode_or_exit xe st exit dest k =
     (case st of
        OldInactive \<Rightarrow> k (dest @ [0])
      | OldPendingActivation \<Rightarrow> k (dest @ [1])
      | OldActivationFailed \<Rightarrow> k (dest @ [2])
      | OldNodeActive \<Rightarrow> k (dest @ [3])
      | OldPendingDeactivation \<Rightarrow> k (dest @ [4])
      | OldUnBondPeriod started \<Rightarrow> xenc_u64 xe started exit (dest @ [5]) k
      | OldPendingUnBond unbond_started \<Rightarrow> xenc_u64 xe unbond_started exit (dest @ [6]) k
      | OldRemoved \<Rightarrow> k (dest @ [7]))"

text \<open>The top-level step of the framework gets the nested writer, and its result is what is stored.\<close>

type_synonym ('e, 'r) exit_to_top = "('e, 'r) exit_writer \<Rightarrow> ('e \<Rightarrow> 'r) \<Rightarrow> (u8 list \<Rightarrow> 'r) \<Rightarrow> 'r"
type_synonym ('a, 'r) exit_from_nested =
  "('a, 'r) exit_decoder \<Rightarrow> (decode_error \<Rightarrow> 'r) \<Rightarrow> u8 list \<Rightarrow> ('a \<Rightarrow> 'r) \<Rightarrow> 'r"

definition fund_description_top_encode_or_exit ::
  "('e, 'r) exit_encoders \<Rightarrow> ('e, 'r) exit_to_top \<Rightarrow> old_fund_description \<Rightarrow> ('e \<Rightarrow> 'r) \<Rightarrow> (u8 list \<Rightarrow> 'r) \<Rightarrow> 'r" where
  "fund_description_top_encode_or_exit xe xt d exit k = xt (fund_description_dep_encode_or_exit xe d) exit k"

definition fund_type_top_encode_or_exit ::
  "('e, 'r) exit_to_top \<Rightarrow> old_fund_type \<Rightarrow> ('e \<Rightarrow> 'r) \<Rightarrow> (u8 list \<Rightarrow> 'r) \<Rightarrow> 'r" where
  "fund_type_top_encode_or_exit xt t exit k = xt (fund_type_dep_encode_or_exit t) exit k"

definition fund_item_top_encode_or_exit ::
  "('e, 'r) exit_encoders \<Rightarrow> ('e, 'r) exit_to_top \<Rightarrow> old_fund_item \<Rightarrow> ('e \<Rightarrow> 'r) \<Rightarrow> (u8 list \<Rightarrow> 'r) \<Rightarrow> 'r" where
  "fund_item_top_encode_or_exit xe xt it exit k =
     (if fund_item_is_zero_value it then k [] else xt (fund_item_dep_encode_or_exit xe it) exit k)"

definition funds_list_top_encode_or_exit ::
  "('e, 'r) exit_encoders \<Rightarrow> ('e, 'r) exit_to_top \<Rightarrow> old_funds_list_info \<Rightarrow> ('e \<Rightarrow> 'r) \<Rightarrow> (u8 list \<Rightarrow> 'r) \<Rightarrow> 'r" where
  "funds_list_top_encode_or_exit xe xt l exit k =
     (if funds_list_is_empty l then k [] else xt (funds_list_dep_encode_or_exit xe l) exit k)"

definition node_state_top_encode_or_exit ::
  "('e, 'r) exit_encoders \<Rightarrow> ('e, 'r) exit_to_top \<Rightarrow> old_node_state \<Rightarrow> ('e \<Rightarrow> 'r) \<Rightarrow> (u8 list \<Rightarrow> 'r) \<Rightarrow> 'r" where
  "node_state_top_encode_or_exit xe xt st exit k = xt (node_state_dep_encode_or_exit xe st) exit k"

definition fund_description_top_decode_or_exit ::
  "'r exit_codecs \<Rightarrow> (old_fund_description, 'r) exit_from_nested \<Rightarrow> (decode_error \<Rightarrow> 'r) \<Rightarrow> u8 list
     \<Rightarrow> (old_fund_description \<Rightarrow> 'r) \<Rightarrow> 'r" where
  "fund_description_top_decode_or_exit xd xn exit input k = xn (fund_description_dep_decode_or_exit xd) exit input k"

definition fund_type_top_decode_or_exit ::
  "(old_fund_type, 'r) exit_from_nested \<Rightarrow> (decode_error \<Rightarrow> 'r) \<Rightarrow> u8 list \<Rightarrow> (old_fund_type \<Rightarrow> 'r) \<Rightarrow> 'r" where
  "fund_type_top_decode_or_exit xn exit input k = xn fund_type_dep_decode_or_exit exit input k"

definition fund_item_top_decode_or_exit ::
  "'r exit_codecs \<Rightarrow> (old_fund_item, 'r) exit_from_nested \<Rightarrow> (decode_error \<Rightarrow> 'r) \<Rightarrow> u8 list
     \<Rightarrow> (old_fund_item \<Rightarrow> 'r) \<Rightarrow> 'r" where
  "fund_item_top_decode_or_exit xd xn exit input k =
     (if length input = 0 then k fund_item_zero_value else xn (fund_item_dep_decode_or_exit xd) exit input k)"

definition funds_list_top_decode_or_exit ::
  "'r exit_codecs \<Rightarrow> (old_funds_list_info, 'r) exit_from_nested \<Rightarrow> (decode_error \<Rightarrow> 'r) \<Rightarrow> u8 list
     \<Rightarrow> (old_funds_list_info \<Rightarrow> 'r) \<Rightarrow> 'r" where
  "funds_list_top_decode_or_exit xd xn exit input k =
     (if length input = 0 then k funds_list_zero_value else xn (funds_list_dep_decode_or_exit xd) exit input k)"

definition node_state_top_decode_or_exit ::
  "'r exit_codecs \<Rightarrow> (old_node_state, 'r) exit_from_nested \<Rightarrow> (decode_error \<Rightarrow> 'r) \<Rightarrow> u8 list
     \<Rightarrow> (old_node_state \<Rightarrow> 'r) \<Rightarrow> 'r" where
  "node_state_top_decode_or_exit xd xn exit input k = xn (node_state_dep_decode_or_exit xd) exit input k"

section \<open>Keys and signatures of nodes\<close>

text \<open>
  A key is a boxed array of 96 bytes, a signature one of 48 bytes; the codecs of arrays, in both
  variants, belong to the framework. A decoder of arrays is given the length.
\<close>

record 'e array_codecs =
  enc_array :: "u8 list \<Rightarrow> 'e encoded"
  dec_array :: "nat \<Rightarrow> u8 list decoder"
  top_enc_array :: "u8 list \<Rightarrow> 'e encoded"
  top_dec_array :: "nat \<Rightarrow> u8 list \<Rightarrow> u8 list decoded"

record ('e, 'r) exit_array_codecs =
  xenc_array :: "u8 list \<Rightarrow> ('e, 'r) exit_writer"
  xdec_array :: "nat \<Rightarrow> (u8 list, 'r) exit_decoder"
  xtop_enc_array :: "u8 list \<Rightarrow> ('e \<Rightarrow> 'r) \<Rightarrow> (u8 list \<Rightarrow> 'r) \<Rightarrow> 'r"
  xtop_dec_array :: "nat \<Rightarrow> (decode_error \<Rightarrow> 'r) \<Rightarrow> u8 list \<Rightarrow> (u8 list \<Rightarrow> 'r) \<Rightarrow> 'r"

definition BLS_KEY_BYTE_LENGTH :: nat where "BLS_KEY_BYTE_LENGTH = 96"

datatype old_bls_key = OldBLSKey (bls_key_bytes: "u8 list")

definition bls_key_to_vec :: "old_bls_key \<Rightarrow> u8 list" where
  "bls_key_to_vec x = bls_key_bytes x"

definition bls_key_from_array :: "u8 list \<Rightarrow> old_bls_key" where
  "bls_key_from_array arr = OldBLSKey arr"

definition bls_key_dep_encode :: "'e array_codecs \<Rightarrow> old_bls_key \<Rightarrow> 'e encoded" where
  "bls_key_dep_encode ac x = enc_array ac (bls_key_bytes x)"

definition bls_key_dep_encode_or_exit :: "('e, 'r) exit_array_codecs \<Rightarrow> old_bls_key \<Rightarrow> ('e, 'r) exit_writer" where
  "bls_key_dep_encode_or_exit xa x exit dest k = xenc_array xa (bls_key_bytes x) exit dest k"

definition bls_key_top_encode :: "'e array_codecs \<Rightarrow> old_bls_key \<Rightarrow> 'e encoded" where
  "bls_key_top_encode ac x = top_enc_array ac (bls_key_bytes x)"

definition bls_key_top_encode_or_exit ::
  "('e, 'r) exit_array_codecs \<Rightarrow> old_bls_key \<Rightarrow> ('e \<Rightarrow> 'r) \<Rightarrow> (u8 list \<Rightarrow> 'r) \<Rightarrow> 'r" where
  "bls_key_top_encode_or_exit xa x exit k = xtop_enc_array xa (bls_key_bytes x) exit k"

definition bls_key_dep_decode :: "'e array_codecs \<Rightarrow> old_bls_key decoder" where
  "bls_key_dep_decode ac input =
     bind_dec (dec_array ac BLS_KEY_BYTE_LENGTH input) (\<lambda>(bs, rest). Inr (OldBLSKey bs, rest))"

definition bls_key_dep_decode_or_exit :: "('e, 'r) exit_array_codecs \<Rightarrow> (old_bls_key, 'r) exit_decoder" where
  "bls_key_dep_decode_or_exit xa exit input k =
     xdec_array xa BLS_KEY_BYTE_LENGTH exit input (\<lambda>bs. k (OldBLSKey bs))"

definition bls_key_top_decode :: "'e array_codecs \<Rightarrow> u8 list \<Rightarrow> old_bls_key decoded" where
  "bls_key_top_decode ac input = bind_dec (top_dec_array ac BLS_KEY_BYTE_LENGTH input) (\<lambda>bs. Inr (OldBLSKey bs))"

definition bls_key_top_decode_or_exit ::
  "('e, 'r) exit_array_codecs \<Rightarrow> (decode_error \<Rightarrow> 'r) \<Rightarrow> u8 list \<Rightarrow> (old_bls_key \<Rightarrow> 'r) \<Rightarrow> 'r" where
  "bls_key_top_decode_or_exit xa exit input k = xtop_dec_array xa BLS_KEY_BYTE_LENGTH exit input (\<lambda>bs. k (OldBLSKey bs))"

definition bls_key_eq :: "old_bls_key \<Rightarrow> old_bls_key \<Rightarrow> bool" where
  "bls_key_eq x other \<longleftrightarrow> bls_key_bytes x = bls_key_bytes other"

definition BLS_SIGNATURE_BYTE_LENGTH :: nat where "BLS_SIGNATURE_BYTE_LENGTH = 48"

datatype old_bls_sig = OldBLSSignature (bls_sig_bytes: "u8 list")

definition bls_sig_to_vec :: "old_bls_sig \<Rightarrow> u8 list" where
  "bls_sig_to_vec x = bls_sig_bytes x"

definition bls_sig_from_array :: "u8 list \<Rightarrow> old_bls_sig" where
  "bls_sig_from_array arr = OldBLSSignature arr"

definition bls_sig_dep_encode :: "'e array_codecs \<Rightarrow> old_bls_sig \<Rightarrow> 'e encoded" where
  "bls_sig_dep_encode ac x = enc_array ac (bls_sig_bytes x)"

definition bls_sig_dep_encode_or_exit :: "('e, 'r) exit_array_codecs \<Rightarrow> old_bls_sig \<Rightarrow> ('e, 'r) exit_writer" where
  "bls_sig_dep_encode_or_exit xa x exit dest k = xenc_array xa (bls_sig_bytes x) exit dest k"

definition bls_sig_top_encode :: "'e array_codecs \<Rightarrow> old_bls_sig \<Rightarrow> 'e encoded" where
  "bls_sig_top_encode ac x = top_enc_array ac (bls_sig_bytes x)"

definition bls_sig_top_encode_or_exit ::
  "('e, 'r) exit_array_codecs \<Rightarrow> old_bls_sig \<Rightarrow> ('e \<Rightarrow> 'r) \<Rightarrow> (u8 list \<Rightarrow> 'r) \<Rightarrow> 'r" where
  "bls_sig_top_encode_or_exit xa x exit k = xtop_enc_array xa (bls_sig_bytes x) exit k"

definition bls_sig_dep_decode :: "'e array_codecs \<Rightarrow> old_bls_sig decoder" where
  "bls_sig_dep_decode ac input =
     bind_dec (dec_array ac BLS_SIGNATURE_BYTE_LENGTH input) (\<lambda>(bs, rest). Inr (OldBLSSignature bs, rest))"

definition bls_sig_dep_decode_or_exit :: "('e, 'r) exit_array_codecs \<Rightarrow> (old_bls_sig, 'r) exit_decoder" where
  "bls_sig_dep_decode_or_exit xa exit input k =
     xdec_array xa BLS_SIGNATURE_BYTE_LENGTH exit input (\<lambda>bs. k (OldBLSSignature bs))"

definition bls_sig_top_decode :: "'e array_codecs \<Rightarrow> u8 list \<Rightarrow> old_bls_sig decoded" where
  "bls_sig_top_decode ac input = bind_dec (top_dec_array ac BLS_SIGNATURE_BYTE_LENGTH input) (\<lambda>bs. Inr (OldBLSSignature bs))"

definition bls_sig_top_decode_or_exit ::
  "('e, 'r) exit_array_codecs \<Rightarrow> (decode_error \<Rightarrow> 'r) \<Rightarrow> u8 list \<Rightarrow> (old_bls_sig \<Rightarrow> 'r) \<Rightarrow> 'r" where
  "bls_sig_top_decode_or_exit xa exit input k = xtop_dec_array xa BLS_SIGNATURE_BYTE_LENGTH exit input (\<lambda>bs. k (OldBLSSignature bs))"

definition bls_sig_eq :: "old_bls_sig \<Rightarrow> old_bls_sig \<Rightarrow> bool" where
  "bls_sig_eq x other \<longleftrightarrow> bls_sig_bytes x = bls_sig_bytes other"

section \<open>The variants agree\<close>

text \<open>
  A writer that leaves with the error of an encoder or goes on with its bytes appended, and a reader that leaves
  with the error of a decoder.
\<close>

definition writes :: "('e, 'r) exit_writer \<Rightarrow> 'e encoded \<Rightarrow> bool" where
  "writes w r \<longleftrightarrow> (\<forall>exit dest k. w exit dest k = (case r of Inl e \<Rightarrow> exit e | Inr bs \<Rightarrow> k (dest @ bs)))"

definition stores :: "(('e \<Rightarrow> 'r) \<Rightarrow> (u8 list \<Rightarrow> 'r) \<Rightarrow> 'r) \<Rightarrow> 'e encoded \<Rightarrow> bool" where
  "stores w r \<longleftrightarrow> (\<forall>exit k. w exit k = (case r of Inl e \<Rightarrow> exit e | Inr bs \<Rightarrow> k bs))"

definition reads :: "('a, 'r) exit_decoder \<Rightarrow> 'a decoder \<Rightarrow> bool" where
  "reads xdec dec \<longleftrightarrow> (\<forall>exit input k. xdec exit input k = finish exit (dec input) k)"

definition ends :: "((decode_error \<Rightarrow> 'r) \<Rightarrow> u8 list \<Rightarrow> ('a \<Rightarrow> 'r) \<Rightarrow> 'r) \<Rightarrow> (u8 list \<Rightarrow> 'a decoded) \<Rightarrow> bool" where
  "ends xtop dec \<longleftrightarrow> (\<forall>exit input k. xtop exit input k = (case dec input of Inl e \<Rightarrow> exit e | Inr x \<Rightarrow> k x))"

text \<open>What the code relies on of the framework: its own two variants agree.\<close>

definition encoders_ok :: "'e number_codecs \<Rightarrow> ('e, 'r) exit_encoders \<Rightarrow> bool" where
  "encoders_ok cd xe \<longleftrightarrow> (\<forall>x. writes (xenc_u64 xe x) (enc_u64 cd x)) \<and>
     (\<forall>x. writes (xenc_usize xe x) (enc_usize cd x)) \<and> (\<forall>x. writes (xenc_biguint xe x) (enc_biguint cd x))"

definition to_top_ok :: "('e encoded \<Rightarrow> 'e encoded) \<Rightarrow> ('e, 'r) exit_to_top \<Rightarrow> bool" where
  "to_top_ok to_top xt \<longleftrightarrow> (\<forall>w r. writes w r \<longrightarrow> stores (xt w) (to_top r))"

definition from_nested_ok ::
  "('a decoder \<Rightarrow> u8 list \<Rightarrow> 'a decoded) \<Rightarrow> ('a, 'r) exit_from_nested \<Rightarrow> bool" where
  "from_nested_ok from_nested xn \<longleftrightarrow> (\<forall>xdec dec. reads xdec dec \<longrightarrow> ends (xn xdec) (from_nested dec))"

definition array_exits_ok :: "'e array_codecs \<Rightarrow> ('e, 'r) exit_array_codecs \<Rightarrow> bool" where
  "array_exits_ok ac xa \<longleftrightarrow> (\<forall>bs. writes (xenc_array xa bs) (enc_array ac bs)) \<and>
     (\<forall>n. reads (xdec_array xa n) (dec_array ac n)) \<and>
     (\<forall>bs. stores (xtop_enc_array xa bs) (top_enc_array ac bs)) \<and>
     (\<forall>n. ends (xtop_dec_array xa n) (top_dec_array ac n))"

text \<open>A writer followed by the writer of the rest does what the sequence of the encoders does.\<close>

lemma writes_done: "writes (\<lambda>exit dest k. k (dest @ bs)) (Inr bs)"
  by (simp add: writes_def)

lemma writes_last: "writes w r \<Longrightarrow> writes w (enc_all [r])"
  by (cases r) (simp_all add: writes_def)

lemma writes_Cons:
  assumes "writes w r" and "writes v (enc_all rs)"
  shows "writes (\<lambda>exit dest k. w exit dest (\<lambda>dest'. v exit dest' k)) (enc_all (r # rs))"
  using assms by (cases r) (auto simp: writes_def split: sum.splits)

lemma writes_byte:
  assumes "writes w r"
  shows "writes (\<lambda>exit dest. w exit (dest @ [b])) (enc_all [Inr [b], r])"
  using assms by (cases r) (simp_all add: writes_def)

lemma encoders_okD:
  assumes "encoders_ok cd xe"
  shows "writes (xenc_u64 xe x) (enc_u64 cd x)" "writes (xenc_usize xe y) (enc_usize cd y)"
    "writes (xenc_biguint xe z) (enc_biguint cd z)"
  using assms by (simp_all add: encoders_ok_def)

lemma encoder_variants:
  assumes "encoders_ok cd xe"
  shows "writes (fund_description_dep_encode_or_exit xe d) (fund_description_dep_encode cd d)"
    and "writes (fund_type_dep_encode_or_exit t) (fund_type_dep_encode t)"
    and "writes (fund_item_dep_encode_or_exit xe it) (fund_item_dep_encode cd it)"
    and "writes (funds_list_dep_encode_or_exit xe l) (funds_list_dep_encode cd l)"
    and "writes (node_state_dep_encode_or_exit xe st) (node_state_dep_encode cd st)"
proof -
  note numbers = encoders_okD [OF assms]
  show desc: "writes (fund_description_dep_encode_or_exit xe d) (fund_description_dep_encode cd d)" for d
    unfolding fund_description_dep_encode_or_exit_def [abs_def] fund_description_dep_encode_def
    by (cases d; simp only: old_fund_description.case) (intro writes_done writes_byte numbers)+
  show "writes (fund_type_dep_encode_or_exit t) (fund_type_dep_encode t)"
    unfolding fund_type_dep_encode_or_exit_def [abs_def] fund_type_dep_encode_def
    by (cases t; simp only: old_fund_type.case) (rule writes_done)+
  show "writes (fund_item_dep_encode_or_exit xe it) (fund_item_dep_encode cd it)"
    unfolding fund_item_dep_encode_or_exit_def [abs_def] fund_item_dep_encode_def
    by (intro writes_Cons writes_last desc numbers)
  show "writes (funds_list_dep_encode_or_exit xe l) (funds_list_dep_encode cd l)"
    unfolding funds_list_dep_encode_or_exit_def [abs_def] funds_list_dep_encode_def
    by (intro writes_Cons writes_last numbers)
  show "writes (node_state_dep_encode_or_exit xe st) (node_state_dep_encode cd st)"
    unfolding node_state_dep_encode_or_exit_def [abs_def] node_state_dep_encode_def
    by (cases st; simp only: old_node_state.case) (intro writes_done writes_byte numbers)+
qed

lemma decoder_variants:
  fixes xd :: "'r exit_codecs"
  assumes "exits_ok cd xd"
  shows "reads (fund_description_dep_decode_or_exit xd) (fund_description_dep_decode cd)"
    and "reads (fund_type_dep_decode_or_exit :: (old_fund_type, 'r) exit_decoder) fund_type_dep_decode"
    and "reads (fund_item_dep_decode_or_exit xd) (fund_item_dep_decode cd)"
    and "reads (funds_list_dep_decode_or_exit xd) (funds_list_dep_decode cd)"
    and "reads (node_state_dep_decode_or_exit xd) (node_state_dep_decode cd)"
  by (simp_all add: reads_def variants_agree [OF assms])

text \<open>
  (C40) The two variants of each old codec agree, errors included, for fund types, fund descriptions, fund items,
  list heads and node states. The nested encoder that leaves through \<open>exit\<close> leaves with the error that the
  other one returns, or appends exactly the bytes that the other one writes and goes on; the nested decoder goes
  on with the value and the rest that the
  other one returns, or leaves with its error; and the same holds of the top-level encoders and
  decoders, the shortcuts for zero values and empty input included.
\<close>

theorem old_variants_agree:
  fixes xd :: "'r exit_codecs" and xe :: "('e, 'r) exit_encoders" and xfrom_type :: "(old_fund_type, 'r) exit_from_nested"
  assumes "exits_ok cd xd" and "encoders_ok cd xe" and "to_top_ok to_top xt"
    and "from_nested_ok from_desc xfrom_desc" and "from_nested_ok from_type xfrom_type"
    and "from_nested_ok from_item xfrom_item" and "from_nested_ok from_list xfrom_list"
    and "from_nested_ok from_state xfrom_state"
  shows "(writes (fund_description_dep_encode_or_exit xe d) (fund_description_dep_encode cd d) \<and>
     writes (fund_type_dep_encode_or_exit t :: ('e, 'r) exit_writer) (fund_type_dep_encode t) \<and>
     writes (fund_item_dep_encode_or_exit xe it) (fund_item_dep_encode cd it) \<and>
     writes (funds_list_dep_encode_or_exit xe l) (funds_list_dep_encode cd l) \<and>
     writes (node_state_dep_encode_or_exit xe st) (node_state_dep_encode cd st)) \<and>
    (reads (fund_description_dep_decode_or_exit xd) (fund_description_dep_decode cd) \<and>
     reads (fund_type_dep_decode_or_exit :: (old_fund_type, 'r) exit_decoder) fund_type_dep_decode \<and>
     reads (fund_item_dep_decode_or_exit xd) (fund_item_dep_decode cd) \<and>
     reads (funds_list_dep_decode_or_exit xd) (funds_list_dep_decode cd) \<and>
     reads (node_state_dep_decode_or_exit xd) (node_state_dep_decode cd)) \<and>
    (stores (fund_description_top_encode_or_exit xe xt d) (fund_description_top_encode cd to_top d) \<and>
     stores (fund_type_top_encode_or_exit xt t) (fund_type_top_encode to_top t) \<and>
     stores (fund_item_top_encode_or_exit xe xt it) (fund_item_top_encode cd to_top it) \<and>
     stores (funds_list_top_encode_or_exit xe xt l) (funds_list_top_encode cd to_top l) \<and>
     stores (node_state_top_encode_or_exit xe xt st) (node_state_top_encode cd to_top st)) \<and>
    (ends (fund_description_top_decode_or_exit xd xfrom_desc) (fund_description_top_decode cd from_desc) \<and>
     ends (fund_type_top_decode_or_exit xfrom_type) (fund_type_top_decode from_type) \<and>
     ends (fund_item_top_decode_or_exit xd xfrom_item) (fund_item_top_decode cd from_item) \<and>
     ends (funds_list_top_decode_or_exit xd xfrom_list) (funds_list_top_decode cd from_list) \<and>
     ends (node_state_top_decode_or_exit xd xfrom_state) (node_state_top_decode cd from_state))"
proof -
  note enc = encoder_variants [OF assms(2)] and dec = decoder_variants [OF assms(1)]
  have top: "stores (\<lambda>exit k. xt w exit k) (to_top r)" if "writes w r" for w r
    using assms(3) that by (simp add: to_top_ok_def)
  have encs: "stores (fund_description_top_encode_or_exit xe xt d) (fund_description_top_encode cd to_top d)"
    "stores (fund_type_top_encode_or_exit xt t) (fund_type_top_encode to_top t)"
    "stores (node_state_top_encode_or_exit xe xt st) (node_state_top_encode cd to_top st)"
    unfolding fund_description_top_encode_or_exit_def [abs_def] fund_description_top_encode_def
      fund_type_top_encode_or_exit_def [abs_def] fund_type_top_encode_def
      node_state_top_encode_or_exit_def [abs_def] node_state_top_encode_def
    by (intro top enc)+
  moreover have "stores (fund_item_top_encode_or_exit xe xt it) (fund_item_top_encode cd to_top it)"
    using top [OF enc(3), of it]
    by (simp add: stores_def fund_item_top_encode_or_exit_def fund_item_top_encode_def)
  moreover have "stores (funds_list_top_encode_or_exit xe xt l) (funds_list_top_encode cd to_top l)"
    using top [OF enc(4), of l]
    by (simp add: stores_def funds_list_top_encode_or_exit_def funds_list_top_encode_def)
  moreover have "ends (fund_description_top_decode_or_exit xd xfrom_desc) (fund_description_top_decode cd from_desc)"
    using assms(4) dec(1) by (simp add: from_nested_ok_def ends_def fund_description_top_decode_or_exit_def
        fund_description_top_decode_def)
  moreover have "ends (fund_type_top_decode_or_exit xfrom_type) (fund_type_top_decode from_type)"
    using assms(5) dec(2) by (simp add: from_nested_ok_def ends_def fund_type_top_decode_or_exit_def fund_type_top_decode_def)
  moreover have "ends (fund_item_top_decode_or_exit xd xfrom_item) (fund_item_top_decode cd from_item)"
    using assms(6) dec(3) by (simp add: from_nested_ok_def ends_def fund_item_top_decode_or_exit_def fund_item_top_decode_def)
  moreover have "ends (funds_list_top_decode_or_exit xd xfrom_list) (funds_list_top_decode cd from_list)"
    using assms(7) dec(4) by (simp add: from_nested_ok_def ends_def funds_list_top_decode_or_exit_def funds_list_top_decode_def)
  moreover have "ends (node_state_top_decode_or_exit xd xfrom_state) (node_state_top_decode cd from_state)"
    using assms(8) dec(5) by (simp add: from_nested_ok_def ends_def node_state_top_decode_or_exit_def node_state_top_decode_def)
  ultimately show ?thesis
    using enc dec by blast
qed

text \<open>The big-endian codec of numbers, in the variant that leaves, and the steps to the top level.\<close>

definition writer_of :: "'e encoded \<Rightarrow> ('e, 'r) exit_writer" where
  "writer_of r exit dest k = (case r of Inl e \<Rightarrow> exit e | Inr bs \<Rightarrow> k (dest @ bs))"

definition big_endian_writers :: "(string, 'r) exit_encoders" where
  "big_endian_writers = \<lparr>xenc_u64 = (\<lambda>x. writer_of (enc_u64 big_endian x)),
     xenc_usize = (\<lambda>x. writer_of (enc_usize big_endian x)),
     xenc_biguint = (\<lambda>x. writer_of (enc_biguint big_endian x))\<rparr>"

lemma big_endian_writers_ok: "encoders_ok big_endian big_endian_writers"
  by (simp add: encoders_ok_def writes_def big_endian_writers_def writer_of_def)

definition sample_to_top_or_exit :: "('e, 'r) exit_to_top" where
  "sample_to_top_or_exit w exit k = w exit [] k"

definition sample_from_nested_or_exit :: "('a, 'r) exit_from_nested" where
  "sample_from_nested_or_exit xdec exit input k =
     xdec exit input (\<lambda>x rest. if rest = [] then k x else exit INPUT_TOO_LONG)"

lemma sample_top_ok: "to_top_ok id sample_to_top_or_exit" "from_nested_ok sample_from_nested sample_from_nested_or_exit"
  by (auto simp: to_top_ok_def sample_to_top_or_exit_def writes_def stores_def from_nested_ok_def reads_def ends_def
      sample_from_nested_or_exit_def sample_from_nested_def finish_def bind_dec_def split: sum.splits prod.splits if_splits)

definition sample_unwritable :: old_funds_list_info where
  "sample_unwritable = \<lparr>ol_total_balance = 2 ^ 64, ol_first = 1, ol_last = 1\<rparr>"

theorem old_variants_agree_witness:
  "fund_item_top_encode_or_exit big_endian_writers sample_to_top_or_exit sample_item Inl Inr =
     fund_item_top_encode big_endian id sample_item \<and>
   funds_list_top_encode_or_exit big_endian_writers sample_to_top_or_exit sample_unwritable Inl Inr =
     Inl ''number too big''"
proof -
  have exits: "exits_ok big_endian (big_endian_exits :: (string + u8 list) exit_codecs)"
    and writers: "encoders_ok big_endian (big_endian_writers :: (string, string + u8 list) exit_encoders)"
    and top: "to_top_ok id (sample_to_top_or_exit :: (string, string + u8 list) exit_to_top)"
    by (rule big_endian_exits_ok big_endian_writers_ok sample_top_ok)+
  note agree = old_variants_agree [OF exits writers top sample_top_ok(2) sample_top_ok(2) sample_top_ok(2) sample_top_ok(2)
      sample_top_ok(2), of undefined undefined sample_item sample_unwritable undefined]
  have item: "stores (fund_item_top_encode_or_exit big_endian_writers
      (sample_to_top_or_exit :: (string, string + u8 list) exit_to_top) sample_item) (fund_item_top_encode big_endian id sample_item)"
    by (rule agree [THEN conjunct2, THEN conjunct2, THEN conjunct1, THEN conjunct2, THEN conjunct2, THEN conjunct1])
  have list: "stores (funds_list_top_encode_or_exit big_endian_writers
      (sample_to_top_or_exit :: (string, string + u8 list) exit_to_top) sample_unwritable)
      (funds_list_top_encode big_endian id sample_unwritable)"
    by (rule agree [THEN conjunct2, THEN conjunct2, THEN conjunct1, THEN conjunct2, THEN conjunct2, THEN conjunct2, THEN conjunct1])
  have "enc_biguint big_endian (2 ^ 64) = Inl ''number too big''"
    by (simp add: big_endian_def byte_length.simps)
  then have "funds_list_top_encode big_endian id sample_unwritable = Inl ''number too big''"
    by (simp add: funds_list_top_encode_def funds_list_dep_encode_def funds_list_is_empty_def sample_unwritable_def)
  then show ?thesis
    using item list by (simp add: stores_def split: sum.splits)
qed

section \<open>Keys and signatures\<close>

text \<open>
  The codecs of keys and signatures hand everything to those of arrays: their variants agree when those of arrays
  do. Two keys or signatures are equal exactly when their bytes are.
\<close>

lemma old_key_variants:
  assumes "array_exits_ok ac xa"
  shows "writes (bls_key_dep_encode_or_exit xa x) (bls_key_dep_encode ac x)"
    and "stores (bls_key_top_encode_or_exit xa x) (bls_key_top_encode ac x)"
    and "reads (bls_key_dep_decode_or_exit xa) (bls_key_dep_decode ac)"
    and "ends (bls_key_top_decode_or_exit xa) (bls_key_top_decode ac)"
  using assms
  by (auto simp: array_exits_ok_def writes_def stores_def reads_def ends_def bls_key_dep_encode_or_exit_def
      bls_key_dep_encode_def bls_key_top_encode_or_exit_def bls_key_top_encode_def bls_key_dep_decode_or_exit_def
      bls_key_dep_decode_def bls_key_top_decode_or_exit_def bls_key_top_decode_def finish_def bind_dec_def split: sum.splits)

lemma old_signature_variants:
  assumes "array_exits_ok ac xa"
  shows "writes (bls_sig_dep_encode_or_exit xa x) (bls_sig_dep_encode ac x)"
    and "stores (bls_sig_top_encode_or_exit xa x) (bls_sig_top_encode ac x)"
    and "reads (bls_sig_dep_decode_or_exit xa) (bls_sig_dep_decode ac)"
    and "ends (bls_sig_top_decode_or_exit xa) (bls_sig_top_decode ac)"
  using assms
  by (auto simp: array_exits_ok_def writes_def stores_def reads_def ends_def bls_sig_dep_encode_or_exit_def
      bls_sig_dep_encode_def bls_sig_top_encode_or_exit_def bls_sig_top_encode_def bls_sig_dep_decode_or_exit_def
      bls_sig_dep_decode_def bls_sig_top_decode_or_exit_def bls_sig_top_decode_def finish_def bind_dec_def split: sum.splits)

lemma old_key_equality:
  "bls_key_eq x y \<longleftrightarrow> x = y" "bls_sig_eq v w \<longleftrightarrow> v = w"
  "bls_key_from_array (bls_key_to_vec x) = x" "bls_sig_from_array (bls_sig_to_vec v) = v"
  by (cases x; cases y; cases v; cases w; simp add: bls_key_eq_def bls_sig_eq_def bls_key_from_array_def bls_key_to_vec_def
      bls_sig_from_array_def bls_sig_to_vec_def)+

end
